(* ===== verification/GoPrelude.thy ===== *)
theory GoPrelude
  imports Main "HOL-Library.Multiset" "HOL-Library.Word" "HOL-Library.Sublist"
begin

text \<open>
  What every component shares: how a Go call can fail (an error value or a run-time
  panic), slicing and indexing with Go's bounds checks, the contract of
  \<^verbatim>\<open>sort.Slice\<close>, and the collections of facts the component proofs use.
\<close>

named_theorems go_defs \<open>unfolding rules of the small Go helpers\<close>
named_theorems res_simps \<open>rewriting of results that may fail\<close>

section \<open>Results\<close>

datatype panic =
    IndexOutOfRange
  | SliceOutOfRange
  | NilDereference
  | PanicMessage string

datatype 'e failure = Error 'e | Panic panic

type_synonym ('e, 'a) res = "'e failure + 'a"

definition bind_res :: "('e, 'a) res \<Rightarrow> ('a \<Rightarrow> ('e, 'b) res) \<Rightarrow> ('e, 'b) res" where
  "bind_res r f = (case r of Inl e \<Rightarrow> Inl e | Inr a \<Rightarrow> f a)"

lemma bind_res_simps [simp]:
  "bind_res (Inl e) f = Inl e"
  "bind_res (Inr a) f = f a"
  by (simp_all add: bind_res_def)

lemma bind_res_Inr_iff [res_simps]:
  "bind_res r f = Inr b \<longleftrightarrow> (\<exists>a. r = Inr a \<and> f a = Inr b)"
  by (cases r) simp_all

lemma bind_res_Inl_iff [res_simps]:
  "bind_res r f = Inl e \<longleftrightarrow> r = Inl e \<or> (\<exists>a. r = Inr a \<and> f a = Inl e)"
  by (cases r) auto

definition is_panic :: "('e, 'a) res \<Rightarrow> bool" where
  "is_panic r \<longleftrightarrow> (case r of Inl (Panic p) \<Rightarrow> True | _ \<Rightarrow> False)"

lemma is_panic_simps [simp]:
  "\<not> is_panic (Inr a)"
  "\<not> is_panic (Inl (Error e))"
  "is_panic (Inl (Panic p))"
  by (simp_all add: is_panic_def)

lemma is_panic_Inl [res_simps]: "is_panic (Inl e) \<longleftrightarrow> (\<exists>p. e = Panic p)"
  by (cases e) simp_all

lemma is_panic_bind [res_simps]:
  "is_panic (bind_res r f) \<longleftrightarrow> is_panic r \<or> (\<exists>a. r = Inr a \<and> is_panic (f a))"
  by (cases r) (auto simp: is_panic_def)

text \<open>A Go loop that stops at the first failure while it collects its results.\<close>

fun map_res :: "('a \<Rightarrow> ('e, 'b) res) \<Rightarrow> 'a list \<Rightarrow> ('e, 'b list) res" where
  "map_res f [] = Inr []"
| "map_res f (x # xs) =
     bind_res (f x) (\<lambda>y. bind_res (map_res f xs) (\<lambda>ys. Inr (y # ys)))"

lemma map_res_all_Inr:
  "(\<And>x. x \<in> set xs \<Longrightarrow> f x = Inr (g x)) \<Longrightarrow> map_res f xs = Inr (map g xs)"
  by (induction xs) simp_all

section \<open>Slices\<close>

text \<open>
  \<^verbatim>\<open>s[i:j]\<close> panics unless \<open>0 \<le> i \<le> j \<le> len(s)\<close>, and \<^verbatim>\<open>s[i]\<close> unless
  \<open>0 \<le> i < len(s)\<close>.
\<close>

definition go_slice :: "'a list \<Rightarrow> int \<Rightarrow> int \<Rightarrow> ('e, 'a list) res" where
  "go_slice s i j =
     (if 0 \<le> i \<and> i \<le> j \<and> j \<le> int (length s)
      then Inr (take (nat (j - i)) (drop (nat i) s))
      else Inl (Panic SliceOutOfRange))"

definition go_index :: "'a list \<Rightarrow> int \<Rightarrow> ('e, 'a) res" where
  "go_index s i =
     (if 0 \<le> i \<and> i < int (length s) then Inr (s ! nat i)
      else Inl (Panic IndexOutOfRange))"

lemma go_slice_ok [simp]:
  "0 \<le> i \<Longrightarrow> i \<le> j \<Longrightarrow> j \<le> int (length s) \<Longrightarrow>
     go_slice s i j = Inr (take (nat (j - i)) (drop (nat i) s))"
  by (simp add: go_slice_def)

lemma go_index_ok [simp]:
  "0 \<le> i \<Longrightarrow> i < int (length s) \<Longrightarrow> go_index s i = Inr (s ! nat i)"
  by (simp add: go_index_def)

lemma go_slice_error [simp]: "go_slice s i j \<noteq> Inl (Error e)"
  by (simp add: go_slice_def)

lemma go_index_error [simp]: "go_index s i \<noteq> Inl (Error e)"
  by (simp add: go_index_def)

lemma is_panic_go_index [simp]: "is_panic (go_index s i) \<longleftrightarrow> i < 0 \<or> int (length s) \<le> i"
  by (auto simp: go_index_def)

lemma is_panic_go_slice [simp]:
  "is_panic (go_slice s i j) \<longleftrightarrow> i < 0 \<or> j < i \<or> int (length s) < j"
  by (auto simp: go_slice_def)

section \<open>sort.Slice\<close>

text \<open>
  \<^verbatim>\<open>sort.Slice(s, less)\<close> leaves \<open>s\<close> sorted by \<open>less\<close>; it is not guaranteed to be
  stable, so the order among elements that \<open>less\<close> does not separate is whatever the
  library happens to produce. The model rearranges the slice by an arbitrary \<open>arr\<close>
  and then sorts it stably: over all permutations \<open>arr\<close> this gives exactly the results
  the contract allows.
\<close>

fun insort_less :: "('a \<Rightarrow> 'a \<Rightarrow> bool) \<Rightarrow> 'a \<Rightarrow> 'a list \<Rightarrow> 'a list" where
  "insort_less lt x [] = [x]"
| "insort_less lt x (y # ys) =
     (if lt y x then y # insort_less lt x ys else x # y # ys)"

definition sort_less :: "('a \<Rightarrow> 'a \<Rightarrow> bool) \<Rightarrow> 'a list \<Rightarrow> 'a list" where
  "sort_less lt xs = foldr (insort_less lt) xs []"

definition sort_slice ::
    "('a list \<Rightarrow> 'a list) \<Rightarrow> ('a \<Rightarrow> 'a \<Rightarrow> bool) \<Rightarrow> 'a list \<Rightarrow> 'a list" where
  "sort_slice arr lt xs = sort_less lt (arr xs)"

definition rearranges :: "('a list \<Rightarrow> 'a list) \<Rightarrow> bool" where
  "rearranges arr \<longleftrightarrow> (\<forall>xs. mset (arr xs) = mset xs)"

lemma rearranges_mset: "rearranges arr \<Longrightarrow> mset (arr xs) = mset xs"
  by (simp add: rearranges_def)

lemma rearranges_set: "rearranges arr \<Longrightarrow> set (arr xs) = set xs"
  by (metis rearranges_mset mset_eq_setD)

lemma rearranges_length: "rearranges arr \<Longrightarrow> length (arr xs) = length xs"
  by (metis rearranges_mset mset_eq_length)

lemma rearranges_id [simp]: "rearranges (\<lambda>xs. xs)"
  by (simp add: rearranges_def)

lemma rearranges_rev [simp]: "rearranges rev"
  by (simp add: rearranges_def)

lemma mset_insort_less [simp]: "mset (insort_less lt x xs) = add_mset x (mset xs)"
  by (induction xs) simp_all

lemma mset_sort_less [simp]: "mset (sort_less lt xs) = mset xs"
  by (induction xs) (simp_all add: sort_less_def)

lemma set_insort_less [simp]: "set (insort_less lt x xs) = insert x (set xs)"
  by (induction xs) auto

lemma set_sort_less [simp]: "set (sort_less lt xs) = set xs"
  by (metis mset_sort_less mset_eq_setD)

lemma mset_sort_slice: "rearranges arr \<Longrightarrow> mset (sort_slice arr lt xs) = mset xs"
  by (simp add: sort_slice_def rearranges_mset)

lemma set_sort_slice: "rearranges arr \<Longrightarrow> set (sort_slice arr lt xs) = set xs"
  by (metis mset_sort_slice mset_eq_setD)

lemma length_sort_slice: "rearranges arr \<Longrightarrow> length (sort_slice arr lt xs) = length xs"
  by (metis mset_sort_slice mset_eq_length)

text \<open>What a \<open>less\<close> function must satisfy for the sort to mean anything.\<close>

locale less_order =
  fixes lt :: "'a \<Rightarrow> 'a \<Rightarrow> bool"
  assumes less_asym: "lt x y \<Longrightarrow> \<not> lt y x"
    and less_trans_not: "\<not> lt y x \<Longrightarrow> \<not> lt z y \<Longrightarrow> \<not> lt z x"
begin

definition ordered :: "'a list \<Rightarrow> bool" where
  "ordered xs \<longleftrightarrow> sorted_wrt (\<lambda>a b. \<not> lt b a) xs"

lemma ordered_insort: "ordered xs \<Longrightarrow> ordered (insort_less lt x xs)"
proof (induction xs)
  case Nil
  then show ?case by (simp add: ordered_def)
next
  case (Cons y ys)
  show ?case
  proof (cases "lt y x")
    case True
    with Cons show ?thesis by (auto simp: ordered_def dest: less_asym)
  next
    case False
    with Cons.prems show ?thesis
      by (auto simp: ordered_def dest: less_trans_not)
  qed
qed

lemma ordered_sort_less: "ordered (sort_less lt xs)"
proof (induction xs)
  case Nil
  show ?case by (simp add: sort_less_def ordered_def)
next
  case (Cons x xs)
  then show ?case by (simp add: sort_less_def ordered_insort)
qed

lemma ordered_sort_slice: "ordered (sort_slice arr lt xs)"
  by (simp add: sort_slice_def ordered_sort_less)

lemma sort_less_ordered: "ordered xs \<Longrightarrow> sort_less lt xs = xs"
proof (induction xs)
  case Nil
  show ?case by (simp add: sort_less_def)
next
  case (Cons x xs)
  then have "sort_less lt (x # xs) = insort_less lt x xs"
    by (simp add: sort_less_def ordered_def)
  also have "\<dots> = x # xs"
    using Cons.prems by (cases xs) (auto simp: ordered_def)
  finally show ?case .
qed

text \<open>Every sorted rearrangement is a possible result of the sort.\<close>

lemma sort_slice_complete:
  assumes "mset ys = mset xs" and "ordered ys"
  shows "sort_slice (\<lambda>_. ys) lt xs = ys"
  using assms(2) by (simp add: sort_slice_def sort_less_ordered)

text \<open>
  Where \<open>less\<close> separates any two different elements of the slice, the result does not
  depend on the arrangement.
\<close>

lemma ordered_unique:
  assumes "ordered xs" "ordered ys" "mset xs = mset ys"
    and "\<And>a b. a \<in> set xs \<Longrightarrow> b \<in> set xs \<Longrightarrow> a \<noteq> b \<Longrightarrow> lt a b \<or> lt b a"
  shows "xs = ys"
  using assms
proof (induction xs arbitrary: ys)
  case Nil
  then show ?case by simp
next
  case (Cons x xs)
  obtain y ys' where ys: "ys = y # ys'"
    using Cons.prems(3) by (cases ys) auto
  have "set (x # xs) = set (y # ys')"
    using Cons.prems(3) ys by (metis mset_eq_setD)
  then have "y \<in> set (x # xs)" and "x \<in> set (y # ys')"
    by (metis list.set_intros(1))+
  have "x = y"
  proof (rule ccontr)
    assume "x \<noteq> y"
    with \<open>y \<in> set (x # xs)\<close> \<open>x \<in> set (y # ys')\<close> have "y \<in> set xs" "x \<in> set ys'" by auto
    then have "\<not> lt y x" "\<not> lt x y"
      using Cons.prems(1,2) ys by (auto simp: ordered_def)
    with Cons.prems(4)[of x y] \<open>x \<noteq> y\<close> \<open>y \<in> set xs\<close> show False by auto
  qed
  moreover have "xs = ys'"
    using Cons.prems ys \<open>x = y\<close> by (intro Cons.IH) (auto simp: ordered_def)
  ultimately show ?case using ys by simp
qed

lemma sort_slice_unique:
  assumes "rearranges arr" "rearranges arr'" "mset xs = mset ys"
    and "\<And>a b. a \<in> set xs \<Longrightarrow> b \<in> set xs \<Longrightarrow> a \<noteq> b \<Longrightarrow> lt a b \<or> lt b a"
  shows "sort_slice arr lt xs = sort_slice arr' lt ys"
proof (rule ordered_unique)
  show "mset (sort_slice arr lt xs) = mset (sort_slice arr' lt ys)"
    using assms by (simp add: mset_sort_slice)
  show "lt a b \<or> lt b a"
    if "a \<in> set (sort_slice arr lt xs)" "b \<in> set (sort_slice arr lt xs)" "a \<noteq> b" for a b
    using that assms(4)[of a b] assms(1) by (simp add: set_sort_slice)
qed (rule ordered_sort_slice)+

end

section \<open>Reading a stream of records\<close>

text \<open>
  Most of the parsers are a loop around a step that takes one record off the front of the
  input, or reports that there is none. Where the step takes exactly the first rendered
  record off, the loop reads back the whole list.
\<close>

locale record_stream =
  fixes next_record :: "'s \<Rightarrow> ('e, 'a option \<times> 's) res"
    and read_all :: "'s \<Rightarrow> ('e, 'a list) res"
    and render :: "'r list \<Rightarrow> 's"
    and meaning :: "'r \<Rightarrow> 'a"
    and fine :: "'r \<Rightarrow> bool"
  assumes read_step: "read_all s =
      (case next_record s of
         Inl e \<Rightarrow> Inl e
       | Inr (None, s') \<Rightarrow> Inr []
       | Inr (Some a, s') \<Rightarrow> bind_res (read_all s') (\<lambda>as. Inr (a # as)))"
    and next_Nil: "\<exists>s'. next_record (render []) = Inr (None, s')"
    and next_Cons: "fine r \<Longrightarrow> list_all fine rs \<Longrightarrow>
      next_record (render (r # rs)) = Inr (Some (meaning r), render rs)"
begin

lemma read_all_render: "list_all fine rs \<Longrightarrow> read_all (render rs) = Inr (map meaning rs)"
proof (induction rs)
  case Nil
  obtain s' where "next_record (render []) = Inr (None, s')" using next_Nil by blast
  then show ?case by (subst read_step) simp
next
  case (Cons r rs)
  then show ?case by (subst read_step) (simp add: next_Cons)
qed

text \<open>Records with different meanings are never confused.\<close>

lemma render_injective:
  assumes "list_all fine rs" "list_all fine rs'" "render rs = render rs'"
  shows "map meaning rs = map meaning rs'"
  using read_all_render[OF assms(1)] read_all_render[OF assms(2)] assms(3) by simp

end

end
