(* ===== verification/GoStrings.thy ===== *)
theory GoStrings
  imports GoPrelude
begin

text \<open>
  The parts of Go's \<^verbatim>\<open>strings\<close>, \<^verbatim>\<open>bytes\<close>, \<^verbatim>\<open>strconv\<close>, \<^verbatim>\<open>path\<close>, \<^verbatim>\<open>utf8\<close> and
  \<^verbatim>\<open>bufio\<close> packages that the program calls. A Go string or byte slice is a list of
  bytes; Isabelle's \<open>char\<close> is a byte.
\<close>

abbreviation NUL :: char where "NUL \<equiv> CHR 0x00"
abbreviation TAB :: char where "TAB \<equiv> CHR 0x09"
abbreviation NL :: char where "NL \<equiv> CHR 0x0A"
abbreviation CR :: char where "CR \<equiv> CHR 0x0D"
abbreviation BACKSLASH :: char where "BACKSLASH \<equiv> CHR 0x5C"
abbreviation QUOTE :: char where "QUOTE \<equiv> CHR 0x22"

section \<open>Searching and cutting strings\<close>

definition HasPrefix :: "'a list \<Rightarrow> 'a list \<Rightarrow> bool" where
  "HasPrefix s p \<longleftrightarrow> take (length p) s = p"

definition HasSuffix :: "'a list \<Rightarrow> 'a list \<Rightarrow> bool" where
  "HasSuffix s p \<longleftrightarrow> HasPrefix (rev s) (rev p)"

definition TrimPrefix :: "'a list \<Rightarrow> 'a list \<Rightarrow> 'a list" where
  "TrimPrefix s p = (if HasPrefix s p then drop (length p) s else s)"

lemma HasPrefix_append [simp]: "HasPrefix (p @ s) p"
  by (simp add: HasPrefix_def)

lemma HasPrefix_iff: "HasPrefix s p \<longleftrightarrow> (\<exists>t. s = p @ t)"
  by (metis HasPrefix_append HasPrefix_def append_take_drop_id)

lemma HasPrefix_Nil [simp]: "HasPrefix s []"
  by (simp add: HasPrefix_def)

lemma HasPrefix_Cons [simp]:
  "HasPrefix (x # s) (y # p) \<longleftrightarrow> x = y \<and> HasPrefix s p"
  "\<not> HasPrefix [] (y # p)"
  by (auto simp: HasPrefix_def)

lemma TrimPrefix_append [simp]: "TrimPrefix (p @ s) p = s"
  by (simp add: TrimPrefix_def)

fun index_opt :: "'a list \<Rightarrow> 'a list \<Rightarrow> nat option" where
  "index_opt [] sub = (if sub = [] then Some 0 else None)"
| "index_opt (x # s) sub =
     (if HasPrefix (x # s) sub then Some 0 else map_option Suc (index_opt s sub))"

text \<open>\<^verbatim>\<open>strings.Index\<close>: the first position of the substring, or -1.\<close>

definition Index :: "'a list \<Rightarrow> 'a list \<Rightarrow> int" where
  "Index s sub = (case index_opt s sub of None \<Rightarrow> -1 | Some i \<Rightarrow> int i)"

text \<open>\<^verbatim>\<open>strings.LastIndex\<close> of a one-byte substring.\<close>

definition LastIndexByte :: "'a list \<Rightarrow> 'a \<Rightarrow> int" where
  "LastIndexByte s c =
     (case index_opt (rev s) [c] of None \<Rightarrow> -1 | Some i \<Rightarrow> int (length s) - 1 - int i)"

definition Contains :: "'a list \<Rightarrow> 'a list \<Rightarrow> bool" where
  "Contains s sub \<longleftrightarrow> index_opt s sub \<noteq> None"

text \<open>\<^verbatim>\<open>strings.Replace(s, old, new, 1)\<close> with a non-empty \<open>old\<close>.\<close>

definition ReplaceFirst :: "'a list \<Rightarrow> 'a list \<Rightarrow> 'a list \<Rightarrow> 'a list" where
  "ReplaceFirst s old nw =
     (case index_opt s old of
        None \<Rightarrow> s
      | Some i \<Rightarrow> take i s @ nw @ drop (i + length old) s)"

lemma index_opt_prefix [simp]: "HasPrefix s sub \<Longrightarrow> index_opt s sub = Some 0"
  by (cases s) (auto simp: HasPrefix_def)

lemma index_opt_Some_split:
  "index_opt s sub = Some i \<Longrightarrow> \<exists>t. s = take i s @ sub @ t"
proof (induction s arbitrary: i)
  case Nil
  then show ?case by (simp split: if_splits)
next
  case (Cons x s)
  show ?case
  proof (cases "HasPrefix (x # s) sub")
    case True
    with Cons.prems show ?thesis by (auto simp: HasPrefix_iff)
  next
    case False
    with Cons.prems obtain j where j: "index_opt s sub = Some j" "i = Suc j" by auto
    from Cons.IH[OF j(1)] j(2) show ?thesis by auto
  qed
qed

lemma index_opt_byte_None [simp]: "index_opt s [c] = None \<longleftrightarrow> c \<notin> set s"
  by (induction s) auto

lemma index_opt_byte_append:
  "c \<notin> set a \<Longrightarrow> index_opt (a @ c # b) [c] = Some (length a)"
  by (induction a) auto

lemma ReplaceFirst_prefix: "ReplaceFirst (old @ s) old nw = nw @ s"
  by (simp add: ReplaceFirst_def)

fun split_on :: "'a \<Rightarrow> 'a list \<Rightarrow> 'a list list" where
  "split_on c [] = [[]]"
| "split_on c (x # xs) =
     (if x = c then [] # split_on c xs
      else (case split_on c xs of [] \<Rightarrow> [[x]] | y # ys \<Rightarrow> (x # y) # ys))"

text \<open>The two parts of a string around the first occurrence of a byte.\<close>

fun Cut :: "'a \<Rightarrow> 'a list \<Rightarrow> ('a list \<times> 'a list) option" where
  "Cut c [] = None"
| "Cut c (x # xs) =
     (if x = c then Some ([], xs) else map_option (\<lambda>(a, b). (x # a, b)) (Cut c xs))"

text \<open>\<^verbatim>\<open>SplitN(s, c, n)\<close> for \<open>n > 0\<close>: at most \<open>n\<close> pieces, the last one unsplit.\<close>

fun splitn_on :: "nat \<Rightarrow> 'a \<Rightarrow> 'a list \<Rightarrow> 'a list list" where
  "splitn_on 0 c s = []"
| "splitn_on (Suc 0) c s = [s]"
| "splitn_on (Suc (Suc n)) c s =
     (case Cut c s of None \<Rightarrow> [s] | Some (a, b) \<Rightarrow> a # splitn_on (Suc n) c b)"

fun join :: "'a list \<Rightarrow> 'a list list \<Rightarrow> 'a list" where
  "join sep [] = []"
| "join sep [x] = x"
| "join sep (x # y # ys) = x @ sep @ join sep (y # ys)"

lemma split_on_neq_Nil [simp]: "split_on c s \<noteq> []"
  by (cases s) (auto split: list.splits)

lemma length_split_on: "length (split_on c s) = Suc (count_list s c)"
proof (induction s)
  case (Cons x s)
  then show ?case by (cases "split_on c s") auto
qed simp

lemma join_Cons_ne: "ys \<noteq> [] \<Longrightarrow> join sep (x # ys) = x @ sep @ join sep ys"
  by (cases ys) simp_all

lemma join_split_on: "join [c] (split_on c s) = s"
proof (induction s)
  case (Cons x s)
  then show ?case
    by (cases "split_on c s"; cases "tl (split_on c s)") (auto simp: join_Cons_ne)
qed simp

lemma split_on_no_sep: "c \<notin> set s \<Longrightarrow> split_on c s = [s]"
  by (induction s) auto

lemma split_on_append:
  "c \<notin> set a \<Longrightarrow> split_on c (a @ c # b) = a # split_on c b"
  by (induction a) auto

lemma split_on_join:
  "xs \<noteq> [] \<Longrightarrow> (\<And>x. x \<in> set xs \<Longrightarrow> c \<notin> set x) \<Longrightarrow> split_on c (join [c] xs) = xs"
proof (induction xs rule: induct_list012)
  case (3 x y zs)
  then show ?case by (simp add: split_on_append)
qed (simp_all add: split_on_no_sep)

lemma split_on_append_any: "split_on c (a @ c # b) = split_on c a @ split_on c b"
proof (induction a)
  case (Cons x a)
  then show ?case by (cases "split_on c a") auto
qed simp

lemma split_on_prefix: "c \<notin> set p \<Longrightarrow> split_on c (p @ b) = (p @ hd (split_on c b)) # tl (split_on c b)"
  by (induction p) auto

text \<open>A separator followed by \<open>p\<close> occurs only where a piece begins with \<open>p\<close>.\<close>

lemma occurrence_piece:
  assumes "join [c] pieces = a @ c # p @ b" "pieces \<noteq> []" "c \<notin> set p"
    and "\<And>x. x \<in> set pieces \<Longrightarrow> c \<notin> set x"
  obtains ps1 x ps2 where "pieces = ps1 @ (p @ x) # ps2" "ps1 \<noteq> []" "a = join [c] ps1"
proof -
  have "pieces = split_on c (a @ c # p @ b)" using assms split_on_join[of pieces c] by simp
  also have "\<dots> = split_on c a @ (p @ hd (split_on c b)) # tl (split_on c b)"
    by (simp only: split_on_append_any split_on_prefix[OF assms(3)])
  finally show ?thesis
    using join_split_on[of c a] by (intro that[of "split_on c a"]) simp_all
qed

lemma index_opt_append: "index_opt (a @ sub @ b) sub \<noteq> None"
proof (induction a)
  case (Cons x a)
  then show ?case by simp
next
  case Nil
  have "HasPrefix (sub @ b) sub" by simp
  then show ?case by simp
qed

lemma Cut_append: "c \<notin> set a \<Longrightarrow> Cut c (a @ c # b) = Some (a, b)"
  by (induction a) auto

lemma Cut_None [simp]: "c \<notin> set s \<Longrightarrow> Cut c s = None"
  by (induction s) auto

lemma Cut_SomeD: "Cut c s = Some (a, b) \<Longrightarrow> s = a @ c # b \<and> c \<notin> set a"
  by (induction s arbitrary: a) (auto split: if_splits)

lemma splitn_on_append:
  "c \<notin> set a \<Longrightarrow> splitn_on (Suc (Suc n)) c (a @ c # b) = a # splitn_on (Suc n) c b"
  by (simp add: Cut_append)

lemma splitn_on_no_sep: "c \<notin> set s \<Longrightarrow> splitn_on (Suc n) c s = [s]"
  by (cases n) (auto split: option.splits)

lemma splitn_on_neq_Nil: "0 < n \<Longrightarrow> splitn_on n c s \<noteq> []"
  by (cases "(n, c, s)" rule: splitn_on.cases) (auto split: option.splits)

text \<open>
  Splitting cuts nothing out: the pieces put together again are the string, and there
  are at most \<open>n\<close> of them.
\<close>

lemma join_splitn_on: "0 < n \<Longrightarrow> join [c] (splitn_on n c s) = s"
proof (induction n c s rule: splitn_on.induct)
  case (3 n c s)
  show ?case
  proof (cases "Cut c s")
    case None
    then show ?thesis by simp
  next
    case (Some ab)
    then obtain a b where ab: "Cut c s = Some (a, b)" by (cases ab) auto
    moreover have "s = a @ c # b" using ab by (simp add: Cut_SomeD)
    ultimately show ?thesis
      using "3.IH" by (simp add: join_Cons_ne splitn_on_neq_Nil)
  qed
qed simp_all

lemma length_splitn_on: "length (splitn_on n c s) \<le> n"
  by (induction n c s rule: splitn_on.induct) (auto split: option.splits)

text \<open>Fields that each end with a separator.\<close>

definition terminated :: "'a \<Rightarrow> 'a list list \<Rightarrow> 'a list" where
  "terminated sep fs = concat (map (\<lambda>f. f @ [sep]) fs)"

lemma terminated_simps [simp]:
  "terminated sep [] = []"
  "terminated sep (f # fs) = f @ sep # terminated sep fs"
  by (simp_all add: terminated_def)

lemma splitn_on_terminated:
  "list_all (\<lambda>f. sep \<notin> set f) fs \<Longrightarrow>
   splitn_on (length fs + Suc k) sep (terminated sep fs @ rest) = fs @ splitn_on (Suc k) sep rest"
proof (induction fs)
  case (Cons f fs)
  then show ?case using splitn_on_append[of sep f "length fs + k"] by simp
qed simp

lemma split_on_terminated:
  "list_all (\<lambda>f. sep \<notin> set f) fs \<Longrightarrow> split_on sep (terminated sep fs @ rest) = fs @ split_on sep rest"
  by (induction fs) (simp_all add: split_on_append)

declare splitn_on.simps(3) [simp del]

text \<open>Reading a missing key of a Go map of strings gives the empty string.\<close>

definition map_string :: "(string \<rightharpoonup> string) \<Rightarrow> string \<Rightarrow> string" where
  "map_string m k = (case m k of None \<Rightarrow> [] | Some v \<Rightarrow> v)"

text \<open>Comparison of strings: byte by byte, a prefix first.\<close>

fun bytes_less :: "string \<Rightarrow> string \<Rightarrow> bool" where
  "bytes_less s [] = False"
| "bytes_less [] (y # ys) = True"
| "bytes_less (x # xs) (y # ys) =
     ((of_char x :: nat) < of_char y \<or> (x = y \<and> bytes_less xs ys))"

lemma bytes_less_linear: "bytes_less a b \<or> a = b \<or> bytes_less b a"
proof (induction a b rule: bytes_less.induct)
  case (1 s)
  then show ?case by (cases s) auto
next
  case (3 x xs y ys)
  then show ?case by (auto simp: neq_iff)
qed simp

lemma bytes_less_irrefl [simp]: "\<not> bytes_less a a"
  by (induction a) auto

lemma bytes_less_asym: "bytes_less a b \<Longrightarrow> \<not> bytes_less b a"
  by (induction a b rule: bytes_less.induct) auto

lemma bytes_less_trans: "bytes_less a b \<Longrightarrow> bytes_less b c \<Longrightarrow> bytes_less a c"
proof (induction a c arbitrary: b rule: bytes_less.induct)
  case (3 x xs y ys)
  then show ?case by (cases b) auto
qed auto

lemma bytes_not_less_trans: "\<not> bytes_less b a \<Longrightarrow> \<not> bytes_less c b \<Longrightarrow> \<not> bytes_less c a"
  by (metis bytes_less_linear bytes_less_trans bytes_less_asym)

end
