(* ===== verification/GoNumbers.thy ===== *)
theory GoNumbers
  imports GoStrings
begin

text \<open>
  Go's \<^verbatim>\<open>strconv\<close>: parsing of decimal and octal numbers with the range checks of the
  requested width, and the decimal printing of \<^verbatim>\<open>%d\<close> and \<^verbatim>\<open>FormatUint\<close>. A failing
  parse returns a value as well as an error, and part of the program uses that value.
\<close>

datatype num_error = ErrSyntax | ErrRange

definition is_digit :: "char \<Rightarrow> bool" where
  "is_digit c \<longleftrightarrow> 48 \<le> (of_char c :: nat) \<and> (of_char c :: nat) \<le> 57"

definition digit_value :: "char \<Rightarrow> nat" where
  "digit_value c = of_char c - 48"

definition digit_char :: "nat \<Rightarrow> char" where
  "digit_char d = char_of (48 + d)"

text \<open>The digits of a base up to ten; a letter is never one of them.\<close>

fun parse_uint_loop :: "nat \<Rightarrow> nat \<Rightarrow> nat \<Rightarrow> string \<Rightarrow> nat \<times> num_error option" where
  "parse_uint_loop base mx acc [] = (acc, None)"
| "parse_uint_loop base mx acc (c # cs) =
     (if \<not> is_digit c \<or> base \<le> digit_value c then (0, Some ErrSyntax)
      else let n = acc * base + digit_value c in
        if mx < n then (mx, Some ErrRange) else parse_uint_loop base mx n cs)"

definition ParseUint :: "nat \<Rightarrow> nat \<Rightarrow> string \<Rightarrow> nat \<times> num_error option" where
  "ParseUint base bits s =
     (if s = [] then (0, Some ErrSyntax) else parse_uint_loop base (2 ^ bits - 1) 0 s)"

definition ParseInt :: "nat \<Rightarrow> nat \<Rightarrow> string \<Rightarrow> int \<times> num_error option" where
  "ParseInt base bits s0 =
     (if s0 = [] then (0, Some ErrSyntax) else
      let neg = (hd s0 = CHR ''-'');
          s = (if hd s0 = CHR ''+'' \<or> hd s0 = CHR ''-'' then tl s0 else s0);
          (un, err) = ParseUint base bits s;
          cutoff = (2::nat) ^ (bits - 1)
      in if err = Some ErrSyntax then (0, Some ErrSyntax)
         else if \<not> neg \<and> cutoff \<le> un then (int cutoff - 1, Some ErrRange)
         else if neg \<and> cutoff < un then (- int cutoff, Some ErrRange)
         else ((if neg then - int un else int un), None))"

definition Atoi :: "string \<Rightarrow> int \<times> num_error option" where
  "Atoi s = ParseInt 10 64 s"

fun string_of_nat :: "nat \<Rightarrow> string" where
  "string_of_nat n =
     (if n < 10 then [digit_char n] else string_of_nat (n div 10) @ [digit_char (n mod 10)])"

declare string_of_nat.simps [simp del]

definition string_of_int :: "int \<Rightarrow> string" where
  "string_of_int i = (if i < 0 then CHR ''-'' # string_of_nat (nat (- i)) else string_of_nat (nat i))"

section \<open>Digits\<close>

lemma of_char_digit_char: "d < 10 \<Longrightarrow> (of_char (digit_char d) :: nat) = 48 + d"
  by (simp add: digit_char_def of_char_of)

lemma is_digit_digit_char [simp]: "d < 10 \<Longrightarrow> is_digit (digit_char d)"
  by (simp add: is_digit_def of_char_digit_char)

lemma digit_value_digit_char [simp]: "d < 10 \<Longrightarrow> digit_value (digit_char d) = d"
  by (simp add: digit_value_def of_char_digit_char)

lemma digit_char_numerals [simp]:
  "digit_char 0 = CHR ''0''" "digit_char (Suc 0) = CHR ''1''" "digit_char 1 = CHR ''1''"
  "digit_char 2 = CHR ''2''" "digit_char 3 = CHR ''3''" "digit_char 4 = CHR ''4''"
  "digit_char 5 = CHR ''5''" "digit_char 6 = CHR ''6''" "digit_char 7 = CHR ''7''"
  "digit_char 8 = CHR ''8''" "digit_char 9 = CHR ''9''"
  by code_simp+

lemma digit_value_lt: "is_digit c \<Longrightarrow> digit_value c < 10"
  by (auto simp: is_digit_def digit_value_def)

lemma not_digit_chars [simp]:
  "\<not> is_digit CHR ''-''" "\<not> is_digit CHR ''+''" "\<not> is_digit CHR '' ''" "\<not> is_digit CHR '',''"
  "\<not> is_digit CHR '':''" "\<not> is_digit NUL" "\<not> is_digit NL" "\<not> is_digit TAB" "\<not> is_digit CHR ''@''"
  by (simp_all add: is_digit_def)

lemma string_of_nat_digits: "c \<in> set (string_of_nat n) \<Longrightarrow> is_digit c"
proof (induction n rule: string_of_nat.induct)
  case (1 n)
  then show ?case
    by (cases "n < 10") (auto simp: string_of_nat.simps[of n])
qed

lemma string_of_nat_neq_Nil [simp]: "string_of_nat n \<noteq> []"
  by (subst string_of_nat.simps) simp

lemma string_of_nat_avoids: "\<not> is_digit c \<Longrightarrow> c \<notin> set (string_of_nat n)"
  using string_of_nat_digits by blast

lemma hd_string_of_nat:
  "hd (string_of_nat n) \<noteq> CHR ''-''" "hd (string_of_nat n) \<noteq> CHR ''+''"
  by (metis hd_in_set not_digit_chars(1) string_of_nat_digits string_of_nat_neq_Nil,
      metis hd_in_set not_digit_chars(2) string_of_nat_digits string_of_nat_neq_Nil)

section \<open>Round trip of printing and parsing\<close>

lemma parse_uint_loop_snoc:
  assumes "parse_uint_loop base mx acc s = (n, None)"
    and "is_digit c" "digit_value c < base" "n * base + digit_value c \<le> mx"
  shows "parse_uint_loop base mx acc (s @ [c]) = (n * base + digit_value c, None)"
  using assms
proof (induction s arbitrary: acc)
  case Nil
  then show ?case by simp
next
  case (Cons x s)
  then show ?case by (auto simp: Let_def split: if_splits)
qed

lemma parse_uint_loop_string_of_nat:
  "n \<le> mx \<Longrightarrow> parse_uint_loop 10 mx 0 (string_of_nat n) = (n, None)"
proof (induction n rule: string_of_nat.induct)
  case (1 n)
  show ?case
  proof (cases "n < 10")
    case True
    with "1.prems" show ?thesis by (simp add: string_of_nat.simps[of n])
  next
    case False
    with "1" have "parse_uint_loop 10 mx 0 (string_of_nat (n div 10)) = (n div 10, None)"
      by simp
    then have "parse_uint_loop 10 mx 0 (string_of_nat (n div 10) @ [digit_char (n mod 10)])
        = (n div 10 * 10 + n mod 10, None)"
      using "1.prems" parse_uint_loop_snoc[of 10 mx 0 "string_of_nat (n div 10)" "n div 10"
          "digit_char (n mod 10)"]
      by (simp add: div_mult_mod_eq del: mult_div_mod_eq)
    with False show ?thesis by (simp add: string_of_nat.simps[of n])
  qed
qed

lemma ParseUint_string_of_nat: "n < 2 ^ b \<Longrightarrow> ParseUint 10 b (string_of_nat n) = (n, None)"
  by (simp add: ParseUint_def parse_uint_loop_string_of_nat)

lemma ParseInt_string_of_nat:
  assumes "0 < b" "n < 2 ^ (b - 1)"
  shows "ParseInt 10 b (string_of_nat n) = (int n, None)"
proof -
  have "n < 2 ^ b" using assms by (meson diff_le_self less_le_trans one_le_numeral power_increasing)
  then show ?thesis
    using assms hd_string_of_nat[of n]
    by (simp add: ParseInt_def ParseUint_string_of_nat Let_def)
qed

lemma Atoi_string_of_nat: "n < 2 ^ 63 \<Longrightarrow> Atoi (string_of_nat n) = (int n, None)"
  by (simp add: Atoi_def ParseInt_string_of_nat)

lemma ParseInt_string_of_int:
  assumes "- (2 ^ 63) \<le> i" "i < 2 ^ 63"
  shows "ParseInt 10 64 (string_of_int i) = (i, None)"
proof (cases "i < 0")
  case False
  with assms have "nat i < 2 ^ 63" by (simp add: nat_less_iff)
  with False show ?thesis
    by (simp add: string_of_int_def ParseInt_string_of_nat)
next
  case True
  with assms have "nat (- i) \<le> 2 ^ 63" by (simp add: nat_le_iff)
  then have "nat (- i) < 2 ^ 64" by simp
  with True \<open>nat (- i) \<le> 2 ^ 63\<close> show ?thesis
    by (simp add: string_of_int_def ParseInt_def ParseUint_string_of_nat Let_def)
qed

section \<open>Range of a parsed number\<close>

lemma ParseInt_range:
  assumes "ParseInt base bits s = (i, e)" "0 < bits"
  shows "- (2 ^ (bits - 1)) \<le> i \<and> i < 2 ^ (bits - 1)"
proof -
  have below: "- int x < 2 ^ k" and above: "- (2 ^ k) \<le> int x" for x k
    by (rule le_less_trans[of _ 0] order_trans[of _ 0]; simp)+
  show ?thesis
    using assms(1)
    by (auto simp: ParseInt_def Let_def not_le not_less below above
          split: if_splits prod.splits)
qed

lemma Atoi_range: "Atoi s = (i, e) \<Longrightarrow> - (2 ^ 63) \<le> i \<and> i < 2 ^ 63"
  using ParseInt_range[of 10 64 s i e] by (simp add: Atoi_def)

text \<open>Conversion of a \<^verbatim>\<open>uint\<close> to \<^verbatim>\<open>int\<close> keeps every value that does not come out negative.\<close>

lemma sint_nonneg:
  fixes w :: "64 word"
  assumes "0 \<le> sint w"
  shows "sint w = int (unat w)"
proof -
  have "sint w < 2 ^ 63" using sint_lt[of w] by simp
  then have "take_bit 64 (sint w) = sint w" using assms by (simp add: take_bit_int_eq_self)
  then have "uint w = sint w" using uint_sint[of w] by simp
  then show ?thesis by simp
qed

text \<open>Conversion of an \<^verbatim>\<open>int\<close> to \<^verbatim>\<open>int32\<close>: the low 32 bits read as two's complement.\<close>

definition int32 :: "int \<Rightarrow> int" where
  "int32 i = sint (word_of_int i :: 32 word)"

lemma int32_id: "- (2 ^ 31) \<le> i \<Longrightarrow> i < 2 ^ 31 \<Longrightarrow> int32 i = i"
  by (simp add: int32_def sint_word_ariths signed_take_bit_int_eq_self sint_sbintrunc')

lemma int32_range: "- (2 ^ 31) \<le> int32 i \<and> int32 i < 2 ^ 31"
  using sint_range_size[of "word_of_int i :: 32 word"] by (simp add: int32_def size_word_def)

end
