(* ===== verification/GoText.thy ===== *)
theory GoText
  imports GoStrings
begin

text \<open>
  Go's \<^verbatim>\<open>unicode/utf8\<close> decoding and encoding of runes, \<^verbatim>\<open>strings.TrimSpace\<close> and
  \<^verbatim>\<open>regexp.QuoteMeta\<close>.
\<close>

section \<open>Runes\<close>

abbreviation byte :: "char \<Rightarrow> nat" where "byte c \<equiv> of_char c"

abbreviation RuneError :: nat where "RuneError \<equiv> 0xFFFD"

definition in_range :: "nat \<Rightarrow> nat \<Rightarrow> char \<Rightarrow> bool" where
  "in_range lo hi c \<longleftrightarrow> lo \<le> byte c \<and> byte c \<le> hi"

text \<open>
  \<^verbatim>\<open>utf8.DecodeRuneInString\<close>: the rune at the start of the string and its width. An
  invalid sequence is \<open>RuneError\<close> with width one, the empty string has width zero.
\<close>

definition decode2 :: "nat \<Rightarrow> string \<Rightarrow> nat \<times> nat" where
  "decode2 b0 s = (case s of
       c1 # _ \<Rightarrow> if in_range 0x80 0xBF c1
                then ((b0 - 0xC0) * 64 + (byte c1 - 0x80), 2) else (RuneError, 1)
     | [] \<Rightarrow> (RuneError, 1))"

definition decode3 :: "nat \<Rightarrow> string \<Rightarrow> nat \<times> nat" where
  "decode3 b0 s = (case s of
       c1 # c2 # _ \<Rightarrow>
         if in_range (if b0 = 0xE0 then 0xA0 else 0x80) (if b0 = 0xED then 0x9F else 0xBF) c1
            \<and> in_range 0x80 0xBF c2
         then ((b0 - 0xE0) * 4096 + (byte c1 - 0x80) * 64 + (byte c2 - 0x80), 3)
         else (RuneError, 1)
     | _ \<Rightarrow> (RuneError, 1))"

definition decode4 :: "nat \<Rightarrow> string \<Rightarrow> nat \<times> nat" where
  "decode4 b0 s = (case s of
       c1 # c2 # c3 # _ \<Rightarrow>
         if in_range (if b0 = 0xF0 then 0x90 else 0x80) (if b0 = 0xF4 then 0x8F else 0xBF) c1
            \<and> in_range 0x80 0xBF c2 \<and> in_range 0x80 0xBF c3
         then ((b0 - 0xF0) * 262144 + (byte c1 - 0x80) * 4096
               + (byte c2 - 0x80) * 64 + (byte c3 - 0x80), 4)
         else (RuneError, 1)
     | _ \<Rightarrow> (RuneError, 1))"

definition decode_rune :: "string \<Rightarrow> nat \<times> nat" where
  "decode_rune s = (case s of
       [] \<Rightarrow> (RuneError, 0)
     | c0 # s' \<Rightarrow> let b0 = byte c0 in
         if b0 < 0x80 then (b0, 1)
         else if 0xC2 \<le> b0 \<and> b0 \<le> 0xDF then decode2 b0 s'
         else if 0xE0 \<le> b0 \<and> b0 \<le> 0xEF then decode3 b0 s'
         else if 0xF0 \<le> b0 \<and> b0 \<le> 0xF4 then decode4 b0 s'
         else (RuneError, 1))"

text \<open>\<^verbatim>\<open>Buffer.WriteRune\<close>: the UTF-8 bytes of a rune; a surrogate is written as \<open>RuneError\<close>.\<close>

definition encode_rune :: "nat \<Rightarrow> string" where
  "encode_rune r0 =
     (let r = (if (0xD800 \<le> r0 \<and> r0 \<le> 0xDFFF) \<or> 0x10FFFF < r0 then RuneError else r0) in
      if r < 0x80 then [char_of r]
      else if r < 0x800 then [char_of (0xC0 + r div 64), char_of (0x80 + r mod 64)]
      else if r < 0x10000 then
        [char_of (0xE0 + r div 4096), char_of (0x80 + r div 64 mod 64), char_of (0x80 + r mod 64)]
      else
        [char_of (0xF0 + r div 262144), char_of (0x80 + r div 4096 mod 64),
         char_of (0x80 + r div 64 mod 64), char_of (0x80 + r mod 64)])"

lemma byte_lt_256 [simp]: "byte c < 256"
  using range_nat_of_char by (auto simp: set_eq_iff)

lemma char_of_byte [simp]: "char_of (byte c) = c"
  by (simp add: char_of_char)

lemma decode_rune_ascii [simp]: "byte c < 0x80 \<Longrightarrow> decode_rune (c # s) = (byte c, 1)"
  by (simp add: decode_rune_def)

lemma decode_rune_width:
  assumes "s \<noteq> []"
  shows "1 \<le> snd (decode_rune s) \<and> snd (decode_rune s) \<le> length s"
  using assms
  by (auto simp: decode_rune_def decode2_def decode3_def decode4_def Let_def split: list.splits)

lemma encode_rune_ascii [simp]: "r < 0x80 \<Longrightarrow> encode_rune r = [char_of r]"
  by (simp add: encode_rune_def)

text \<open>Decoding a valid sequence and encoding it again gives the same bytes.\<close>

lemma encode_decode2:
  assumes "0xC2 \<le> byte c0" "byte c0 \<le> 0xDF" "in_range 0x80 0xBF c1"
  shows "encode_rune ((byte c0 - 0xC0) * 64 + (byte c1 - 0x80)) = [c0, c1]"
proof -
  obtain x y where xy: "byte c0 = 0xC0 + x" "byte c1 = 0x80 + y" "2 \<le> x" "x < 32" "y < 64"
    using assms by (auto simp: in_range_def le_iff_add)
  have "(x * 64 + y) div 64 = x" "(x * 64 + y) mod 64 = y" using xy by simp_all
  moreover have "128 \<le> x * 64 + y" "x * 64 + y < 2048" using xy by auto
  moreover have "c0 = char_of (0xC0 + x)" "c1 = char_of (0x80 + y)"
    using xy by (metis char_of_byte)+
  ultimately show ?thesis using xy by (simp add: encode_rune_def)
qed

lemma rune_digits3:
  fixes x y z :: nat
  assumes "y < 64" "z < 64"
  shows "(x * 4096 + y * 64 + z) div 4096 = x"
    "(x * 4096 + y * 64 + z) div 64 mod 64 = y"
    "(x * 4096 + y * 64 + z) mod 64 = z"
proof -
  have a: "x * 4096 + y * 64 + z = (x * 64 + y) * 64 + z" by simp
  show "(x * 4096 + y * 64 + z) mod 64 = z" unfolding a mod_mult_self3 using assms by simp
  have b: "(x * 4096 + y * 64 + z) div 64 = x * 64 + y" unfolding a using assms by simp
  then show "(x * 4096 + y * 64 + z) div 64 mod 64 = y" using assms by simp
  have "(x * 4096 + y * 64 + z) div 4096 = (x * 4096 + y * 64 + z) div 64 div 64"
    by (simp add: div_mult2_eq[symmetric])
  then show "(x * 4096 + y * 64 + z) div 4096 = x" using b assms by simp
qed

lemma encode_decode3:
  assumes "0xE0 \<le> byte c0" "byte c0 \<le> 0xEF"
    and "in_range (if byte c0 = 0xE0 then 0xA0 else 0x80) (if byte c0 = 0xED then 0x9F else 0xBF) c1"
    and "in_range 0x80 0xBF c2"
  shows "encode_rune ((byte c0 - 0xE0) * 4096 + (byte c1 - 0x80) * 64 + (byte c2 - 0x80))
    = [c0, c1, c2]"
proof -
  obtain x y z where xyz: "byte c0 = 0xE0 + x" "byte c1 = 0x80 + y" "byte c2 = 0x80 + z"
      "x < 16" "y < 64" "z < 64" "x = 0 \<longrightarrow> 32 \<le> y" "x = 13 \<longrightarrow> y < 32"
    using assms by (auto simp: in_range_def le_iff_add split: if_splits)
  let ?r = "x * 4096 + y * 64 + z"
  have "2048 \<le> ?r" using xyz by (cases "x = 0") auto
  moreover have "?r < 65536" using xyz by auto
  moreover have "\<not> (55296 \<le> ?r \<and> ?r \<le> 57343)"
  proof (cases "x = 13")
    case True
    then show ?thesis using xyz by auto
  next
    case False
    then consider "x \<le> 12" | "14 \<le> x" by linarith
    then show ?thesis using xyz by cases auto
  qed
  moreover have "c0 = char_of (0xE0 + x)" "c1 = char_of (0x80 + y)" "c2 = char_of (0x80 + z)"
    using xyz by (metis char_of_byte)+
  ultimately show ?thesis
    using xyz rune_digits3[of y z x] by (auto simp: encode_rune_def Let_def)
qed

lemma encode_decode4:
  assumes "0xF0 \<le> byte c0" "byte c0 \<le> 0xF4"
    and "in_range (if byte c0 = 0xF0 then 0x90 else 0x80) (if byte c0 = 0xF4 then 0x8F else 0xBF) c1"
    and "in_range 0x80 0xBF c2" "in_range 0x80 0xBF c3"
  shows "encode_rune ((byte c0 - 0xF0) * 262144 + (byte c1 - 0x80) * 4096
      + (byte c2 - 0x80) * 64 + (byte c3 - 0x80)) = [c0, c1, c2, c3]"
proof -
  define x y z w where "x = byte c0 - 0xF0" and "y = byte c1 - 0x80"
    and "z = byte c2 - 0x80" and "w = byte c3 - 0x80"
  have xyz: "byte c0 = 0xF0 + x" "byte c1 = 0x80 + y" "byte c2 = 0x80 + z"
      "byte c3 = 0x80 + w" "x \<le> 4" "y < 64" "z < 64" "w < 64" "x = 0 \<longrightarrow> 16 \<le> y" "x = 4 \<longrightarrow> y < 16"
    using assms unfolding x_def y_def z_def w_def by (auto simp: in_range_def split: if_splits)
  let ?r = "x * 262144 + y * 4096 + z * 64 + w"
  have "65536 \<le> ?r" using xyz by (cases "x = 0") auto
  moreover have "?r \<le> 1114111" using xyz by (cases "x = 4") auto
  moreover have eq: "?r = (x * 64 + y) * 4096 + z * 64 + w" by simp
  moreover have "?r div 4096 = x * 64 + y" unfolding eq by (rule rune_digits3(1)) (use xyz in simp_all)
  moreover have "?r div 64 mod 64 = z" "?r mod 64 = w"
    unfolding eq using rune_digits3(2,3)[of z w "x * 64 + y"] xyz by simp_all
  moreover have "?r div 262144 = ?r div 4096 div 64" by (simp add: div_mult2_eq[symmetric])
  moreover have "c0 = char_of (0xF0 + x)" "c1 = char_of (0x80 + y)" "c2 = char_of (0x80 + z)"
      "c3 = char_of (0x80 + w)"
    using xyz by (metis char_of_byte)+
  ultimately show ?thesis
    using xyz by (auto simp: encode_rune_def Let_def)
qed

text \<open>Whether the string starts with a valid sequence.\<close>

definition valid_head :: "string \<Rightarrow> bool" where
  "valid_head s \<longleftrightarrow> s \<noteq> [] \<and> encode_rune (fst (decode_rune s)) = take (snd (decode_rune s)) s"

lemma valid_head_decode2:
  assumes "0xC2 \<le> byte c0" "byte c0 \<le> 0xDF"
  shows "valid_head (c0 # s) \<or> decode_rune (c0 # s) = (RuneError, 1)"
proof (cases s)
  case (Cons c1 t)
  with assms show ?thesis
    by (cases "in_range 0x80 0xBF c1")
      (simp_all add: valid_head_def decode_rune_def decode2_def encode_decode2)
qed (use assms in \<open>simp add: decode_rune_def decode2_def\<close>)

lemma valid_head_decode3:
  assumes "0xE0 \<le> byte c0" "byte c0 \<le> 0xEF"
  shows "valid_head (c0 # s) \<or> decode_rune (c0 # s) = (RuneError, 1)"
proof (cases s rule: remdups_adj.cases)
  case (3 c1 c2 t)
  let ?ok = "in_range (if byte c0 = 0xE0 then 0xA0 else 0x80)
      (if byte c0 = 0xED then 0x9F else 0xBF) c1 \<and> in_range 0x80 0xBF c2"
  have d: "decode_rune (c0 # s) = (if ?ok
      then ((byte c0 - 0xE0) * 4096 + (byte c1 - 0x80) * 64 + (byte c2 - 0x80), 3)
      else (RuneError, 1))"
    using assms 3 by (simp add: decode_rune_def decode3_def)
  show ?thesis
  proof (cases ?ok)
    case True
    then show ?thesis
      using 3 d encode_decode3[OF assms] by (simp only: valid_head_def) simp
  qed (simp only: d if_False, simp)
qed (use assms in \<open>simp_all add: decode_rune_def decode3_def\<close>)

lemma valid_head_decode4:
  assumes "0xF0 \<le> byte c0" "byte c0 \<le> 0xF4"
  shows "valid_head (c0 # s) \<or> decode_rune (c0 # s) = (RuneError, 1)"
proof -
  consider (ok) c1 c2 c3 t where "s = c1 # c2 # c3 # t" | (short) "length s < 3"
    by (cases s; cases "tl s"; cases "tl (tl s)") auto
  then show ?thesis
  proof cases
    case ok
    let ?ok = "in_range (if byte c0 = 0xF0 then 0x90 else 0x80)
        (if byte c0 = 0xF4 then 0x8F else 0xBF) c1 \<and> in_range 0x80 0xBF c2 \<and> in_range 0x80 0xBF c3"
    have d: "decode_rune (c0 # s) = (if ?ok
        then ((byte c0 - 0xF0) * 262144 + (byte c1 - 0x80) * 4096
              + (byte c2 - 0x80) * 64 + (byte c3 - 0x80), 4)
        else (RuneError, 1))"
      using assms ok by (simp add: decode_rune_def decode4_def)
    show ?thesis
    proof (cases ?ok)
      case True
      then show ?thesis
        using ok d encode_decode4[OF assms] by (simp only: valid_head_def) simp
    qed (simp only: d if_False, simp)
  next
    case short
    then have "decode4 (byte c0) s = (RuneError, 1)"
      by (cases s; cases "tl s"; cases "tl (tl s)") (auto simp: decode4_def)
    with assms show ?thesis by (simp add: decode_rune_def)
  qed
qed

lemma decode_rune_cases:
  assumes "s \<noteq> []"
  shows "valid_head s \<or> decode_rune s = (RuneError, 1)"
proof -
  obtain c0 s' where s: "s = c0 # s'" using assms by (cases s) auto
  consider "byte c0 < 0x80" | "0xC2 \<le> byte c0" "byte c0 \<le> 0xDF"
    | "0xE0 \<le> byte c0" "byte c0 \<le> 0xEF" | "0xF0 \<le> byte c0" "byte c0 \<le> 0xF4"
    | "byte c0 = 0xC0 \<or> byte c0 = 0xC1 \<or> 0x80 \<le> byte c0 \<and> byte c0 < 0xC0 \<or> 0xF4 < byte c0"
    by linarith
  then show ?thesis
  proof cases
    case 1
    then show ?thesis by (simp add: s valid_head_def)
  next
    case 5
    then show ?thesis by (auto simp: s decode_rune_def)
  qed (use s valid_head_decode2 valid_head_decode3 valid_head_decode4 in blast)+
qed

section \<open>TrimSpace\<close>

definition is_space :: "nat \<Rightarrow> bool" where
  "is_space r \<longleftrightarrow> r \<in> {0x09, 0x0A, 0x0B, 0x0C, 0x0D, 0x20, 0x85, 0xA0, 0x1680, 0x2028, 0x2029,
      0x202F, 0x205F, 0x3000} \<or> (0x2000 \<le> r \<and> r \<le> 0x200A)"

function trim_left_space :: "string \<Rightarrow> string" where
  "trim_left_space s =
     (if s = [] then [] else
      let (r, w) = decode_rune s in if is_space r then trim_left_space (drop w s) else s)"
  by pat_completeness auto
termination
proof (relation "measure length")
  show "(drop w s, s) \<in> measure length"
    if "s \<noteq> []" "x = decode_rune s" "(r, w) = x" "is_space r" for s x r w
    using that decode_rune_width[of s] by (cases "decode_rune s") auto
qed simp

declare trim_left_space.simps [simp del]

text \<open>
  \<^verbatim>\<open>utf8.DecodeLastRuneInString\<close>: it looks back over at most four bytes for the start of
  the last sequence, which must end at the end of the string.
\<close>

definition rune_start :: "char \<Rightarrow> bool" where
  "rune_start c \<longleftrightarrow> \<not> (0x80 \<le> byte c \<and> byte c < 0xC0)"

definition decode_last_rune :: "string \<Rightarrow> nat \<times> nat" where
  "decode_last_rune s =
     (let n = length s in
      if byte (last s) < 0x80 then (byte (last s), 1)
      else case find (\<lambda>k. k \<le> n \<and> rune_start (s ! (n - k))) [2, 3, 4] of
             None \<Rightarrow> (RuneError, 1)
           | Some k \<Rightarrow> (let (r, w) = decode_rune (drop (n - k) s)
                       in if w = k then (r, w) else (RuneError, 1)))"

lemma decode_last_rune_width: "1 \<le> snd (decode_last_rune s)"
proof -
  have "1 \<le> k" if "find P [2, 3, 4 :: nat] = Some k" for P k
    using that by (auto split: if_splits)
  then show ?thesis by (auto simp: decode_last_rune_def Let_def split: option.splits prod.splits)
qed

function trim_right_space :: "string \<Rightarrow> string" where
  "trim_right_space s =
     (if s = [] then [] else
      let (r, w) = decode_last_rune s in
        if is_space r then trim_right_space (take (length s - w) s) else s)"
  by pat_completeness auto
termination
proof (relation "measure length")
  show "(take (length s - w) s, s) \<in> measure length"
    if "s \<noteq> []" "x = decode_last_rune s" "(r, w) = x" "is_space r" for s x r w
    using that decode_last_rune_width[of s] by (cases "decode_last_rune s") auto
qed simp

declare trim_right_space.simps [simp del]

definition TrimSpace :: "string \<Rightarrow> string" where
  "TrimSpace s = trim_right_space (trim_left_space s)"

text \<open>A printable ASCII byte other than the space.\<close>

definition graphic :: "char \<Rightarrow> bool" where
  "graphic c \<longleftrightarrow> 0x20 < byte c \<and> byte c < 0x7F"

lemma graphic_not_space: "graphic c \<Longrightarrow> byte c < 0x80 \<and> \<not> is_space (byte c)"
  by (auto simp: graphic_def is_space_def)

lemma trim_left_space_graphic: "graphic c \<Longrightarrow> trim_left_space (c # s) = c # s"
  by (subst trim_left_space.simps) (simp add: graphic_not_space)

lemma trim_right_space_graphic: "graphic c \<Longrightarrow> trim_right_space (s @ [c]) = s @ [c]"
  by (subst trim_right_space.simps) (simp add: decode_last_rune_def graphic_not_space)

lemma TrimSpace_Nil [simp]: "TrimSpace [] = []"
  by (simp add: TrimSpace_def trim_left_space.simps trim_right_space.simps)

lemma TrimSpace_graphic:
  assumes "s \<noteq> []" "graphic (hd s)" "graphic (last s)"
  shows "TrimSpace s = s"
proof -
  have "trim_left_space s = s"
    using assms(1,2) by (metis list.collapse trim_left_space_graphic)
  moreover have "trim_right_space s = s"
    using assms(1,3) by (metis append_butlast_last_id trim_right_space_graphic)
  ultimately show ?thesis by (simp add: TrimSpace_def)
qed

lemma TrimSpace_all_graphic: "(\<And>c. c \<in> set s \<Longrightarrow> graphic c) \<Longrightarrow> TrimSpace s = s"
  by (cases "s = []") (simp_all add: TrimSpace_graphic)

lemma trim_right_space_blank: "trim_right_space (s @ [CHR '' '']) = trim_right_space s"
  by (subst trim_right_space.simps) (simp add: decode_last_rune_def is_space_def)

lemma trim_left_space_blank: "trim_left_space (CHR '' '' # s) = trim_left_space s"
  by (subst trim_left_space.simps) (simp add: is_space_def)

lemma TrimSpace_append_blank:
  "s \<noteq> [] \<Longrightarrow> graphic (hd s) \<Longrightarrow> TrimSpace (s @ [CHR '' '']) = TrimSpace s"
  using trim_left_space_graphic[of "hd s" "tl s"] trim_left_space_graphic[of "hd s" "tl s @ '' ''"]
    trim_right_space_blank[of s]
  by (cases s) (simp_all add: TrimSpace_def)

lemma TrimSpace_newline:
  assumes "s \<noteq> []" "graphic (hd s)" "graphic (last s)"
  shows "TrimSpace (s @ [NL]) = s"
proof -
  have "trim_right_space (s @ [NL]) = trim_right_space s"
    by (subst trim_right_space.simps) (simp add: decode_last_rune_def is_space_def)
  moreover have "trim_left_space (s @ [NL]) = s @ [NL]"
    using assms(1,2) trim_left_space_graphic[of "hd s" "tl s @ [NL]"] by (cases s) simp_all
  moreover have "trim_right_space s = s"
    using assms(1,3) by (metis append_butlast_last_id trim_right_space_graphic)
  ultimately show ?thesis by (simp add: TrimSpace_def)
qed

section \<open>QuoteMeta\<close>

definition regex_meta :: "char list" where
  "regex_meta = BACKSLASH # ''.+*?()|[]{}^$''"

definition QuoteMeta :: "string \<Rightarrow> string" where
  "QuoteMeta s = concat (map (\<lambda>c. if c \<in> set regex_meta then [BACKSLASH, c] else [c]) s)"

text \<open>
  The string a regular expression stands for when it has no active metacharacter: an
  escaped metacharacter is itself, an unescaped one has a meaning of its own and makes
  the expression no literal.
\<close>

fun regex_literal :: "string \<Rightarrow> string option" where
  "regex_literal [] = Some []"
| "regex_literal (c # s) =
     (if c = BACKSLASH then
        (case s of
           [] \<Rightarrow> None
         | d # t \<Rightarrow> if d \<in> set regex_meta then map_option ((#) d) (regex_literal t) else None)
      else if c \<in> set regex_meta then None
      else map_option ((#) c) (regex_literal s))"

lemma QuoteMeta_Nil [simp]: "QuoteMeta [] = []"
  by (simp add: QuoteMeta_def)

lemma QuoteMeta_Cons:
  "QuoteMeta (c # s) = (if c \<in> set regex_meta then BACKSLASH # c # QuoteMeta s else c # QuoteMeta s)"
  by (simp add: QuoteMeta_def)

lemma regex_literal_QuoteMeta: "regex_literal (QuoteMeta s) = Some s"
proof (induction s)
  case (Cons c s)
  moreover have "BACKSLASH \<in> set regex_meta" by (simp add: regex_meta_def)
  ultimately show ?case by (cases "c = BACKSLASH") (simp_all add: QuoteMeta_Cons)
qed simp

lemma QuoteMeta_eq_Nil [simp]: "QuoteMeta s = [] \<longleftrightarrow> s = []"
  by (cases s) (simp_all add: QuoteMeta_Cons)

end
