(* ===== verification/QueryParser.thy ===== *)
theory QueryParser
  imports GoNumbers GoText
begin

text \<open>
  The search query language of \<^verbatim>\<open>server/query.go\<close>: the tokenizer around \<^verbatim>\<open>pieceRE\<close>, the
  loop that collects the operators, and the \<^verbatim>\<open>pb.Query\<close> built from them.
\<close>

section \<open>Data\<close>

text \<open>The message \<^verbatim>\<open>Query\<close> of \<^verbatim>\<open>src/proto/livegrep.proto\<close>.\<close>

record Query =
  q_Line :: string
  q_File :: string
  q_Repo :: string
  q_Tags :: string
  q_FoldCase :: bool
  q_NotFile :: string
  q_NotRepo :: string
  q_NotTags :: string
  q_MaxMatches :: int
  q_FilenameOnly :: bool
  q_TreenameOnly :: bool
  q_ContextLines :: int

datatype query_error =
    BothSynonyms string string
  | GotTermTwice string
  | NotContiguous
  | SeveralMainTerms
  | BadMaxMatches

definition knownTags :: "string list" where
  "knownTags = [''file'', ''-file'', ''path'', ''-path'', ''repo'', ''-repo'', ''tags'', ''-tags'',
     ''case'', ''lit'', ''max_matches'']"

section \<open>Pieces\<close>

text \<open>
  \<^verbatim>\<open>pieceRE\<close>: \<^verbatim>\<open>\[|\(|(?:^([a-zA-Z0-9-_]+):|\\.)| \<close>. The operator is tried at the start of
  the input only. A match gives what is before it, the match, the operator's name, and the
  rest.
\<close>

definition key_char :: "char \<Rightarrow> bool" where
  "key_char c \<longleftrightarrow> is_digit c \<or> c = CHR ''-'' \<or> c = CHR ''_'' \<or>
     (65 \<le> byte c \<and> byte c \<le> 90) \<or> (97 \<le> byte c \<and> byte c \<le> 122)"

definition operator_piece :: "string \<Rightarrow> (string \<times> string) option" where
  "operator_piece q =
     (case dropWhile key_char q of
        c # rest \<Rightarrow> if c = CHR '':'' \<and> takeWhile key_char q \<noteq> []
                    then Some (takeWhile key_char q, rest) else None
      | [] \<Rightarrow> None)"

fun other_piece :: "string \<Rightarrow> (string \<times> string \<times> string) option" where
  "other_piece [] = None"
| "other_piece (c # s) =
     (if c = CHR ''['' \<or> c = CHR ''('' \<or> c = CHR '' '' then Some ([], [c], s)
      else if c = BACKSLASH \<and> s \<noteq> [] \<and> hd s \<noteq> NL
      then (let w = snd (decode_rune s) in Some ([], c # take w s, drop w s))
      else map_option (\<lambda>(ahead, m, rest). (c # ahead, m, rest)) (other_piece s))"

definition pieceRE :: "string \<Rightarrow> (string \<times> string \<times> string option \<times> string) option" where
  "pieceRE q =
     (case operator_piece q of
        Some (k, rest) \<Rightarrow> Some ([], k @ '':'', Some k, rest)
      | None \<Rightarrow> map_option (\<lambda>(ahead, m, rest). (ahead, m, None, rest)) (other_piece q))"

lemma other_piece_length: "other_piece q = Some (b, m, rest) \<Longrightarrow> length rest < length q"
  by (induction q arbitrary: b) (fastforce simp: Let_def split: if_splits)+

lemma pieceRE_length: "pieceRE q = Some (b, m, k, rest) \<Longrightarrow> length rest < length q"
proof (cases "operator_piece q")
  case None
  assume "pieceRE q = Some (b, m, k, rest)"
  with None show ?thesis by (auto simp: pieceRE_def dest: other_piece_length)
next
  case (Some kr)
  assume "pieceRE q = Some (b, m, k, rest)"
  with Some have "length rest < length (dropWhile key_char q)"
    by (auto simp: pieceRE_def operator_piece_def split: list.splits if_splits)
  then show ?thesis using length_dropWhile_le[of key_char q] by linarith
qed

text \<open>
  The loop that consumes up to the end of a balanced group. Every rune is decoded and
  written back, so an invalid byte comes out as the replacement character.
\<close>

definition group_state :: "nat \<Rightarrow> nat \<Rightarrow> nat \<Rightarrow> int \<Rightarrow> bool \<Rightarrow> int \<times> bool" where
  "group_state opn cls r p esc =
     (if esc then (p, False)
      else if r = byte BACKSLASH then (p, True)
      else if r = opn then (p + 1, False)
      else if r = cls then (p - 1, False)
      else (p, False))"

function balanced_group ::
    "nat \<Rightarrow> nat \<Rightarrow> int \<Rightarrow> bool \<Rightarrow> string \<Rightarrow> string \<times> string" where
  "balanced_group opn cls p esc q =
     (if q = [] then ([], [])
      else let (r, l) = decode_rune q; (p', esc') = group_state opn cls r p esc in
        if p' = 0 then (encode_rune r, drop l q)
        else let (w, rest) = balanced_group opn cls p' esc' (drop l q)
             in (encode_rune r @ w, rest))"
  by pat_completeness auto
termination
proof (relation "measure (\<lambda>(opn, cls, p, esc, q). length q)")
  show "((opn, cls, p', esc', drop l q), opn, cls, p, esc, q)
      \<in> measure (\<lambda>(opn, cls, p, esc, q). length q)"
    if "q \<noteq> []" "x = decode_rune q" "(r, l) = x" for opn cls p esc q x r l y p' esc'
    using that decode_rune_width[of q] by (cases "decode_rune q") auto
qed simp

declare balanced_group.simps [simp del]

lemma balanced_group_length: "length (snd (balanced_group opn cls p esc q)) \<le> length q"
proof (induction opn cls p esc q rule: balanced_group.induct)
  case (1 opn cls p esc q)
  then show ?case
    by (subst balanced_group.simps)
      (fastforce split: prod.splits)
qed

section \<open>The loop\<close>

record parse_state =
  ps_ops :: "string \<rightharpoonup> string"
  ps_key :: string
  ps_term :: string
  ps_q :: string
  ps_inRegex :: bool
  ps_justGotSpace :: bool

text \<open>The branches of one round. \<^verbatim>\<open>justGotSpace\<close> is already updated for the piece found.\<close>

definition space_piece :: "bool \<Rightarrow> parse_state \<Rightarrow> (query_error, parse_state) res" where
  "space_piece globalRegex st =
     (if ps_key st = [] then Inr (st\<lparr>ps_term := ps_term st @ '' ''\<rparr>)
      else if ps_ops st (ps_key st) \<noteq> None then Inl (Error (GotTermTwice (ps_key st)))
      else Inr (st\<lparr>ps_ops := (ps_ops st)(ps_key st \<mapsto> ps_term st), ps_key := [], ps_term := [],
                   ps_inRegex := globalRegex\<rparr>))"

definition bracket_piece :: "string \<Rightarrow> parse_state \<Rightarrow> parse_state" where
  "bracket_piece m st =
     (if \<not> (ps_inRegex st \<or> ps_justGotSpace st) then st\<lparr>ps_term := ps_term st @ m\<rparr>
      else let (w, rest) =
             (if m = ''('' then balanced_group (byte CHR ''('') (byte CHR '')'') 1 False (ps_q st)
              else balanced_group (byte CHR ''['') (byte CHR '']'') 1 False (ps_q st))
           in st\<lparr>ps_term := ps_term st @ m @ w, ps_q := rest\<rparr>)"

definition operator_round :: "string \<Rightarrow> string \<Rightarrow> parse_state \<Rightarrow> (query_error, parse_state) res" where
  "operator_round newKey m st =
     (let lit_check = (\<lambda>st. if ps_key st = ''lit'' then st\<lparr>ps_inRegex := False\<rparr> else st) in
      if ps_key st = [] \<and> newKey \<in> set knownTags then
        (if TrimSpace (ps_term st) \<noteq> [] then
           (if ps_ops st (ps_key st) \<noteq> None then Inl (Error NotContiguous)
            else Inr (lit_check (st\<lparr>ps_ops := (ps_ops st)(ps_key st \<mapsto> ps_term st),
                   ps_term := [], ps_key := newKey\<rparr>)))
         else Inr (lit_check (st\<lparr>ps_term := [], ps_key := newKey\<rparr>)))
      else Inr (lit_check (st\<lparr>ps_term := ps_term st @ m\<rparr>)))"

definition piece_round ::
    "bool \<Rightarrow> parse_state \<Rightarrow> string \<Rightarrow> string \<Rightarrow> string option \<Rightarrow> string
     \<Rightarrow> (query_error, parse_state) res" where
  "piece_round globalRegex st0 ahead m newKey rest =
     (let st = st0\<lparr>ps_term := ps_term st0 @ ahead, ps_q := rest,
                   ps_justGotSpace := ps_justGotSpace st0 \<and> ahead = []\<rparr>
      in bind_res
           (case newKey of
              Some k \<Rightarrow> operator_round k m st
            | None \<Rightarrow>
                if m = '' '' then space_piece globalRegex st
                else if m = ''('' \<or> m = ''['' then Inr (bracket_piece m st)
                else Inr (st\<lparr>ps_term := ps_term st @ m\<rparr>))
           (\<lambda>st'. Inr (st'\<lparr>ps_justGotSpace := (m = '' '')\<rparr>)))"

lemma piece_round_q:
  "piece_round g st b m k rest = Inr st' \<Longrightarrow> length (ps_q st') \<le> length rest"
  by (auto simp: piece_round_def space_piece_def operator_round_def bracket_piece_def Let_def
      res_simps balanced_group_length split: option.splits if_splits prod.splits)
    (metis balanced_group_length snd_conv)+

function parse_loop :: "bool \<Rightarrow> parse_state \<Rightarrow> (query_error, string \<rightharpoonup> string) res" where
  "parse_loop globalRegex st =
     (case pieceRE (ps_q st) of
        None \<Rightarrow>
          if ps_ops st (ps_key st) \<noteq> None then Inl (Error (GotTermTwice (ps_key st)))
          else Inr ((ps_ops st)(ps_key st \<mapsto> ps_term st @ ps_q st))
      | Some (ahead, m, newKey, rest) \<Rightarrow>
          (case piece_round globalRegex st ahead m newKey rest of
             Inl e \<Rightarrow> Inl e
           | Inr st' \<Rightarrow> parse_loop globalRegex st'))"
  by pat_completeness auto
termination
proof (relation "measure (\<lambda>(g, st). length (ps_q st))")
  show "((g, st'), g, st) \<in> measure (\<lambda>(g, st). length (ps_q st))"
    if "pieceRE (ps_q st) = Some x2" "(b, y) = x2" "(m, z) = y" "(k, rest) = z"
      "piece_round g st b m k rest = Inr st'" for g st x2 b y m z k rest st'
    using that piece_round_q[of g st b m k rest st'] pieceRE_length[of "ps_q st" b m k rest] by auto
qed simp

declare parse_loop.simps [simp del]

definition init_parse :: "string \<Rightarrow> bool \<Rightarrow> parse_state" where
  "init_parse query globalRegex =
     \<lparr>ps_ops = Map.empty, ps_key = [], ps_term = [], ps_q = TrimSpace query,
      ps_inRegex = globalRegex, ps_justGotSpace = True\<rparr>"

section \<open>The query\<close>

definition onlyOneSynonym ::
    "(string \<rightharpoonup> string) \<Rightarrow> string \<Rightarrow> string \<Rightarrow> (query_error, string) res" where
  "onlyOneSynonym ops op1 op2 =
     (if map_string ops op1 \<noteq> [] \<and> map_string ops op2 \<noteq> [] then Inl (Error (BothSynonyms op1 op2))
      else if map_string ops op1 \<noteq> [] then Inr (map_string ops op1)
      else Inr (map_string ops op2))"

definition main_bits :: "(string \<rightharpoonup> string) \<Rightarrow> bool \<Rightarrow> string list" where
  "main_bits ops globalRegex =
     filter (\<lambda>bit. bit \<noteq> [])
       (map (\<lambda>k. let bit = TrimSpace (map_string ops k)
                 in if k = ''lit'' \<or> \<not> globalRegex then QuoteMeta bit else bit)
          [[], ''case'', ''lit''])"

definition has_upper :: "string \<Rightarrow> bool" where
  "has_upper s \<longleftrightarrow> list_ex (\<lambda>c. 65 \<le> byte c \<and> byte c \<le> 90) s"

definition take_over_line :: "Query \<Rightarrow> Query" where
  "take_over_line out =
     (if q_Line out = [] \<and> q_File out \<noteq> [] then
        out\<lparr>q_Line := q_File out, q_File := [], q_FilenameOnly := True\<rparr>
      else if q_Line out = [] \<and> q_Repo out \<noteq> [] then
        out\<lparr>q_Line := q_Repo out, q_Repo := [], q_TreenameOnly := True\<rparr>
      else out)"

definition query_of_ops :: "(string \<rightharpoonup> string) \<Rightarrow> bool \<Rightarrow> (query_error, Query) res" where
  "query_of_ops ops globalRegex =
     bind_res (onlyOneSynonym ops ''file'' ''path'') (\<lambda>file.
     bind_res (onlyOneSynonym ops ''-file'' ''-path'') (\<lambda>notFile.
       let bits = main_bits ops globalRegex;
           quote = (\<lambda>s. if globalRegex then s else QuoteMeta s)
       in if 1 < length bits then Inl (Error SeveralMainTerms)
       else
         let out = take_over_line
               \<lparr>q_Line = (case bits of [] \<Rightarrow> [] | b # _ \<Rightarrow> b), q_File = quote file,
                q_Repo = quote (map_string ops ''repo''), q_Tags = map_string ops ''tags'',
                q_FoldCase = False, q_NotFile = quote notFile,
                q_NotRepo = quote (map_string ops ''-repo''), q_NotTags = map_string ops ''-tags'',
                q_MaxMatches = 0, q_FilenameOnly = False, q_TreenameOnly = False,
                q_ContextLines = 0\<rparr>;
             out = out\<lparr>q_FoldCase := ops ''case'' = None \<and> ops ''lit'' = None \<and>
                         \<not> has_upper (q_Line out)\<rparr>
         in if map_string ops ''max_matches'' = [] then Inr out
            else (case Atoi (map_string ops ''max_matches'') of
                (i, None) \<Rightarrow> Inr (out\<lparr>q_MaxMatches := int32 i\<rparr>)
              | (i, Some e) \<Rightarrow> Inl (Error BadMaxMatches))))"

definition ParseQuery :: "string \<Rightarrow> bool \<Rightarrow> (query_error, Query) res" where
  "ParseQuery query globalRegex =
     bind_res (parse_loop globalRegex (init_parse query globalRegex))
       (\<lambda>ops. query_of_ops ops globalRegex)"

section \<open>Plain queries\<close>

text \<open>
  Bytes that no piece begins with. A value of an operator is made of them; a word of the
  main term has no colon besides, so that it cannot be taken for an operator.
\<close>

definition plain_char :: "char \<Rightarrow> bool" where
  "plain_char c \<longleftrightarrow> graphic c \<and> c \<noteq> CHR ''['' \<and> c \<noteq> CHR ''('' \<and> c \<noteq> BACKSLASH"

definition plain_main :: "string \<Rightarrow> bool" where
  "plain_main w \<longleftrightarrow> w \<noteq> [] \<and> list_all plain_char w \<and> CHR '':'' \<notin> set w"

lemma plain_char_not_space: "plain_char c \<Longrightarrow> c \<noteq> CHR '' ''"
  by (auto simp: plain_char_def graphic_def)

lemma other_piece_plain:
  "list_all plain_char v \<Longrightarrow> other_piece v = None"
  "list_all plain_char v \<Longrightarrow> other_piece (v @ CHR '' '' # rest) = Some (v, '' '', rest)"
  by (induction v) (auto simp: plain_char_def graphic_def)

lemma key_char_simps [simp]: "\<not> key_char CHR '' ''" "\<not> key_char CHR '':''"
  by (simp_all add: key_char_def is_digit_def)

text \<open>An operator piece lies within the value.\<close>

lemma operator_piece_in:
  assumes "operator_piece (v @ CHR '' '' # rest) = Some (k, r)"
  shows "\<exists>v'. v = k @ CHR '':'' # v' \<and> r = v' @ CHR '' '' # rest"
proof (cases "dropWhile key_char v")
  case Nil
  then have "dropWhile key_char (v @ CHR '' '' # rest) = CHR '' '' # rest"
    by (simp add: dropWhile_append)
  with assms show ?thesis by (simp add: operator_piece_def)
next
  case (Cons c t)
  then have "dropWhile key_char (v @ CHR '' '' # rest) = c # t @ CHR '' '' # rest"
    "takeWhile key_char (v @ CHR '' '' # rest) = takeWhile key_char v"
    by (auto simp: dropWhile_append takeWhile_append dropWhile_eq_Nil_conv[symmetric])
  with assms have "c = CHR '':''" "k = takeWhile key_char v" "r = t @ CHR '' '' # rest"
    by (auto simp: operator_piece_def split: if_splits)
  with Cons show ?thesis by (metis takeWhile_dropWhile_id)
qed

lemma operator_piece_end:
  assumes "operator_piece v = Some (k, r)"
  shows "v = k @ CHR '':'' # r"
proof -
  obtain t where "dropWhile key_char v = CHR '':'' # t" "k = takeWhile key_char v" "r = t"
    using assms by (auto simp: operator_piece_def split: list.splits if_splits)
  then show ?thesis by (metis takeWhile_dropWhile_id)
qed

lemma operator_piece_no_colon:
  assumes "CHR '':'' \<notin> set w"
  shows "operator_piece w = None" and "operator_piece (w @ CHR '' '' # rest) = None"
proof -
  show "operator_piece w = None"
    using assms operator_piece_end[of w] by (cases "operator_piece w") auto
  show "operator_piece (w @ CHR '' '' # rest) = None"
    using assms operator_piece_in[of w rest]
    by (cases "operator_piece (w @ CHR '' '' # rest)") fastforce+
qed

lemma operator_piece_tag:
  assumes "k \<in> set knownTags"
  shows "operator_piece (k @ CHR '':'' # rest) = Some (k, rest)"
  using assms
  by (auto simp: knownTags_def operator_piece_def key_char_def is_digit_def)

lemma knownTags_neq_Nil: "k \<in> set knownTags \<Longrightarrow> k \<noteq> []"
  by (auto simp: knownTags_def)

text \<open>The value of an operator up to a space, and at the end of the query.\<close>

lemma value_to_space:
  assumes "ps_key st = k" "k \<noteq> []" "k \<noteq> ''lit''" "list_all plain_char v"
    "ps_q st = v @ CHR '' '' # rest"
  shows "parse_loop g st =
    (if ps_ops st k \<noteq> None then Inl (Error (GotTermTwice k))
     else parse_loop g \<lparr>ps_ops = (ps_ops st)(k \<mapsto> ps_term st @ v), ps_key = [], ps_term = [],
       ps_q = rest, ps_inRegex = g, ps_justGotSpace = True\<rparr>)"
  using assms
proof (induction v arbitrary: st rule: length_induct)
  case (1 v)
  show ?case
  proof (cases "operator_piece (v @ CHR '' '' # rest)")
    case None
    then show ?thesis
      using 1(2-6) by (subst parse_loop.simps)
        (cases st, simp add: pieceRE_def other_piece_plain piece_round_def space_piece_def)
  next
    case (Some kr)
    then obtain k' v' where v: "v = k' @ CHR '':'' # v'"
      and "operator_piece (v @ CHR '' '' # rest) = Some (k', v' @ CHR '' '' # rest)"
      using operator_piece_in[of v rest] by (cases kr) blast
    then have step: "parse_loop g st = parse_loop g (st\<lparr>ps_term := ps_term st @ k' @ '':'',
        ps_q := v' @ CHR '' '' # rest, ps_justGotSpace := False\<rparr>)"
      using 1(2-6) by (subst parse_loop.simps)
        (cases st, simp add: pieceRE_def piece_round_def operator_round_def Let_def)
    have "length v' < length v" "list_all plain_char v'" using v 1(5) by simp_all
    with 1(1)[rule_format, of v' "st\<lparr>ps_term := ps_term st @ k' @ '':'',
        ps_q := v' @ CHR '' '' # rest, ps_justGotSpace := False\<rparr>"] 1(2,3,4)
    show ?thesis by (subst step) (simp add: v)
  qed
qed

lemma value_to_end:
  assumes "ps_key st = k" "k \<noteq> []" "k \<noteq> ''lit''" "list_all plain_char v" "ps_q st = v"
  shows "parse_loop g st =
    (if ps_ops st k \<noteq> None then Inl (Error (GotTermTwice k))
     else Inr ((ps_ops st)(k \<mapsto> ps_term st @ v)))"
  using assms
proof (induction v arbitrary: st rule: length_induct)
  case (1 v)
  show ?case
  proof (cases "operator_piece v")
    case None
    then show ?thesis
      using 1(2-6) by (subst parse_loop.simps) (simp add: pieceRE_def other_piece_plain)
  next
    case (Some kr)
    then obtain k' v' where v: "v = k' @ CHR '':'' # v'" and "operator_piece v = Some (k', v')"
      using operator_piece_end[of v] by (cases kr) blast
    then have step: "parse_loop g st = parse_loop g (st\<lparr>ps_term := ps_term st @ k' @ '':'',
        ps_q := v', ps_justGotSpace := False\<rparr>)"
      using 1(2-6) by (subst parse_loop.simps)
        (cases st, simp add: pieceRE_def piece_round_def operator_round_def Let_def)
    have "length v' < length v" "list_all plain_char v'" using v 1(5) by simp_all
    with 1(1)[rule_format, of v' "st\<lparr>ps_term := ps_term st @ k' @ '':'', ps_q := v',
        ps_justGotSpace := False\<rparr>"] 1(2,3,4)
    show ?thesis by (subst step) (simp add: v)
  qed
qed

section \<open>Canonical queries\<close>

definition opt_printed :: "string \<times> string \<Rightarrow> string" where
  "opt_printed = (\<lambda>(k, v). k @ CHR '':'' # v)"

definition option_fine :: "string \<times> string \<Rightarrow> bool" where
  "option_fine = (\<lambda>(k, v). k \<in> set knownTags \<and> k \<noteq> ''lit'' \<and> list_all plain_char v)"

text \<open>What the operators collect: one value for each, and an error for the second one.\<close>

fun collect ::
    "(string \<rightharpoonup> string) \<Rightarrow> (string \<times> string) list \<Rightarrow> (query_error, string \<rightharpoonup> string) res" where
  "collect m [] = Inr m"
| "collect m ((k, v) # opts) =
     (if m k \<noteq> None then Inl (Error (GotTermTwice k)) else collect (m(k \<mapsto> v)) opts)"

definition close_term :: "parse_state \<Rightarrow> string \<rightharpoonup> string" where
  "close_term st =
     (if TrimSpace (ps_term st) \<noteq> [] then (ps_ops st)([] \<mapsto> ps_term st) else ps_ops st)"

lemma operator_start:
  assumes "ps_key st = []" "ps_q st = k @ CHR '':'' # rest" "k \<in> set knownTags" "k \<noteq> ''lit''"
    "TrimSpace (ps_term st) \<noteq> [] \<longrightarrow> ps_ops st [] = None"
  shows "parse_loop g st = parse_loop g (st\<lparr>ps_ops := close_term st, ps_key := k, ps_term := [],
    ps_q := rest, ps_justGotSpace := False\<rparr>)"
  using assms operator_piece_tag[OF assms(3), of rest]
  by (subst parse_loop.simps)
    (cases st, auto simp: pieceRE_def piece_round_def operator_round_def close_term_def Let_def)

lemma options_loop:
  assumes "opts \<noteq> []" "list_all option_fine opts" "ps_key st = []"
    "ps_q st = join '' '' (map opt_printed opts)"
    "TrimSpace (ps_term st) \<noteq> [] \<longrightarrow> ps_ops st [] = None"
  shows "parse_loop g st = collect (close_term st) opts"
  using assms
proof (induction opts arbitrary: st)
  case (Cons kv opts)
  obtain k v where kv: "kv = (k, v)" by (cases kv)
  have fine: "k \<in> set knownTags" "k \<noteq> ''lit''" "list_all plain_char v"
    using Cons.prems(2) by (simp_all add: kv option_fine_def)
  note ne = knownTags_neq_Nil[OF fine(1)]
  show ?case
  proof (cases opts)
    case Nil
    let ?st = "st\<lparr>ps_ops := close_term st, ps_key := k, ps_term := [], ps_q := v,
        ps_justGotSpace := False\<rparr>"
    have "parse_loop g st = parse_loop g ?st"
      using Cons.prems Nil fine by (intro operator_start) (simp_all add: kv opt_printed_def)
    also have "\<dots> = (if ps_ops ?st k \<noteq> None then Inl (Error (GotTermTwice k))
        else Inr ((ps_ops ?st)(k \<mapsto> ps_term ?st @ v)))"
      using fine ne by (intro value_to_end) simp_all
    finally show ?thesis by (simp add: kv Nil)
  next
    case (Cons o1 os)
    let ?rest = "join '' '' (map opt_printed opts)"
    let ?st = "st\<lparr>ps_ops := close_term st, ps_key := k, ps_term := [], ps_q := v @ CHR '' '' # ?rest,
        ps_justGotSpace := False\<rparr>"
    let ?next = "\<lparr>ps_ops = (close_term st)(k \<mapsto> v), ps_key = [], ps_term = [], ps_q = ?rest,
        ps_inRegex = g, ps_justGotSpace = True\<rparr>"
    have "ps_q st = k @ CHR '':'' # v @ CHR '' '' # ?rest"
      using Cons.prems(4) Cons by (simp add: kv opt_printed_def)
    then have "parse_loop g st = parse_loop g ?st"
      using Cons.prems fine by (intro operator_start) simp_all
    also have "\<dots> = (if close_term st k \<noteq> None then Inl (Error (GotTermTwice k))
        else parse_loop g ?next)"
      using fine ne value_to_space[of ?st k v ?rest g] by simp
    finally have step: "parse_loop g st = (if close_term st k \<noteq> None then Inl (Error (GotTermTwice k))
        else parse_loop g ?next)" .
    have "parse_loop g ?next = collect (close_term ?next) opts"
      using Cons.prems Cons by (intro Cons.IH) (simp_all add: kv)
    moreover have "close_term ?next = (close_term st)(k \<mapsto> v)" by (simp add: close_term_def)
    ultimately show ?thesis by (simp add: step kv)
  qed
qed simp

text \<open>The words of the main term, each up to its space.\<close>

lemma word_to_space:
  assumes "ps_key st = []" "plain_main w" "ps_q st = w @ CHR '' '' # rest"
  shows "parse_loop g st = parse_loop g (st\<lparr>ps_term := ps_term st @ w @ '' '', ps_q := rest,
    ps_justGotSpace := True\<rparr>)"
proof -
  have "operator_piece (w @ CHR '' '' # rest) = None" "list_all plain_char w"
    using assms(2) by (simp_all add: plain_main_def operator_piece_no_colon)
  with assms show ?thesis
    by (subst parse_loop.simps)
      (cases st, simp add: pieceRE_def other_piece_plain piece_round_def space_piece_def)
qed

definition spaced :: "string list \<Rightarrow> string" where
  "spaced ws = concat (map (\<lambda>w. w @ '' '') ws)"

lemma words_loop:
  assumes "ps_key st = []" "list_all plain_main ws" "ps_q st = spaced ws @ rest" "ws \<noteq> []"
  shows "parse_loop g st = parse_loop g (st\<lparr>ps_term := ps_term st @ spaced ws, ps_q := rest,
    ps_justGotSpace := True\<rparr>)"
  using assms
proof (induction ws arbitrary: st)
  case (Cons w ws)
  have "parse_loop g st = parse_loop g (st\<lparr>ps_term := ps_term st @ w @ '' '',
      ps_q := spaced ws @ rest, ps_justGotSpace := True\<rparr>)"
    using Cons.prems by (intro word_to_space) (simp_all add: spaced_def)
  then show ?case
    using Cons.prems Cons.IH[of "st\<lparr>ps_term := ps_term st @ w @ '' '',
      ps_q := spaced ws @ rest, ps_justGotSpace := True\<rparr>"]
    by (cases "ws = []") (simp_all add: spaced_def)
qed simp

lemma last_word:
  assumes "ps_key st = []" "plain_main w" "ps_q st = w" "ps_ops st [] = None"
  shows "parse_loop g st = Inr ((ps_ops st)([] \<mapsto> ps_term st @ w))"
  using assms operator_piece_no_colon(1)[of w]
  by (subst parse_loop.simps) (simp add: pieceRE_def other_piece_plain plain_main_def)

lemma join_spaced: "ws \<noteq> [] \<Longrightarrow> spaced ws = join '' '' ws @ '' ''"
  by (induction ws rule: induct_list012) (simp_all add: spaced_def)

lemma join_append_ne:
  "xs \<noteq> [] \<Longrightarrow> ys \<noteq> [] \<Longrightarrow> join sep (xs @ ys) = join sep xs @ sep @ join sep ys"
  by (induction xs rule: induct_list012) (simp_all add: join_Cons_ne)

text \<open>The whole text of a canonical query: words, then operators.\<close>

definition query_printed :: "string list \<Rightarrow> (string \<times> string) list \<Rightarrow> string" where
  "query_printed ws opts = join '' '' (ws @ map opt_printed opts)"

definition main_term :: "string list \<Rightarrow> (string \<times> string) list \<Rightarrow> string" where
  "main_term ws opts = (if opts = [] then join '' '' ws else spaced ws)"

lemma hd_last_join:
  assumes "xs \<noteq> []" "\<And>x. x \<in> set xs \<Longrightarrow> x \<noteq> [] \<and> graphic (hd x) \<and> graphic (last x)"
  shows "join sep xs \<noteq> [] \<and> graphic (hd (join sep xs)) \<and> graphic (last (join sep xs))"
  using assms
proof (induction xs rule: induct_list012)
  case (3 x y zs)
  then have "join sep (y # zs) \<noteq> [] \<and> graphic (last (join sep (y # zs)))" by simp
  moreover have "x \<noteq> []" "graphic (hd x)" using 3(4)[of x] by auto
  ultimately show ?case by (simp add: join_Cons_ne)
qed auto

lemma plain_word_ends:
  assumes "plain_main w"
  shows "w \<noteq> [] \<and> graphic (hd w) \<and> graphic (last w)"
  using assms list_all_iff[of plain_char w] hd_in_set[of w] last_in_set[of w]
  by (auto simp: plain_main_def plain_char_def)

lemma tag_graphic: "k \<in> set knownTags \<Longrightarrow> graphic (hd k)"
  by (auto simp: knownTags_def graphic_def)

lemma printed_option_ends:
  assumes "option_fine kv"
  shows "opt_printed kv \<noteq> [] \<and> graphic (hd (opt_printed kv)) \<and> graphic (last (opt_printed kv))"
proof (cases kv)
  case (Pair k v)
  have "graphic CHR '':''" by (simp add: graphic_def)
  moreover have "v \<noteq> [] \<Longrightarrow> graphic (last v)"
    using assms Pair last_in_set[of v] by (auto simp: option_fine_def list_all_iff plain_char_def)
  ultimately show ?thesis
    using assms Pair tag_graphic[of k] knownTags_neq_Nil[of k]
    by (auto simp: option_fine_def opt_printed_def)
qed

lemma TrimSpace_query_printed:
  assumes "list_all plain_main ws" "list_all option_fine opts"
  shows "TrimSpace (query_printed ws opts) = query_printed ws opts"
proof (cases "ws @ map opt_printed opts = []")
  case False
  have "x \<noteq> [] \<and> graphic (hd x) \<and> graphic (last x)" if "x \<in> set (ws @ map opt_printed opts)" for x
    using that assms plain_word_ends printed_option_ends by (auto simp: list_all_iff)
  then have "query_printed ws opts \<noteq> [] \<and> graphic (hd (query_printed ws opts)) \<and>
      graphic (last (query_printed ws opts))"
    unfolding query_printed_def using False by (intro hd_last_join)
  then show ?thesis by (simp add: TrimSpace_graphic)
qed (simp add: query_printed_def)

lemma TrimSpace_main_term:
  assumes "list_all plain_main ws" "ws \<noteq> []"
  shows "TrimSpace (main_term ws opts) = join '' '' ws" and "join '' '' ws \<noteq> []"
proof -
  have e: "join '' '' ws \<noteq> [] \<and> graphic (hd (join '' '' ws)) \<and> graphic (last (join '' '' ws))"
    using assms plain_word_ends by (intro hd_last_join) (auto simp: list_all_iff)
  then show "join '' '' ws \<noteq> []" by simp
  show "TrimSpace (main_term ws opts) = join '' '' ws"
    using e assms(2) by (simp add: main_term_def join_spaced TrimSpace_append_blank TrimSpace_graphic)
qed

lemma parse_loop_printed:
  assumes "list_all plain_main ws" "list_all option_fine opts" "ws \<noteq> []"
  shows "parse_loop g (init_parse (query_printed ws opts) g) = collect [[] \<mapsto> main_term ws opts] opts"
proof -
  let ?st = "init_parse (query_printed ws opts) g"
  have q: "ps_q ?st = query_printed ws opts"
    using assms by (simp add: init_parse_def TrimSpace_query_printed)
  have init: "ps_key (init_parse q g) = []" "ps_term (init_parse q g) = []"
    "ps_ops (init_parse q g) = Map.empty" for q
    by (simp_all add: init_parse_def)
  show ?thesis
  proof (cases "opts = []")
    case True
    let ?st' = "\<lambda>vs w. ?st\<lparr>ps_term := spaced vs, ps_q := w, ps_justGotSpace := True\<rparr>"
    obtain vs w where ws: "ws = vs @ [w]" using assms(3) by (metis rev_exhaust)
    have join: "join '' '' ws = spaced vs @ w"
      by (cases "vs = []") (simp_all add: ws spaced_def join_append_ne join_spaced[symmetric, unfolded spaced_def])
    show ?thesis
    proof (cases "vs = []")
      case True
      with assms \<open>opts = []\<close> show ?thesis
        using last_word[of ?st w g] q by (auto simp: init_parse_def query_printed_def main_term_def ws)
    next
      case False
      have "parse_loop g ?st = parse_loop g (?st' vs w)"
        using words_loop[of ?st vs w g] assms False \<open>opts = []\<close> join q
        by (simp add: init query_printed_def ws)
      also have "\<dots> = Inr [[] \<mapsto> join '' '' ws]"
        using last_word[of "?st' vs w" w g] assms by (simp add: init ws join[unfolded ws])
      finally show ?thesis using True by (simp add: main_term_def)
    qed
  next
    case False
    let ?rest = "join '' '' (map opt_printed opts)"
    let ?next = "?st\<lparr>ps_term := spaced ws, ps_q := ?rest, ps_justGotSpace := True\<rparr>"
    have "query_printed ws opts = spaced ws @ ?rest"
      using False assms(3) by (simp add: query_printed_def join_append_ne join_spaced)
    then have "parse_loop g ?st = parse_loop g ?next"
      using words_loop[OF _ assms(1) _ assms(3), of ?st ?rest g] q by (simp add: init)
    also have "\<dots> = collect (close_term ?next) opts"
      using False assms by (intro options_loop) (simp_all add: init)
    also have "close_term ?next = [[] \<mapsto> spaced ws]"
      using TrimSpace_main_term(1)[OF assms(1,3), of opts] TrimSpace_main_term(2)[OF assms(1,3)] False
      by (simp add: close_term_def main_term_def init)
    finally show ?thesis using False by (simp only: main_term_def if_False)
  qed
qed

lemma parse_loop_options:
  assumes "list_all option_fine opts" "opts \<noteq> []"
  shows "parse_loop g (init_parse (query_printed [] opts) g) = collect Map.empty opts"
proof -
  let ?st = "init_parse (query_printed [] opts) g"
  have "parse_loop g ?st = collect (close_term ?st) opts"
    using assms TrimSpace_query_printed[of "[]" opts]
    by (intro options_loop) (simp_all add: init_parse_def query_printed_def)
  then show ?thesis by (simp add: close_term_def init_parse_def)
qed

lemma collect_distinct:
  "distinct (map fst opts) \<Longrightarrow> (\<And>k. k \<in> fst ` set opts \<Longrightarrow> m k = None) \<Longrightarrow>
   collect m opts = Inr (m ++ map_of opts)"
proof (induction opts arbitrary: m)
  case (Cons kv opts)
  obtain k v where kv: "kv = (k, v)" by (cases kv)
  have "collect m (kv # opts) = collect (m(k \<mapsto> v)) opts" using Cons.prems by (simp add: kv)
  also have "\<dots> = Inr (m(k \<mapsto> v) ++ map_of opts)"
    using Cons.prems by (intro Cons.IH) (auto simp: kv)
  also have "m(k \<mapsto> v) ++ map_of opts = m ++ map_of (kv # opts)"
    using Cons.prems(1) by (simp add: kv map_add_upd_left dom_map_of_conv_image_fst)
  finally show ?case .
qed simp

lemma collect_taken:
  assumes "m x \<noteq> None" "x \<in> fst ` set opts"
  shows "\<exists>k. k \<in> fst ` set opts \<and> collect m opts = Inl (Error (GotTermTwice k))"
  using assms
proof (induction opts arbitrary: m)
  case (Cons kv opts)
  obtain k v where kv: "kv = (k, v)" by (cases kv)
  show ?case
  proof (cases "m k = None")
    case True
    then have "x \<noteq> k" using Cons.prems(1) by auto
    then have "(m(k \<mapsto> v)) x \<noteq> None" "x \<in> fst ` set opts" using Cons.prems by (auto simp: kv)
    then obtain k' where "k' \<in> fst ` set opts"
      "collect (m(k \<mapsto> v)) opts = Inl (Error (GotTermTwice k'))"
      using Cons.IH[of "m(k \<mapsto> v)"] by blast
    then show ?thesis using True by (intro exI[of _ k']) (simp add: kv)
  qed (auto simp: kv)
qed simp

lemma collect_twice:
  assumes "\<not> distinct (map fst opts)"
  shows "\<exists>k. k \<in> fst ` set opts \<and> collect m opts = Inl (Error (GotTermTwice k))"
  using assms
proof (induction opts arbitrary: m)
  case (Cons kv opts)
  obtain k v where kv: "kv = (k, v)" by (cases kv)
  have "\<exists>k'. k' \<in> fst ` set opts \<and> collect (m(k \<mapsto> v)) opts = Inl (Error (GotTermTwice k'))"
  proof (cases "k \<in> fst ` set opts")
    case True
    then show ?thesis by (intro collect_taken) simp_all
  next
    case False
    then show ?thesis using Cons.prems by (intro Cons.IH) (simp add: kv)
  qed
  then obtain k' where k': "k' \<in> fst ` set opts"
    "collect (m(k \<mapsto> v)) opts = Inl (Error (GotTermTwice k'))" by blast
  show ?case
  proof (cases "m k = None")
    case True
    then show ?thesis using k' by (intro exI[of _ k']) (simp add: kv)
  qed (simp add: kv)
qed simp

section \<open>Queries with no colon\<close>

definition ascii_no_colon :: "string \<Rightarrow> bool" where
  "ascii_no_colon q \<longleftrightarrow> (\<forall>c\<in>set q. byte c < 0x80 \<and> c \<noteq> CHR '':'')"

lemma other_piece_append:
  "other_piece q = Some (b, m, rest) \<Longrightarrow> q = b @ m @ rest \<and> (m = '' '' \<or> m = ''('' \<or> m = ''['' \<or> m \<noteq> [])"
  by (induction q arbitrary: b) (fastforce simp: Let_def split: if_splits)+

lemma balanced_group_append:
  "ascii_no_colon q \<Longrightarrow> balanced_group opn cls p esc q = (w, rest) \<Longrightarrow> q = w @ rest"
proof (induction opn cls p esc q arbitrary: w rest rule: balanced_group.induct)
  case (1 opn cls p esc q)
  show ?case
  proof (cases q)
    case Nil
    with 1(3) show ?thesis by (simp add: balanced_group.simps)
  next
    case (Cons c t)
    then have c: "byte c < 0x80" "ascii_no_colon t" using 1(2) by (simp_all add: ascii_no_colon_def)
    obtain p' esc' where g: "group_state opn cls (byte c) p esc = (p', esc')" by fastforce
    have step: "balanced_group opn cls p esc q = (if p' = 0 then ([c], t)
        else let (w, rest) = balanced_group opn cls p' esc' t in (c # w, rest))"
      using c g by (subst balanced_group.simps) (simp add: Cons)
    show ?thesis
    proof (cases "p' = 0")
      case True
      with 1(3) step show ?thesis by (simp add: Cons)
    next
      case False
      then obtain w' where w': "balanced_group opn cls p' esc' t = (w', rest)" "w = c # w'"
        using 1(3) False by (auto simp: step split: prod.splits)
      have "t = w' @ rest"
        using 1(1)[of "(byte c, 1)" "byte c" 1 "(p', esc')" p' esc' w' rest] c g w' False
        by (simp add: Cons)
      then show ?thesis by (simp add: Cons w')
    qed
  qed
qed

lemma bracket_piece_keeps:
  assumes "ascii_no_colon (ps_q st)"
  shows "ps_term (bracket_piece m st) @ ps_q (bracket_piece m st) = ps_term st @ m @ ps_q st"
    and "ascii_no_colon (ps_q (bracket_piece m st))"
    and "ps_key (bracket_piece m st) = ps_key st" "ps_ops (bracket_piece m st) = ps_ops st"
proof -
  have split: "ps_q st = w @ rest \<and> ascii_no_colon rest"
    if "balanced_group opn cls p esc (ps_q st) = (w, rest)" for opn cls p esc w rest
    using balanced_group_append[OF assms that] assms by (simp_all add: ascii_no_colon_def)
  show "ps_term (bracket_piece m st) @ ps_q (bracket_piece m st) = ps_term st @ m @ ps_q st"
    "ascii_no_colon (ps_q (bracket_piece m st))"
    "ps_key (bracket_piece m st) = ps_key st" "ps_ops (bracket_piece m st) = ps_ops st"
    using assms by (auto simp: bracket_piece_def split: prod.splits dest!: split)
qed

lemma piece_round_no_colon:
  assumes "ps_key st = []" "ascii_no_colon rest"
  shows "\<exists>st'. piece_round g st b m None rest = Inr st' \<and> ps_key st' = [] \<and> ps_ops st' = ps_ops st \<and>
    ascii_no_colon (ps_q st') \<and> ps_term st' @ ps_q st' = ps_term st @ b @ m @ rest"
proof -
  let ?st = "st\<lparr>ps_term := ps_term st @ b, ps_q := rest, ps_justGotSpace := ps_justGotSpace st \<and> b = []\<rparr>"
  have "ascii_no_colon (ps_q ?st)" using assms by simp
  note keeps = bracket_piece_keeps[OF this, of m]
  consider "m = '' ''" | "m \<noteq> '' ''" "m = ''('' \<or> m = ''[''" | "m \<noteq> '' ''" "m \<noteq> ''(''" "m \<noteq> ''[''"
    by blast
  then show ?thesis
  proof cases
    case 2
    then have "piece_round g st b m None rest = Inr ((bracket_piece m ?st)\<lparr>ps_justGotSpace := False\<rparr>)"
      by (simp add: piece_round_def Let_def)
    then show ?thesis using assms keeps by simp
  qed (use assms in \<open>simp_all add: piece_round_def space_piece_def\<close>)
qed

lemma parse_loop_no_colon:
  "ps_key st = [] \<Longrightarrow> ps_ops st = Map.empty \<Longrightarrow> ascii_no_colon (ps_q st) \<Longrightarrow>
   parse_loop g st = Inr [[] \<mapsto> ps_term st @ ps_q st]"
proof (induction g st rule: parse_loop.induct)
  case (1 g st)
  have op: "operator_piece (ps_q st) = None"
    using 1(4) by (intro operator_piece_no_colon) (auto simp: ascii_no_colon_def)
  show ?case
  proof (cases "other_piece (ps_q st)")
    case None
    with op 1(2,3) show ?thesis by (subst parse_loop.simps) (simp add: pieceRE_def)
  next
    case (Some p)
    then obtain b m rest where p: "other_piece (ps_q st) = Some (b, m, rest)" by (cases p) auto
    then have q: "ps_q st = b @ m @ rest" using other_piece_append by blast
    then have "ascii_no_colon rest" using 1(4) by (simp add: ascii_no_colon_def)
    then have "\<exists>st'. piece_round g st b m None rest = Inr st' \<and> ps_key st' = [] \<and>
        ps_ops st' = Map.empty \<and> ascii_no_colon (ps_q st') \<and> ps_term st' @ ps_q st' = ps_term st @ ps_q st"
      using 1(2,3) piece_round_no_colon[of st rest g b m] by (simp add: q)
    then obtain st' where st': "piece_round g st b m None rest = Inr st'" "ps_key st' = []"
      "ps_ops st' = Map.empty" "ascii_no_colon (ps_q st')"
      "ps_term st' @ ps_q st' = ps_term st @ ps_q st" by blast
    have "parse_loop g st = parse_loop g st'"
      using op p st'(1) by (subst parse_loop.simps) (simp add: pieceRE_def)
    also have "\<dots> = Inr [[] \<mapsto> ps_term st' @ ps_q st']"
      using st' op p by (intro 1(1)[of "(b, m, None, rest)" b "(m, None, rest)" m "(None, rest)" None rest])
        (simp_all add: pieceRE_def)
    finally show ?thesis by (simp only: st'(5))
  qed
qed

section \<open>Properties\<close>

definition quoted :: "bool \<Rightarrow> string \<Rightarrow> string" where
  "quoted globalRegex s = (if globalRegex then s else QuoteMeta s)"

definition value_of :: "(string \<times> string) list \<Rightarrow> string \<Rightarrow> string" where
  "value_of opts k = map_string (map_of opts) k"

lemma value_of_simps [simp]:
  "value_of [] k = []" "value_of ((k', v) # opts) k = (if k = k' then v else value_of opts k)"
  by (simp_all add: value_of_def map_string_def)

text \<open>The operators of a canonical query: one value each, none of the synonyms.\<close>

definition scope_keys :: "string list" where
  "scope_keys = [''file'', ''-file'', ''repo'', ''-repo'', ''tags'', ''-tags'', ''max_matches'']"

definition max_matches_is :: "(string \<times> string) list \<Rightarrow> nat \<Rightarrow> bool" where
  "max_matches_is opts n \<longleftrightarrow>
     (case map_of opts ''max_matches'' of
        None \<Rightarrow> n = 0 | Some v \<Rightarrow> v = string_of_nat n \<and> n < 2 ^ 63)"

definition fine_options :: "(string \<times> string) list \<Rightarrow> bool" where
  "fine_options opts \<longleftrightarrow>
     list_all (\<lambda>(k, v). k \<in> set scope_keys \<and> list_all plain_char v) opts \<and> distinct (map fst opts)"

lemma fine_options_fine: "fine_options opts \<Longrightarrow> list_all option_fine opts"
proof -
  have "set scope_keys \<subseteq> set knownTags" "''lit'' \<notin> set scope_keys"
    by (simp_all add: scope_keys_def knownTags_def)
  then show "fine_options opts \<Longrightarrow> list_all option_fine opts"
    by (fastforce simp: fine_options_def option_fine_def list_all_iff)
qed

lemma max_matches_is_Atoi:
  assumes "max_matches_is opts n"
  shows "value_of opts ''max_matches'' = [] \<and> n = 0 \<or>
    value_of opts ''max_matches'' \<noteq> [] \<and> Atoi (value_of opts ''max_matches'') = (int n, None)"
proof (cases "map_of opts ''max_matches''")
  case (Some v)
  then have v: "v = string_of_nat n" "n < 2 ^ 63" using assms by (simp_all add: max_matches_is_def)
  have "value_of opts ''max_matches'' = v" by (simp add: value_of_def map_string_def Some)
  moreover have "v \<noteq> []" "Atoi v = (int n, None)" using v Atoi_string_of_nat[OF v(2)] by simp_all
  ultimately show ?thesis by (simp only: not_False_eq_True simp_thms)
qed (use assms in \<open>simp add: max_matches_is_def value_of_def map_string_def\<close>)

lemma fine_options_absent:
  assumes "fine_options opts" "k \<notin> set scope_keys"
  shows "map_of opts k = None"
proof -
  have "k \<notin> fst ` set opts" using assms by (auto simp: fine_options_def list_all_iff)
  then show ?thesis by (simp add: map_of_eq_None_iff)
qed

lemma int32_0 [simp]: "int32 0 = 0"
  by (simp add: int32_id)

lemma query_of_fine_options:
  assumes "fine_options opts" "max_matches_is opts n" "m = [] \<or> TrimSpace t = m"
    "ops = (if m = [] then map_of opts else [[] \<mapsto> t] ++ map_of opts)"
  shows "query_of_ops ops g = Inr (let out = take_over_line
      \<lparr>q_Line = quoted g m, q_File = quoted g (value_of opts ''file''),
       q_Repo = quoted g (value_of opts ''repo''), q_Tags = value_of opts ''tags'',
       q_FoldCase = False, q_NotFile = quoted g (value_of opts ''-file''),
       q_NotRepo = quoted g (value_of opts ''-repo''), q_NotTags = value_of opts ''-tags'',
       q_MaxMatches = int32 (int n), q_FilenameOnly = False, q_TreenameOnly = False,
       q_ContextLines = 0\<rparr> in out\<lparr>q_FoldCase := \<not> has_upper (q_Line out)\<rparr>)"
proof -
  have absent: "map_of opts k = None" if "k \<in> {[], ''path'', ''-path'', ''case'', ''lit''}" for k
    using that by (intro fine_options_absent[OF assms(1)]) (auto simp: scope_keys_def)
  have some: "map_string ops k = value_of opts k" if "k \<noteq> []" for k
    using that assms(4) by (auto simp: value_of_def map_string_def map_add_def split: option.splits)
  have none: "ops ''case'' = None" "ops ''lit'' = None" "map_string ops ''path'' = []"
    "map_string ops ''-path'' = []" "map_string ops ''case'' = []" "map_string ops ''lit'' = []"
    using absent assms(4) by (auto simp: map_string_def map_add_def)
  have main: "TrimSpace (map_string ops []) = m"
    using absent[of "[]"] assms(3,4) by (auto simp: map_string_def map_add_def)
  have bits: "main_bits ops g = (if m = [] then [] else [quoted g m])"
    by (simp add: main_bits_def none main quoted_def)
  have line: "length (main_bits ops g) \<le> 1"
    "(case main_bits ops g of [] \<Rightarrow> [] | b # _ \<Rightarrow> b) = quoted g m"
    by (simp_all add: bits quoted_def)
  have synonyms: "onlyOneSynonym ops ''file'' ''path'' = Inr (value_of opts ''file'')"
    "onlyOneSynonym ops ''-file'' ''-path'' = Inr (value_of opts ''-file'')"
    by (simp_all add: onlyOneSynonym_def none some)
  let ?q = "\<lambda>n. \<lparr>q_Line = quoted g m, q_File = quoted g (value_of opts ''file''),
       q_Repo = quoted g (value_of opts ''repo''), q_Tags = value_of opts ''tags'',
       q_FoldCase = False, q_NotFile = quoted g (value_of opts ''-file''),
       q_NotRepo = quoted g (value_of opts ''-repo''), q_NotTags = value_of opts ''-tags'',
       q_MaxMatches = n, q_FilenameOnly = False, q_TreenameOnly = False, q_ContextLines = 0\<rparr>"
  let ?out = "\<lambda>n. (take_over_line (?q n))\<lparr>q_FoldCase := \<not> has_upper (q_Line (take_over_line (?q n)))\<rparr>"
  have eq: "query_of_ops ops g =
      (if value_of opts ''max_matches'' = [] then Inr (?out 0)
       else case Atoi (value_of opts ''max_matches'') of
           (i, None) \<Rightarrow> Inr ((?out 0)\<lparr>q_MaxMatches := int32 i\<rparr>)
         | (i, Some e) \<Rightarrow> Inl (Error BadMaxMatches))"
    using line(1) by (simp add: query_of_ops_def synonyms line(2) none(1,2) some quoted_def Let_def)
  have max: "(?out 0)\<lparr>q_MaxMatches := i\<rparr> = ?out i" for i
    by (simp add: take_over_line_def)
  from max_matches_is_Atoi[OF assms(2)] show ?thesis
    unfolding eq Let_def by (auto simp: max)
qed

lemma parse_fine_words:
  assumes "ws \<noteq> []" "list_all plain_main ws" "fine_options opts"
  shows "ParseQuery (query_printed ws opts) g =
    query_of_ops ([[] \<mapsto> main_term ws opts] ++ map_of opts) g"
proof -
  have "[] \<notin> set scope_keys" by (simp add: scope_keys_def)
  then have "k \<noteq> []" if "k \<in> fst ` set opts" for k
    using that assms(3) by (auto simp: fine_options_def list_all_iff)
  then have "collect [[] \<mapsto> main_term ws opts] opts = Inr ([[] \<mapsto> main_term ws opts] ++ map_of opts)"
    using assms(3) by (intro collect_distinct) (simp_all add: fine_options_def)
  then show ?thesis
    using parse_loop_printed[OF assms(2) fine_options_fine[OF assms(3)] assms(1)]
    by (simp add: ParseQuery_def)
qed

lemma ParseQuery_printed:
  assumes "ws \<noteq> []" "list_all plain_main ws" "fine_options opts" "max_matches_is opts n"
  shows "ParseQuery (query_printed ws opts) g = Inr
    \<lparr>q_Line = quoted g (join '' '' ws), q_File = quoted g (value_of opts ''file''),
     q_Repo = quoted g (value_of opts ''repo''), q_Tags = value_of opts ''tags'',
     q_FoldCase = (\<not> has_upper (quoted g (join '' '' ws))),
     q_NotFile = quoted g (value_of opts ''-file''), q_NotRepo = quoted g (value_of opts ''-repo''),
     q_NotTags = value_of opts ''-tags'', q_MaxMatches = int32 (int n),
     q_FilenameOnly = False, q_TreenameOnly = False, q_ContextLines = 0\<rparr>"
proof -
  note main = TrimSpace_main_term[OF assms(2,1)]
  have "quoted g (join '' '' ws) \<noteq> []" using main(2) by (simp add: quoted_def)
  then show ?thesis
    using query_of_fine_options[OF assms(3,4), of "join '' '' ws" "main_term ws opts" _ g] main
    by (simp add: parse_fine_words[OF assms(1-3)] take_over_line_def Let_def)
qed

text \<open>
  C5. A query written as words followed by operators, each operator at most once, is read
  back as that query: the line is the words joined by a blank (quoted in a literal search),
  every operator gives its field (quoted in a literal search, the tags excepted), the case
  is folded exactly when the line has no upper-case letter, and the limit is the number
  given, cut to 32 bits.
\<close>

theorem ParseQuery_words:
  assumes "ws \<noteq> []" "list_all plain_main ws" "fine_options opts" "max_matches_is opts n"
  shows "ParseQuery (query_printed ws opts) g = Inr
    \<lparr>q_Line = quoted g (join '' '' ws), q_File = quoted g (value_of opts ''file''),
     q_Repo = quoted g (value_of opts ''repo''), q_Tags = value_of opts ''tags'',
     q_FoldCase = (\<not> has_upper (quoted g (join '' '' ws))),
     q_NotFile = quoted g (value_of opts ''-file''), q_NotRepo = quoted g (value_of opts ''-repo''),
     q_NotTags = value_of opts ''-tags'', q_MaxMatches = int32 (int n),
     q_FilenameOnly = False, q_TreenameOnly = False, q_ContextLines = 0\<rparr>"
  using assms by (rule ParseQuery_printed)

lemma ParseQuery_words_witness:
  "ParseQuery ''int foo file:a.c max_matches:4294967297'' True = Inr
     \<lparr>q_Line = ''int foo'', q_File = ''a.c'', q_Repo = '''', q_Tags = '''', q_FoldCase = True,
      q_NotFile = '''', q_NotRepo = '''', q_NotTags = '''', q_MaxMatches = 1,
      q_FilenameOnly = False, q_TreenameOnly = False, q_ContextLines = 0\<rparr>"
proof -
  let ?opts = "[(''file'', ''a.c''), (''max_matches'', ''4294967297'')]"
  have "list_all plain_main [''int'', ''foo'']"
    by (simp add: plain_main_def plain_char_def graphic_def)
  moreover have "fine_options ?opts"
    by (simp add: fine_options_def plain_char_def graphic_def scope_keys_def)
  moreover have "max_matches_is ?opts 4294967297"
    by (simp add: max_matches_is_def string_of_nat.simps)
  moreover have "int32 4294967297 = 1" by (simp add: int32_def)
  ultimately show ?thesis
    using ParseQuery_words[of "[''int'', ''foo'']" ?opts 4294967297 True]
    by (simp add: query_printed_def opt_printed_def quoted_def has_upper_def)
qed

text \<open>
  A query of operators only that names a file searches for the file's name: the pattern
  of the operator becomes the line, the file field is emptied and the query is marked as one
  for names of files. All the other fields are as written.
\<close>

theorem ParseQuery_file_only:
  assumes "fine_options opts" "max_matches_is opts n" "value_of opts ''file'' = v" "v \<noteq> []"
  shows "ParseQuery (query_printed [] opts) g = Inr
    \<lparr>q_Line = quoted g v, q_File = [], q_Repo = quoted g (value_of opts ''repo''),
     q_Tags = value_of opts ''tags'', q_FoldCase = (\<not> has_upper (quoted g v)),
     q_NotFile = quoted g (value_of opts ''-file''), q_NotRepo = quoted g (value_of opts ''-repo''),
     q_NotTags = value_of opts ''-tags'', q_MaxMatches = int32 (int n),
     q_FilenameOnly = True, q_TreenameOnly = False, q_ContextLines = 0\<rparr>"
proof -
  have ne: "opts \<noteq> []" using assms(3,4) by auto
  have "collect Map.empty opts = Inr (map_of opts)"
    using assms(1) collect_distinct[of opts Map.empty] by (simp add: fine_options_def)
  then have "ParseQuery (query_printed [] opts) g = query_of_ops (map_of opts) g"
    using parse_loop_options[OF fine_options_fine[OF assms(1)] ne] by (simp add: ParseQuery_def)
  moreover have "quoted g v \<noteq> []" "quoted g [] = []" using assms(4) by (simp_all add: quoted_def)
  ultimately show ?thesis
    using query_of_fine_options[OF assms(1,2), of "[]" "[]" "map_of opts" g] assms(3)
    by (simp add: take_over_line_def Let_def)
qed

lemma ParseQuery_file_only_witness:
  "ParseQuery ''file:a.c repo:R'' False = Inr
     \<lparr>q_Line = ''a'' @ BACKSLASH # ''.c'', q_File = '''', q_Repo = ''R'', q_Tags = '''', q_FoldCase = True,
      q_NotFile = '''', q_NotRepo = '''', q_NotTags = '''', q_MaxMatches = 0,
      q_FilenameOnly = True, q_TreenameOnly = False, q_ContextLines = 0\<rparr>"
proof -
  let ?opts = "[(''file'', ''a.c''), (''repo'', ''R'')]"
  have "fine_options ?opts"
    by (simp add: fine_options_def plain_char_def graphic_def scope_keys_def)
  moreover have "max_matches_is ?opts 0" by (simp add: max_matches_is_def)
  ultimately show ?thesis
    using ParseQuery_file_only[of ?opts 0 "''a.c''" False]
    by (simp add: query_printed_def opt_printed_def quoted_def has_upper_def QuoteMeta_def regex_meta_def)
qed

lemma ParseQuery_twice:
  assumes "list_all plain_main ws" "list_all option_fine opts" "\<not> distinct (map fst opts)"
  shows "\<exists>k\<in>fst ` set opts. ParseQuery (query_printed ws opts) g = Inl (Error (GotTermTwice k))"
proof -
  have ne: "opts \<noteq> []" using assms(3) by auto
  have "parse_loop g (init_parse (query_printed ws opts) g) =
      collect (if ws = [] then Map.empty else [[] \<mapsto> main_term ws opts]) opts"
    using parse_loop_printed[OF assms(1,2)] parse_loop_options[OF assms(2) ne] by (cases "ws = []") simp_all
  moreover obtain k where "k \<in> fst ` set opts"
    "collect (if ws = [] then Map.empty else [[] \<mapsto> main_term ws opts]) opts = Inl (Error (GotTermTwice k))"
    using collect_twice[OF assms(3)] by blast
  ultimately show ?thesis by (intro bexI[of _ k]) (simp_all add: ParseQuery_def)
qed

text \<open>
  An operator that is written twice is an error that names an operator of the query,
  whatever the words, the values and the other operators are.
\<close>

theorem ParseQuery_operator_twice:
  assumes "list_all plain_main ws" "list_all option_fine opts" "\<not> distinct (map fst opts)"
  shows "\<exists>k\<in>fst ` set opts. ParseQuery (query_printed ws opts) g = Inl (Error (GotTermTwice k))"
  using assms by (rule ParseQuery_twice)

lemma ParseQuery_operator_twice_witness:
  "ParseQuery ''x file:a tags:b file:c'' True = Inl (Error (GotTermTwice ''file'')) \<or>
   ParseQuery ''x file:a tags:b file:c'' True = Inl (Error (GotTermTwice ''tags''))"
proof -
  let ?opts = "[(''file'', ''a''), (''tags'', ''b''), (''file'', ''c'')]"
  have "list_all plain_main [''x'']" by (simp add: plain_main_def plain_char_def graphic_def)
  moreover have "list_all option_fine ?opts"
    by (simp add: option_fine_def plain_char_def graphic_def knownTags_def)
  ultimately show ?thesis
    using ParseQuery_operator_twice[of "[''x'']" ?opts True]
    by (auto simp: query_printed_def opt_printed_def)
qed

text \<open>
  C27. A trimmed ASCII query with no colon is searched for exactly as it is written: the
  groups, the character classes and the escapes of a regular expression pass through the
  tokenizer unchanged, balanced or not, and no such query is refused.
\<close>

theorem ParseQuery_no_colon:
  assumes "ascii_no_colon query" "TrimSpace query = query"
  shows "ParseQuery query g = Inr
    \<lparr>q_Line = quoted g query, q_File = [], q_Repo = [], q_Tags = [],
     q_FoldCase = (\<not> has_upper (quoted g query)), q_NotFile = [], q_NotRepo = [], q_NotTags = [],
     q_MaxMatches = 0, q_FilenameOnly = False, q_TreenameOnly = False, q_ContextLines = 0\<rparr>"
proof -
  have "parse_loop g (init_parse query g) = Inr [[] \<mapsto> query]"
    using assms parse_loop_no_colon[of "init_parse query g" g] by (simp add: init_parse_def)
  then have "ParseQuery query g = query_of_ops [[] \<mapsto> query] g"
    by (simp add: ParseQuery_def)
  also have "\<dots> = Inr
    \<lparr>q_Line = quoted g query, q_File = [], q_Repo = [], q_Tags = [],
     q_FoldCase = (\<not> has_upper (quoted g query)), q_NotFile = [], q_NotRepo = [], q_NotTags = [],
     q_MaxMatches = 0, q_FilenameOnly = False, q_TreenameOnly = False, q_ContextLines = 0\<rparr>"
    using assms(2)
    by (cases "query = []") (simp_all add: query_of_ops_def onlyOneSynonym_def main_bits_def
        map_string_def quoted_def take_over_line_def Let_def)
  finally show ?thesis .
qed

lemma ParseQuery_no_colon_witness:
  "ParseQuery ''(a [b) c'' True = Inr
    \<lparr>q_Line = ''(a [b) c'', q_File = [], q_Repo = [], q_Tags = [],
     q_FoldCase = True, q_NotFile = [], q_NotRepo = [], q_NotTags = [],
     q_MaxMatches = 0, q_FilenameOnly = False, q_TreenameOnly = False, q_ContextLines = 0\<rparr>"
proof -
  have "ascii_no_colon ''(a [b) c''" by (simp add: ascii_no_colon_def)
  moreover have "TrimSpace ''(a [b) c'' = ''(a [b) c''"
    by (rule TrimSpace_graphic) (simp_all add: graphic_def)
  ultimately show ?thesis
    using ParseQuery_no_colon[of "''(a [b) c''" True] by (simp add: quoted_def has_upper_def)
qed

text \<open>What a query that is accepted was built from.\<close>

lemma query_of_ops_accepted:
  assumes "query_of_ops ops g = Inr out"
  obtains line f nf fold i where
    "out = (take_over_line
      \<lparr>q_Line = line, q_File = quoted g f,
       q_Repo = quoted g (map_string ops ''repo''), q_Tags = map_string ops ''tags'',
       q_FoldCase = False, q_NotFile = quoted g nf,
       q_NotRepo = quoted g (map_string ops ''-repo''), q_NotTags = map_string ops ''-tags'',
       q_MaxMatches = 0, q_FilenameOnly = False, q_TreenameOnly = False, q_ContextLines = 0\<rparr>)
      \<lparr>q_FoldCase := fold, q_MaxMatches := int32 i\<rparr>"
    "line = [] \<or> line \<in> set (main_bits ops g)"
proof -
  let ?line = "case main_bits ops g of [] \<Rightarrow> [] | b # _ \<Rightarrow> b"
  have line: "?line = [] \<or> ?line \<in> set (main_bits ops g)" by (cases "main_bits ops g") simp_all
  obtain f where f: "onlyOneSynonym ops ''file'' ''path'' = Inr f"
    using assms by (auto simp: query_of_ops_def res_simps)
  obtain nf where nf: "onlyOneSynonym ops ''-file'' ''-path'' = Inr nf"
    using assms by (auto simp: query_of_ops_def res_simps)
  let ?q = "take_over_line
      \<lparr>q_Line = ?line, q_File = quoted g f,
       q_Repo = quoted g (map_string ops ''repo''), q_Tags = map_string ops ''tags'',
       q_FoldCase = False, q_NotFile = quoted g nf,
       q_NotRepo = quoted g (map_string ops ''-repo''), q_NotTags = map_string ops ''-tags'',
       q_MaxMatches = 0, q_FilenameOnly = False, q_TreenameOnly = False, q_ContextLines = 0\<rparr>"
  let ?fold = "ops ''case'' = None \<and> ops ''lit'' = None \<and> \<not> has_upper (q_Line ?q)"
  have "out = ?q\<lparr>q_FoldCase := ?fold\<rparr> \<or> (\<exists>i. out = ?q\<lparr>q_FoldCase := ?fold, q_MaxMatches := int32 i\<rparr>)"
    using assms unfolding query_of_ops_def f nf bind_res_simps Let_def quoted_def[symmetric]
    by (simp split: if_splits prod.splits option.splits) blast+
  moreover have "?q\<lparr>q_FoldCase := ?fold\<rparr> = ?q\<lparr>q_FoldCase := ?fold, q_MaxMatches := int32 0\<rparr>"
    by (simp add: take_over_line_def)
  ultimately obtain i where "out = ?q\<lparr>q_FoldCase := ?fold, q_MaxMatches := int32 i\<rparr>" by metis
  then show ?thesis by (rule that) (rule line)
qed

text \<open>
  C37. Every query that is accepted, in either mode, is one the backend can run: it is for
  names of files or of trees but never both; the field whose pattern became the line is
  empty then, and the line is not; a query without a line restricts neither files nor
  repositories; and the limit fits its 32 bits.
\<close>

theorem ParseQuery_accepted:
  assumes "ParseQuery query g = Inr out"
  shows "\<not> (q_FilenameOnly out \<and> q_TreenameOnly out) \<and>
    (q_FilenameOnly out \<longrightarrow> q_File out = [] \<and> q_Line out \<noteq> []) \<and>
    (q_TreenameOnly out \<longrightarrow> q_Repo out = [] \<and> q_File out = [] \<and> q_Line out \<noteq> []) \<and>
    (q_Line out = [] \<longrightarrow> q_File out = [] \<and> q_Repo out = []) \<and>
    - (2 ^ 31) \<le> q_MaxMatches out \<and> q_MaxMatches out < 2 ^ 31 \<and> q_ContextLines out = 0"
proof -
  obtain ops where "query_of_ops ops g = Inr out"
    using assms by (auto simp: ParseQuery_def res_simps)
  then obtain line f nf fold i where out: "out = (take_over_line
      \<lparr>q_Line = line, q_File = quoted g f,
       q_Repo = quoted g (map_string ops ''repo''), q_Tags = map_string ops ''tags'',
       q_FoldCase = False, q_NotFile = quoted g nf,
       q_NotRepo = quoted g (map_string ops ''-repo''), q_NotTags = map_string ops ''-tags'',
       q_MaxMatches = 0, q_FilenameOnly = False, q_TreenameOnly = False, q_ContextLines = 0\<rparr>)
      \<lparr>q_FoldCase := fold, q_MaxMatches := int32 i\<rparr>"
    by (rule query_of_ops_accepted)
  show ?thesis using int32_range[of i] by (simp add: out take_over_line_def)
qed

lemma ParseQuery_accepted_witness:
  "\<exists>out. ParseQuery ''x'' True = Inr out \<and> q_MaxMatches out < 2 ^ 31"
proof -
  have "TrimSpace ''x'' = ''x''" by (rule TrimSpace_graphic) (simp_all add: graphic_def)
  then have "\<exists>out. ParseQuery ''x'' True = Inr out"
    using parse_loop_no_colon[of "init_parse ''x'' True" True]
    by (simp add: ParseQuery_def init_parse_def ascii_no_colon_def query_of_ops_def onlyOneSynonym_def
        main_bits_def map_string_def Let_def)
  then obtain out where out: "ParseQuery ''x'' True = Inr out" by blast
  with ParseQuery_accepted[OF out] show ?thesis by blast
qed

lemma ParseQuery_quoted:
  assumes "ParseQuery query False = Inr out"
  shows "\<forall>p\<in>{q_Line out, q_File out, q_NotFile out, q_Repo out, q_NotRepo out}.
    regex_literal p \<noteq> None"
proof -
  obtain ops where "query_of_ops ops False = Inr out"
    using assms by (auto simp: ParseQuery_def res_simps)
  then obtain line f nf fold i where out: "out = (take_over_line
      \<lparr>q_Line = line, q_File = quoted False f,
       q_Repo = quoted False (map_string ops ''repo''), q_Tags = map_string ops ''tags'',
       q_FoldCase = False, q_NotFile = quoted False nf,
       q_NotRepo = quoted False (map_string ops ''-repo''), q_NotTags = map_string ops ''-tags'',
       q_MaxMatches = 0, q_FilenameOnly = False, q_TreenameOnly = False, q_ContextLines = 0\<rparr>)
      \<lparr>q_FoldCase := fold, q_MaxMatches := int32 i\<rparr>"
    and line: "line = [] \<or> line \<in> set (main_bits ops False)"
    by (rule query_of_ops_accepted)
  have "regex_literal line \<noteq> None"
    using line by (auto simp: main_bits_def Let_def regex_literal_QuoteMeta split: if_splits)
  then show ?thesis by (simp add: out take_over_line_def quoted_def regex_literal_QuoteMeta)
qed



end
