(* ===== verification/Config.thy ===== *)
theory Config
  imports GoStrings
begin

text \<open>
  The configuration types of \<^verbatim>\<open>server/config/config.go\<close> that the modelled code reads. A Go
  map from strings is a partial function.
\<close>

datatype Backend_config =
  Backend_config (bc_Id: string) (bc_Addr: string) (bc_MaxMessageSize: int)
    (bc_BackupBackend: "Backend_config option")

record StatsD =
  sd_Address :: string
  sd_Prefix :: string
  sd_Tags :: "string list"
  sd_TagsFormat :: string

record GoogleIAPConfig =
  iap_ProjectNumber :: string
  iap_BackendServiceID :: string
  iap_ProjectID :: string

record RepoConfig =
  rc_Path :: string
  rc_Name :: string
  rc_Revisions :: "string list"
  rc_Metadata :: "string \<rightharpoonup> string"
  rc_WalkSubmodules :: bool

record IndexConfig =
  ic_Name :: string
  ic_Repositories :: "RepoConfig list"

record LinkConfig =
  lc_Label :: string
  lc_UrlTemplate :: string
  lc_WhitelistPattern :: string

record Config =
  cfg_DocRoot :: string
  cfg_Feedback_MailTo :: string
  cfg_GoogleAnalyticsId :: string
  cfg_GoogleIAPConfig :: GoogleIAPConfig
  cfg_ReverseProxy :: bool
  cfg_Backends :: "Backend_config list"
  cfg_Listen :: string
  cfg_HeaderHTML :: string
  cfg_FooterHTML :: string
  cfg_Sentry_URI :: string
  cfg_Reload :: bool
  cfg_StatsD :: StatsD
  cfg_DefaultMaxMatches :: int
  cfg_IndexConfig :: IndexConfig
  cfg_DefaultSearchRepos :: "string list"
  cfg_LinkConfigs :: "LinkConfig list"
  cfg_ZoektRepoCache :: string
  cfg_FileviewerOnly :: bool

end
