(* ===== verification/GoRegexp.thy ===== *)
theory GoRegexp
  imports GoNumbers
begin

text \<open>
  Building blocks of the hand-translated regular expressions. In each expression of the
  program that is modelled, a repetition is followed by something that cannot begin with a
  byte of the repetition, so matching takes every repetition as long as it goes and never
  has to go back. A matcher returns what is left after the match.
\<close>

definition is_word :: "char \<Rightarrow> bool" where
  "is_word c \<longleftrightarrow> is_digit c \<or> c = CHR ''_'' \<or>
     (65 \<le> (of_char c :: nat) \<and> (of_char c :: nat) \<le> 90) \<or>
     (97 \<le> (of_char c :: nat) \<and> (of_char c :: nat) \<le> 122)"

definition is_ws :: "char \<Rightarrow> bool" where
  "is_ws c \<longleftrightarrow> c \<in> {TAB, NL, CHR 0x0C, CR, CHR '' ''}"

definition is_hex :: "char \<Rightarrow> bool" where
  "is_hex c \<longleftrightarrow> is_digit c \<or> (97 \<le> (of_char c :: nat) \<and> (of_char c :: nat) \<le> 102)"

definition after_lit :: "string \<Rightarrow> string \<Rightarrow> string option" where
  "after_lit p s = (if HasPrefix s p then Some (drop (length p) s) else None)"

definition after_ws :: "string \<Rightarrow> string option" where
  "after_ws s = (case s of c # t \<Rightarrow> if is_ws c then Some t else None | [] \<Rightarrow> None)"

definition match_digits :: "string \<Rightarrow> (string \<times> string) option" where
  "match_digits s =
     (let d = takeWhile is_digit s in if d = [] then None else Some (d, dropWhile is_digit s))"

text \<open>\<^verbatim>\<open>[0-9a-f]{n}\<close>\<close>

definition match_hex :: "nat \<Rightarrow> string \<Rightarrow> (string \<times> string) option" where
  "match_hex n s =
     (if n \<le> length s \<and> list_all is_hex (take n s) then Some (take n s, drop n s) else None)"

lemma after_lit_SomeD: "after_lit p s = Some t \<Longrightarrow> s = p @ t"
  by (auto simp: after_lit_def HasPrefix_iff split: if_splits)

lemma after_ws_SomeD: "after_ws s = Some t \<Longrightarrow> \<exists>c. s = c # t"
  by (auto simp: after_ws_def split: list.splits if_splits)

lemma dropWhile_ConsD: "dropWhile P s = c # t \<Longrightarrow> \<exists>w. s = w @ c # t"
  by (metis takeWhile_dropWhile_id)

lemma word_span:
  assumes "list_all is_word w" "\<not> is_word x"
  shows "takeWhile is_word (w @ x # s) = w" "dropWhile is_word (w @ x # s) = x # s"
  using assms by (induction w) auto

lemma after_lit_append [simp]: "after_lit p (p @ s) = Some s"
  by (simp add: after_lit_def)

lemma after_ws_blank [simp]: "after_ws (CHR '' '' # s) = Some s"
  by (simp add: after_ws_def is_ws_def)

lemma match_digits_nat:
  assumes "s = [] \<or> \<not> is_digit (hd s)"
  shows "match_digits (string_of_nat n @ s) = Some (string_of_nat n, s)"
proof -
  have "takeWhile is_digit s = []" "dropWhile is_digit s = s" using assms by (cases s; auto)+
  moreover have "\<forall>c \<in> set (string_of_nat n). is_digit c" by (simp add: string_of_nat_digits)
  ultimately show ?thesis
    by (simp add: match_digits_def Let_def)
qed

lemma match_hex_append:
  "length h = n \<Longrightarrow> list_all is_hex h \<Longrightarrow> match_hex n (h @ s) = Some (h, s)"
  by (simp add: match_hex_def)

end
