(* ===== verification/GoUrl.thy ===== *)
theory GoUrl
  imports GoRegexp GoText
begin

text \<open>
  What the program uses of Go's \<^verbatim>\<open>net/url\<close>: whether \<^verbatim>\<open>url.ParseRequestURI\<close> accepts a string,
  the host name \<^verbatim>\<open>url.Parse\<close> finds,
  \<^verbatim>\<open>url.QueryEscape\<close>, and the query parameters \<^verbatim>\<open>url.Values\<close> with their encoding.
\<close>

section \<open>ParseRequestURI\<close>

definition is_letter :: "char \<Rightarrow> bool" where
  "is_letter c \<longleftrightarrow> (65 \<le> byte c \<and> byte c \<le> 90) \<or> (97 \<le> byte c \<and> byte c \<le> 122)"

definition is_hex_any :: "char \<Rightarrow> bool" where
  "is_hex_any c \<longleftrightarrow> is_hex c \<or> (65 \<le> byte c \<and> byte c \<le> 70)"

definition unhex :: "char \<Rightarrow> nat" where
  "unhex c = (if is_digit c then byte c - 48 else if 97 \<le> byte c then byte c - 87 else byte c - 55)"

text \<open>The scheme and the rest, or \<open>None\<close> for \<^verbatim>\<open>missing protocol scheme\<close>.\<close>

fun getScheme :: "string \<Rightarrow> string \<Rightarrow> string \<Rightarrow> (string \<times> string) option" where
  "getScheme raw pre [] = Some ([], raw)"
| "getScheme raw pre (c # s) =
     (if is_letter c then getScheme raw (pre @ [c]) s
      else if is_digit c \<or> c \<in> set ''+-.'' then
        (if pre = [] then Some ([], raw) else getScheme raw (pre @ [c]) s)
      else if c = CHR '':'' then (if pre = [] then None else Some (pre, s))
      else Some ([], raw))"

datatype escape_mode = EncodePath | EncodeHost | EncodeZone | EncodeUserPassword

text \<open>\<^verbatim>\<open>shouldEscape\<close> in a host or a zone.\<close>

definition host_escape :: "char \<Rightarrow> bool" where
  "host_escape c \<longleftrightarrow>
     \<not> (is_letter c \<or> is_digit c \<or> c \<in> set ''-_.~'' \<or> c \<in> set ''!$&()*+,;=:[]<>'' \<or>
        c = CHR 0x27 \<or> c = QUOTE)"

fun unescape_ok :: "escape_mode \<Rightarrow> string \<Rightarrow> bool" where
  "unescape_ok mode [] = True"
| "unescape_ok mode (c # s) =
     (if c = CHR ''%'' then
        (case s of
           h # l # t \<Rightarrow>
             is_hex_any h \<and> is_hex_any l \<and>
             (mode = EncodeHost \<and> unhex h < 8 \<longrightarrow> [h, l] = ''25'') \<and>
             (mode = EncodeZone \<longrightarrow> [h, l] = ''25'' \<or> unhex h * 16 + unhex l = 0x20 \<or>
                \<not> host_escape (char_of (unhex h * 16 + unhex l))) \<and>
             unescape_ok mode t
         | _ \<Rightarrow> False)
      else
        \<not> ((mode = EncodeHost \<or> mode = EncodeZone) \<and> byte c < 0x80 \<and> host_escape c) \<and>
        unescape_ok mode s)"

definition validOptionalPort :: "string \<Rightarrow> bool" where
  "validOptionalPort port \<longleftrightarrow>
     (case port of [] \<Rightarrow> True | c # s \<Rightarrow> c = CHR '':'' \<and> list_all is_digit s)"

definition parseHost_ok :: "string \<Rightarrow> bool" where
  "parseHost_ok host =
     (if HasPrefix host ''['' then
        (let i = nat (LastIndexByte host (CHR '']'')) in
         if CHR '']'' \<notin> set host then False
         else validOptionalPort (drop (i + 1) host) \<and>
           (case index_opt (take i host) ''%25'' of
              Some z \<Rightarrow> unescape_ok EncodeHost (take z host) \<and>
                unescape_ok EncodeZone (drop z (take i host)) \<and> unescape_ok EncodeHost (drop i host)
            | None \<Rightarrow> unescape_ok EncodeHost host))
      else
        (CHR '':'' \<in> set host \<longrightarrow> validOptionalPort (drop (nat (LastIndexByte host (CHR '':''))) host)) \<and>
        unescape_ok EncodeHost host)"

definition validUserinfo :: "string \<Rightarrow> bool" where
  "validUserinfo s \<longleftrightarrow>
     list_all (\<lambda>c. is_letter c \<or> is_digit c \<or> c \<in> set ''-._:~!$&()*+,;=%@'' \<or> c = CHR 0x27) s"

definition parseAuthority_ok :: "string \<Rightarrow> bool" where
  "parseAuthority_ok authority =
     (if CHR ''@'' \<notin> set authority then parseHost_ok authority
      else let i = nat (LastIndexByte authority (CHR ''@'')); userinfo = take i authority
        in parseHost_ok (drop (i + 1) authority) \<and> validUserinfo userinfo \<and>
          (case Cut (CHR '':'') userinfo of
             None \<Rightarrow> unescape_ok EncodeUserPassword userinfo
           | Some (u, p) \<Rightarrow> unescape_ok EncodeUserPassword u \<and> unescape_ok EncodeUserPassword p))"

definition cut_query :: "string \<Rightarrow> string" where
  "cut_query rest =
     (if HasSuffix rest ''?'' \<and> count_list rest (CHR ''?'') = 1 then butlast rest
      else takeWhile (\<lambda>c. c \<noteq> CHR ''?'') rest)"

definition hierarchy_ok :: "string \<Rightarrow> string \<Rightarrow> bool" where
  "hierarchy_ok scheme rest =
     (if \<not> HasPrefix rest ''/'' then scheme \<noteq> []
      else if scheme \<noteq> [] \<and> HasPrefix rest ''//'' then
        parseAuthority_ok (takeWhile (\<lambda>c. c \<noteq> CHR ''/'') (drop 2 rest)) \<and>
        unescape_ok EncodePath (dropWhile (\<lambda>c. c \<noteq> CHR ''/'') (drop 2 rest))
      else unescape_ok EncodePath rest)"

definition ParseRequestURI_ok :: "string \<Rightarrow> bool" where
  "ParseRequestURI_ok raw =
     (if \<not> list_all (\<lambda>c. 0x20 \<le> byte c \<and> byte c \<noteq> 0x7F) raw \<or> raw = [] then False
      else if raw = ''*'' then True
      else case getScheme raw [] raw of
          None \<Rightarrow> False
        | Some (scheme, rest) \<Rightarrow> hierarchy_ok scheme (cut_query rest))"

lemma list_all_notin: "list_all P s \<Longrightarrow> \<not> P c \<Longrightarrow> c \<notin> set s"
  by (auto simp: list_all_iff)

lemma takeWhile_upto: "c \<notin> set s \<Longrightarrow> takeWhile (\<lambda>x. x \<noteq> c) (s @ c # t) = s"
  by (induction s) auto

lemma dropWhile_upto: "c \<notin> set s \<Longrightarrow> dropWhile (\<lambda>x. x \<noteq> c) (s @ c # t) = c # t"
  by (induction s) auto

lemma cut_query_none:
  assumes "CHR ''?'' \<notin> set s"
  shows "cut_query s = s"
proof -
  have "takeWhile (\<lambda>c. c \<noteq> CHR ''?'') s = s" using assms by (induction s) auto
  then show ?thesis using assms by (simp add: cut_query_def count_list_0_iff)
qed

text \<open>A name such as \<open>owner/project\<close> is no request URI.\<close>

lemma getScheme_no_colon: "CHR '':'' \<notin> set s \<Longrightarrow> getScheme raw pre s = Some ([], raw)"
  by (induction s arbitrary: pre) auto

lemma ParseRequestURI_relative:
  assumes "CHR '':'' \<notin> set s" "CHR ''?'' \<notin> set s" "s \<noteq> ''*''" "\<not> HasPrefix s ''/''"
  shows "\<not> ParseRequestURI_ok s"
  using assms by (simp add: ParseRequestURI_ok_def getScheme_no_colon hierarchy_ok_def cut_query_none)

text \<open>An address of plain characters is one.\<close>

definition url_plain :: "char \<Rightarrow> bool" where
  "url_plain c \<longleftrightarrow> is_letter c \<or> is_digit c \<or> c \<in> set ''-_.''"

lemma url_plain_simps [simp]:
  "\<not> url_plain CHR ''%''" "\<not> url_plain CHR '':''" "\<not> url_plain CHR ''?''" "\<not> url_plain CHR ''/''"
  "\<not> url_plain CHR ''@''" "\<not> url_plain CHR ''[''"
  by (simp_all add: url_plain_def is_letter_def is_digit_def)

lemma url_plain_byte: "url_plain c \<Longrightarrow> 0x20 \<le> byte c \<and> byte c \<noteq> 0x7F"
  by (auto simp: url_plain_def is_letter_def is_digit_def)

lemma url_plain_host: "url_plain c \<Longrightarrow> \<not> host_escape c"
  by (auto simp: url_plain_def host_escape_def)

lemma unescape_ok_host: "list_all url_plain s \<Longrightarrow> unescape_ok EncodeHost s"
proof (induction s)
  case (Cons c s)
  then have "c \<noteq> CHR ''%''" by auto
  with Cons show ?case by (simp add: url_plain_host)
qed simp

lemma unescape_ok_path: "CHR ''%'' \<notin> set s \<Longrightarrow> unescape_ok EncodePath s"
  by (induction s) auto

lemma ParseRequestURI_https:
  assumes "list_all url_plain host" "list_all (\<lambda>c. url_plain c \<or> c = CHR ''/'') p"
  shows "ParseRequestURI_ok (''https://'' @ host @ CHR ''/'' # p)"
proof -
  let ?rest = "CHR ''/'' # CHR ''/'' # host @ CHR ''/'' # p"
  have scheme: "getScheme raw [] (''https:'' @ ?rest) = Some (''https'', ?rest)" for raw
    by (simp add: is_letter_def)
  have host: "CHR ''/'' \<notin> set host" "CHR ''@'' \<notin> set host" "CHR '':'' \<notin> set host"
    "CHR ''?'' \<notin> set host" "CHR ''['' \<notin> set host"
    by (rule list_all_notin[OF assms(1)], simp)+
  have p: "CHR ''?'' \<notin> set p" "CHR ''%'' \<notin> set p"
    by (rule list_all_notin[OF assms(2)], simp)+
  have "cut_query ?rest = ?rest" using host p by (intro cut_query_none) simp
  moreover have "list_all (\<lambda>c. 0x20 \<le> byte c \<and> byte c \<noteq> 0x7F) (host @ CHR ''/'' # p)"
    using assms by (auto simp: list_all_iff dest: url_plain_byte)
  moreover have "parseAuthority_ok host"
    using host assms(1)
    by (simp add: parseAuthority_ok_def parseHost_ok_def unescape_ok_host HasPrefix_iff) (cases host; auto)
  moreover have "unescape_ok EncodePath (CHR ''/'' # p)" using p by (intro unescape_ok_path) simp
  moreover have "hierarchy_ok ''https'' ?rest =
      (parseAuthority_ok host \<and> unescape_ok EncodePath (CHR ''/'' # p))"
    using takeWhile_upto[OF host(1), of p] dropWhile_upto[OF host(1), of p]
    by (simp add: hierarchy_ok_def del: takeWhile.simps dropWhile.simps)
  ultimately have "ParseRequestURI_ok (''https:'' @ ?rest)"
    unfolding ParseRequestURI_ok_def scheme by simp
  then show ?thesis by simp
qed

section \<open>The host name of an address\<close>

text \<open>
  \<^verbatim>\<open>url.Parse\<close> followed by \<^verbatim>\<open>Hostname\<close>: \<open>None\<close> where the address does not parse, and no
  name where it has no authority.
\<close>

fun url_unescape :: "string \<Rightarrow> string" where
  "url_unescape [] = []"
| "url_unescape (c # s) =
     (case s of
        h # l # t \<Rightarrow>
          if c = CHR ''%'' then char_of (unhex h * 16 + unhex l) # url_unescape t
          else c # url_unescape s
      | _ \<Rightarrow> c # url_unescape s)"

definition authority_host :: "string \<Rightarrow> string" where
  "authority_host authority =
     url_unescape (if CHR ''@'' \<in> set authority
       then drop (nat (LastIndexByte authority (CHR ''@'')) + 1) authority else authority)"

definition strip_port :: "string \<Rightarrow> string" where
  "strip_port hostPort =
     (let host = (if CHR '':'' \<in> set hostPort \<and>
                     validOptionalPort (drop (nat (LastIndexByte hostPort (CHR '':''))) hostPort)
                  then take (nat (LastIndexByte hostPort (CHR '':''))) hostPort else hostPort)
      in if HasPrefix host ''['' \<and> HasSuffix host '']'' then butlast (tl host) else host)"

definition rest_host :: "string \<Rightarrow> string \<Rightarrow> string option" where
  "rest_host scheme rest =
     (if \<not> HasPrefix rest ''/'' \<and> scheme \<noteq> [] then Some []
      else if \<not> HasPrefix rest ''/'' \<and> CHR '':'' \<in> set (takeWhile (\<lambda>c. c \<noteq> CHR ''/'') rest) then None
      else if HasPrefix rest ''//'' \<and> (scheme \<noteq> [] \<or> \<not> HasPrefix rest ''///'') then
        (let authority = takeWhile (\<lambda>c. c \<noteq> CHR ''/'') (drop 2 rest) in
         if parseAuthority_ok authority \<and> unescape_ok EncodePath (dropWhile (\<lambda>c. c \<noteq> CHR ''/'') (drop 2 rest))
         then Some (strip_port (authority_host authority)) else None)
      else if unescape_ok EncodePath rest then Some [] else None)"

definition url_Hostname :: "string \<Rightarrow> string option" where
  "url_Hostname raw =
     (let u = takeWhile (\<lambda>c. c \<noteq> CHR ''#'') raw; frag = drop (length u + 1) raw in
      if \<not> list_all (\<lambda>c. 0x20 \<le> byte c \<and> byte c \<noteq> 0x7F) u then None
      else if u = ''*'' then Some []
      else case getScheme u [] u of
          None \<Rightarrow> None
        | Some (scheme, rest) \<Rightarrow>
            if unescape_ok EncodePath frag then rest_host scheme (cut_query rest) else None)"

section \<open>Query parameters\<close>

definition upper_hex :: "nat \<Rightarrow> char" where
  "upper_hex d = (if d < 10 then char_of (48 + d) else char_of (55 + d))"

definition QueryEscape :: "string \<Rightarrow> string" where
  "QueryEscape s = concat (map (\<lambda>c.
     if is_letter c \<or> is_digit c \<or> c \<in> set ''-_.~'' then [c]
     else if c = CHR '' '' then ''+''
     else [CHR ''%'', upper_hex (byte c div 16), upper_hex (byte c mod 16)]) s)"

text \<open>\<^verbatim>\<open>url.Values\<close>: each key once, with all its values.\<close>

type_synonym url_Values = "(string \<times> string list) list"

definition values_Get :: "url_Values \<Rightarrow> string \<Rightarrow> string" where
  "values_Get vs k = (case map_of vs k of Some (v # _) \<Rightarrow> v | _ \<Rightarrow> [])"

fun values_Set :: "url_Values \<Rightarrow> string \<Rightarrow> string \<Rightarrow> url_Values" where
  "values_Set [] k v = [(k, [v])]"
| "values_Set ((k', vs') # vs) k v =
     (if k = k' then (k, [v]) # vs else (k', vs') # values_Set vs k v)"

definition values_Encode :: "url_Values \<Rightarrow> string" where
  "values_Encode vs =
     join ''&'' (concat (map (\<lambda>(k, xs). map (\<lambda>x. QueryEscape k @ CHR ''='' # QueryEscape x) xs)
       (sort_less (\<lambda>a b. bytes_less (fst a) (fst b)) vs)))"

lemma values_Get_Set [simp]: "values_Get (values_Set vs k v) k = v"
proof -
  have "map_of (values_Set vs k v) k = Some [v]" by (induction vs k v rule: values_Set.induct) simp_all
  then show ?thesis by (simp add: values_Get_def)
qed

end
