(* ===== verification/Backends.thy ===== *)
theory Backends
  imports Config GoUrl
begin

text \<open>
  The connections to the search backends, \<^verbatim>\<open>server/backend.go\<close>: opening a backend and its
  backups, the polling loop that keeps its availability and its index information, and the
  status page. The gRPC library is a parameter: \<open>dial\<close> opens a connection, and each round of
  the loop takes the replies of \<^verbatim>\<open>QuickInfo\<close> and \<^verbatim>\<open>Info\<close>.
\<close>

section \<open>State\<close>

text \<open>
  A \<^verbatim>\<open>time.Time\<close> is its nanoseconds since the Unix epoch; \<open>zero_time\<close> is \<^verbatim>\<open>time.Time{}\<close>,
  the first instant of the year 1.
\<close>

definition zero_time :: int where "zero_time = - 62135596800 * 1000000000"

definition time_Unix :: "int \<Rightarrow> int" where "time_Unix secs = secs * 1000000000"

record Tree =
  t_Name :: string
  t_Version :: string
  t_Url :: string

record I =
  i_Name :: string
  i_Trees :: "Tree list"
  i_IndexTime :: int

record Availability =
  av_IsUp :: bool
  av_DownSince :: int
  av_DownCode :: nat

text \<open>
  A backend; \<open>bk_client\<close> is the connection, which \<^verbatim>\<open>GrpcClient\<close> and the stub \<^verbatim>\<open>Codesearch\<close>
  share, and \<open>bk_polling\<close> tells whether \<^verbatim>\<open>Start\<close> has spawned the polling loop.
\<close>

datatype 'c Backend = Backend
  (bk_Id: string) (bk_Addr: string) (bk_I: I) (bk_client: 'c) (bk_Up: Availability)
  (bk_BackupBackend: "'c Backend option") (bk_IsBackup: bool) (bk_polling: bool)

text \<open>The replies of the backend, from \<^verbatim>\<open>src/proto\<close>; an absent sub-message is \<open>None\<close>.\<close>

record tree_Metadata =
  md_UrlPattern :: string
  md_Github :: string
  md_Labels :: "string list"

record info_Tree =
  it_Name :: string
  it_Version :: string
  it_Metadata :: "tree_Metadata option"

record ServerInfo =
  si_Name :: string
  si_Trees :: "info_Tree list"
  si_IndexTime :: int

section \<open>Opening a backend\<close>

fun set_IsBackup :: "'c Backend \<Rightarrow> 'c Backend" where
  "set_IsBackup (Backend i a info c u b _ p) = Backend i a info c u b True p"

fun Start :: "'c Backend \<Rightarrow> 'c Backend" where
  "Start (Backend i a info c u b k _) = Backend i a info c u b k True"

definition new_I :: "string \<Rightarrow> I" where
  "new_I name = \<lparr>i_Name = name, i_Trees = [], i_IndexTime = zero_time\<rparr>"

definition new_Availability :: Availability where
  "new_Availability = \<lparr>av_IsUp = False, av_DownSince = zero_time, av_DownCode = 0\<rparr>"

text \<open>The recursive call's error is looked at only after its nil result was dereferenced.\<close>

fun NewBackend :: "(string \<Rightarrow> int \<Rightarrow> 'e + 'c) \<Rightarrow> Backend_config \<Rightarrow> ('e, 'c Backend) res" where
  "NewBackend dial (Backend_config i addr maxSize backup) =
     (let size = (if maxSize = 0 then 10 * 2 ^ 20 else maxSize) in
      case dial addr size of
        Inl e \<Rightarrow> Inl (Error e)
      | Inr client \<Rightarrow>
          bind_res
            (case backup of
               None \<Rightarrow> Inr None
             | Some b \<Rightarrow>
                 if bc_Addr b = [] then Inr None
                 else (case NewBackend dial b of
                     Inl (Error e) \<Rightarrow> Inl (Panic NilDereference)
                   | Inl (Panic p) \<Rightarrow> Inl (Panic p)
                   | Inr bk \<Rightarrow> Inr (Some (Start (set_IsBackup bk)))))
            (\<lambda>backupBk. Inr (Backend i addr (new_I i) client new_Availability backupBk False False)))"

section \<open>Polling\<close>

text \<open>\<^verbatim>\<open>refresh\<close>: the trees are replaced only by a list that is not empty.\<close>

definition tree_pattern :: "tree_Metadata \<Rightarrow> string" where
  "tree_pattern md =
     (if md_Github md \<noteq> [] then
        (if ParseRequestURI_ok (md_Github md) then md_Github md
         else ''https://github.com/'' @ md_Github md) @ ''/blob/{version}/{path}#L{lno}''
      else md_UrlPattern md)"

definition refresh_tree :: "info_Tree \<Rightarrow> (unit, Tree) res" where
  "refresh_tree r =
     (case it_Metadata r of
        None \<Rightarrow> Inl (Panic NilDereference)
      | Some md \<Rightarrow> Inr \<lparr>t_Name = it_Name r, t_Version = it_Version r, t_Url = tree_pattern md\<rparr>)"

definition refresh :: "ServerInfo \<Rightarrow> I \<Rightarrow> (unit, I) res" where
  "refresh info i =
     (let i = (if si_Name info \<noteq> [] then i\<lparr>i_Name := si_Name info\<rparr> else i);
          i = i\<lparr>i_IndexTime := time_Unix (si_IndexTime info)\<rparr>
      in if si_Trees info \<noteq> [] then
           bind_res (map_res refresh_tree (si_Trees info)) (\<lambda>ts. Inr (i\<lparr>i_Trees := ts\<rparr>))
         else Inr i)"

definition getInfo :: "nat + ServerInfo \<Rightarrow> I \<Rightarrow> (unit, I) res" where
  "getInfo reply i = (case reply of Inl code \<Rightarrow> Inr i | Inr info \<Rightarrow> refresh info i)"

text \<open>
  One round of \<^verbatim>\<open>poll\<close>: the clock, what \<^verbatim>\<open>QuickInfo\<close> says (an error's code, or the time of
  the index), and what \<^verbatim>\<open>Info\<close> would say if it is asked.
\<close>

record poll_round =
  pr_now :: int
  pr_quick :: "nat + int"
  pr_info :: "nat + ServerInfo"

definition wants_info :: "I \<Rightarrow> Availability \<Rightarrow> int \<Rightarrow> bool" where
  "wants_info i up quickTime \<longleftrightarrow> \<not> av_IsUp up \<or> i_IndexTime i < time_Unix quickTime"

definition poll_step :: "poll_round \<Rightarrow> I \<times> Availability \<Rightarrow> (unit, I \<times> Availability) res" where
  "poll_step r = (\<lambda>(i, up).
     (case pr_quick r of
        Inr quickTime \<Rightarrow>
          bind_res (if wants_info i up quickTime then getInfo (pr_info r) i else Inr i)
            (\<lambda>i'. Inr (i', \<lparr>av_IsUp = True, av_DownSince = zero_time, av_DownCode = 0\<rparr>))
      | Inl code \<Rightarrow>
          if av_IsUp up \<or> av_DownSince up = zero_time then
            Inr (i, \<lparr>av_IsUp = False, av_DownSince = pr_now r, av_DownCode = code\<rparr>)
          else Inr (i, up)))"

fun poll :: "poll_round list \<Rightarrow> I \<times> Availability \<Rightarrow> (unit, I \<times> Availability) res" where
  "poll [] s = Inr s"
| "poll (r # rs) s = bind_res (poll_step r s) (poll rs)"

section \<open>Status\<close>

datatype conn_state = ConnIdle | ConnConnecting | ConnReady | ConnTransientFailure | ConnShutdown

definition grpcReadyOrIdle :: "('c \<Rightarrow> conn_state) \<Rightarrow> 'c Backend \<Rightarrow> bool" where
  "grpcReadyOrIdle GetState bk \<longleftrightarrow>
     GetState (bk_client bk) = ConnReady \<or> GetState (bk_client bk) = ConnIdle"

text \<open>\<^verbatim>\<open>d.Round(time.Minute)\<close>, half away from zero; the printed form of a duration is not modelled.\<close>

definition round_minute :: "int \<Rightarrow> int" where
  "round_minute d = (let m = 60000000000 in
     if d < 0 then - (((- d) + m div 2) div m * m) else (d + m div 2) div m * m)"

record BackendStatus =
  bs_GrpcStatus :: conn_state
  bs_IndexAge :: "int option"
  bs_IndexName :: string
  bs_Up :: Availability
  bs_Bu :: "(conn_state \<times> int option \<times> string \<times> Availability) option"

definition index_age :: "('c \<Rightarrow> conn_state) \<Rightarrow> int \<Rightarrow> 'c Backend \<Rightarrow> int option" where
  "index_age GetState now bk =
     (if grpcReadyOrIdle GetState bk then Some (round_minute (now - i_IndexTime (bk_I bk))) else None)"

definition getStatus :: "('c \<Rightarrow> conn_state) \<Rightarrow> int \<Rightarrow> 'c Backend \<Rightarrow> BackendStatus" where
  "getStatus GetState now bk =
     \<lparr>bs_GrpcStatus = GetState (bk_client bk), bs_IndexAge = index_age GetState now bk,
      bs_IndexName = i_Name (bk_I bk), bs_Up = bk_Up bk,
      bs_Bu = map_option (\<lambda>bu. (GetState (bk_client bu), index_age GetState now bu, bk_Id bu, bk_Up bu))
        (bk_BackupBackend bk)\<rparr>"

section \<open>Availability\<close>

text \<open>
  What the availability of a backend means: nothing is wrong after a success; otherwise the
  outage began with the first failure after the last success.
\<close>

definition failed :: "poll_round \<Rightarrow> bool" where
  "failed r \<longleftrightarrow> (\<exists>code. pr_quick r = Inl code)"

definition trailing_failures :: "poll_round list \<Rightarrow> poll_round list" where
  "trailing_failures rs = rev (takeWhile failed (rev rs))"

definition availability_spec :: "poll_round list \<Rightarrow> Availability" where
  "availability_spec rs =
     (case trailing_failures rs of
        [] \<Rightarrow> \<lparr>av_IsUp = True, av_DownSince = zero_time, av_DownCode = 0\<rparr>
      | r # _ \<Rightarrow> \<lparr>av_IsUp = False, av_DownSince = pr_now r,
                  av_DownCode = (case pr_quick r of Inl code \<Rightarrow> code | Inr t \<Rightarrow> 0)\<rparr>)"

lemma trailing_failures_snoc:
  "trailing_failures (rs @ [r]) = (if failed r then trailing_failures rs @ [r] else [])"
  by (simp add: trailing_failures_def)

lemma poll_append: "poll (rs @ rs') s = bind_res (poll rs s) (poll rs')"
  by (induction rs arbitrary: s) (simp_all add: bind_res_def split: sum.splits)

lemma poll_snoc: "poll (rs @ [r]) s = bind_res (poll rs s) (poll_step r)"
  by (simp add: poll_append bind_res_def split: sum.splits)

lemma trailing_failures_in: "set (trailing_failures rs) \<subseteq> set rs"
  using set_takeWhileD[of _ failed "rev rs"] by (auto simp: trailing_failures_def)

lemma poll_step_availability:
  assumes "poll_step r (i, up) = Inr (i', up')"
    and "up = new_Availability \<and> rs = [] \<or> rs \<noteq> [] \<and> up = availability_spec rs"
    and "\<forall>r\<in>set rs. pr_now r \<noteq> zero_time"
  shows "up' = availability_spec (rs @ [r])"
proof (cases "pr_quick r")
  case (Inr t)
  then show ?thesis
    using assms(1) by (auto simp: poll_step_def res_simps availability_spec_def trailing_failures_snoc failed_def)
next
  case (Inl code)
  then have f: "failed r" by (simp add: failed_def)
  show ?thesis
  proof (cases "trailing_failures rs")
    case Nil
    then have "av_IsUp up \<or> av_DownSince up = zero_time"
      using assms(2) by (auto simp: new_Availability_def availability_spec_def)
    with Nil Inl f assms(1) show ?thesis
      by (auto simp: poll_step_def availability_spec_def trailing_failures_snoc)
  next
    case (Cons r0 more)
    then have "rs \<noteq> []" by (auto simp: trailing_failures_def)
    then have "up = availability_spec rs" using assms(2) by blast
    moreover have "pr_now r0 \<noteq> zero_time" using assms(3) trailing_failures_in[of rs] Cons by auto
    ultimately show ?thesis
      using Cons Inl f assms(1)
      by (auto simp: poll_step_def availability_spec_def trailing_failures_snoc)
  qed
qed

text \<open>
  C18. After any rounds of polling, the availability that the status page and the searches
  see is the specified one: up exactly after a successful round, and in an outage the time
  and the error code of its first failure, however long it lasts and whatever the earlier
  history was.
\<close>

theorem poll_availability:
  assumes "poll rs (i, new_Availability) = Inr (i', up)" "rs \<noteq> []"
    and "\<forall>r\<in>set rs. pr_now r \<noteq> zero_time"
  shows "up = availability_spec rs"
  using assms
proof (induction rs arbitrary: i' up rule: rev_induct)
  case (snoc r rs)
  obtain i1 up1 where prev: "poll rs (i, new_Availability) = Inr (i1, up1)"
    and step: "poll_step r (i1, up1) = Inr (i', up)"
    using snoc.prems(1) by (auto simp: poll_snoc res_simps)
  have "up1 = new_Availability \<and> rs = [] \<or> rs \<noteq> [] \<and> up1 = availability_spec rs"
    using prev snoc by (cases "rs = []") auto
  then show ?case using snoc.prems(3) by (intro poll_step_availability[OF step]) auto
qed simp

lemma poll_availability_witness:
  "(poll [\<lparr>pr_now = 1, pr_quick = Inr 5, pr_info = Inl 14\<rparr>, \<lparr>pr_now = 2, pr_quick = Inl 14, pr_info = Inl 0\<rparr>,
      \<lparr>pr_now = 3, pr_quick = Inl 4, pr_info = Inl 0\<rparr>] (new_I ''x'', new_Availability)
   ) =
     Inr (new_I ''x'', \<lparr>av_IsUp = False, av_DownSince = 2, av_DownCode = 14\<rparr>)"
proof -
  let ?rs = "[\<lparr>pr_now = 1, pr_quick = Inr 5, pr_info = Inl 14\<rparr>, \<lparr>pr_now = 2, pr_quick = Inl 14, pr_info = Inl 0\<rparr>,
      \<lparr>pr_now = 3, pr_quick = Inl 4, pr_info = Inl 0\<rparr>]"
  have "\<exists>up. (poll ?rs (new_I ''x'', new_Availability)) =
      Inr (new_I ''x'', up)"
    by (simp add: poll_step_def getInfo_def new_Availability_def zero_time_def)
  then obtain up where up: "(poll ?rs (new_I ''x'', new_Availability)) =
      Inr (new_I ''x'', up)" by blast
  moreover have "up = availability_spec ?rs"
    by (rule poll_availability[OF up]) (simp_all add: zero_time_def)
  moreover have "availability_spec ?rs = \<lparr>av_IsUp = False, av_DownSince = 2, av_DownCode = 14\<rparr>"
    by (simp add: availability_spec_def trailing_failures_def failed_def)
  ultimately show ?thesis by simp
qed

section \<open>Freshness\<close>

lemma refresh_IndexTime:
  "refresh info i = Inr i' \<Longrightarrow> i_IndexTime i' = time_Unix (si_IndexTime info)"
  by (auto simp: refresh_def Let_def res_simps split: if_splits)

lemma poll_step_IndexTime:
  assumes "poll_step r (i, up) = Inr (i', up')"
    and "\<forall>info. pr_info r = Inr info \<longrightarrow> si_IndexTime info \<le> t"
    and "i_IndexTime i \<le> time_Unix t"
  shows "i_IndexTime i' \<le> time_Unix t"
  using assms
  by (auto simp: poll_step_def res_simps getInfo_def time_Unix_def dest!: refresh_IndexTime
      split: sum.splits if_splits)

lemma poll_IndexTime:
  assumes "poll rs (i, up) = Inr (i', up')"
    and "\<forall>r\<in>set rs. \<forall>info. pr_info r = Inr info \<longrightarrow> si_IndexTime info \<le> t"
    and "i_IndexTime i \<le> time_Unix t"
  shows "i_IndexTime i' \<le> time_Unix t"
  using assms
proof (induction rs arbitrary: i up)
  case (Cons r rs)
  then obtain i1 up1 where "poll_step r (i, up) = Inr (i1, up1)" "poll rs (i1, up1) = Inr (i', up')"
    by (auto simp: res_simps)
  moreover from this have "i_IndexTime i1 \<le> time_Unix t"
    using Cons.prems(2,3) by (intro poll_step_IndexTime[of r i up i1 up1 t]) simp_all
  ultimately show ?case using Cons.IH Cons.prems(2) by simp
qed simp

text \<open>
  As long as the index times that a backend reports do not go back, a round in which
  both calls succeed leaves the server with the time of the newest index: at start, after
  an outage, and after a reload alike, whatever failed before.
\<close>

theorem poll_fresh:
  assumes "poll (rs @ [r]) (new_I name, new_Availability) = Inr (i', up)"
    and "\<forall>r\<in>set rs. \<forall>info. pr_info r = Inr info \<longrightarrow> si_IndexTime info \<le> t"
    and "pr_quick r = Inr t" "pr_info r = Inr info" "si_IndexTime info = t" "zero_time \<le> time_Unix t"
  shows "i_IndexTime i' = time_Unix t"
proof -
  obtain i1 up1 where prev: "poll rs (new_I name, new_Availability) = Inr (i1, up1)"
    and step: "poll_step r (i1, up1) = Inr (i', up)"
    using assms(1) by (auto simp: poll_snoc res_simps)
  have le: "i_IndexTime i1 \<le> time_Unix t"
    using assms(6) by (intro poll_IndexTime[OF prev assms(2)]) (simp add: new_I_def)
  show ?thesis
  proof (cases "wants_info i1 up1 t")
    case True
    then have "refresh info i1 = Inr i'"
      using step assms(3,4) by (auto simp: poll_step_def getInfo_def res_simps)
    then show ?thesis using assms(5) by (simp add: refresh_IndexTime)
  next
    case False
    then have "i' = i1" using step assms(3) by (auto simp: poll_step_def)
    then show ?thesis using False le by (simp add: wants_info_def)
  qed
qed

lemma poll_fresh_witness:
  "\<exists>i up. (poll [\<lparr>pr_now = 1, pr_quick = Inl 14, pr_info = Inl 14\<rparr>,
        \<lparr>pr_now = 2, pr_quick = Inr 7, pr_info = Inr \<lparr>si_Name = ''n'', si_Trees = [], si_IndexTime = 7\<rparr>\<rparr>]
      (new_I ''x'', new_Availability)) = Inr (i, up) \<and>
    i_IndexTime i = time_Unix 7"
proof -
  let ?r = "\<lparr>pr_now = 1, pr_quick = Inl 14, pr_info = Inl 14\<rparr>"
  let ?info = "\<lparr>si_Name = ''n'', si_Trees = [], si_IndexTime = 7\<rparr>"
  let ?r' = "\<lparr>pr_now = 2, pr_quick = Inr 7, pr_info = Inr ?info\<rparr>"
  have "\<exists>i up. (poll ([?r] @ [?r']) (new_I ''x'', new_Availability)) =
      Inr (i, up)"
    by (simp add: poll_step_def getInfo_def new_Availability_def refresh_def Let_def)
  then obtain i up where up: "(poll ([?r] @ [?r']) (new_I ''x'', new_Availability)
     ) = Inr (i, up)" by blast
  have "i_IndexTime i = time_Unix 7"
    by (rule poll_fresh[OF up, of 7 ?info]) (simp_all add: zero_time_def time_Unix_def)
  with up show ?thesis by auto
qed

text \<open>
  While a backend answers, an index that is older than the one known is never noticed,
  however often it is polled: the name, the trees and the time of the replaced index stay.
\<close>

theorem poll_ignores_older_index:
  assumes "av_IsUp up" "\<forall>r\<in>set rs. \<exists>t. pr_quick r = Inr t \<and> time_Unix t \<le> i_IndexTime i"
  shows "\<exists>up'. (poll rs (i, up)) = Inr (i, up') \<and> av_IsUp up'"
  using assms
proof (induction rs arbitrary: up)
  case (Cons r rs)
  then have "(poll_step r (i, up)) =
      Inr (i, \<lparr>av_IsUp = True, av_DownSince = zero_time, av_DownCode = 0\<rparr>)"
    by (auto simp: poll_step_def wants_info_def)
  with Cons show ?case by simp
qed simp

lemma poll_ignores_older_index_witness:
  "\<exists>up. (poll [\<lparr>pr_now = 2, pr_quick = Inr 6,
       pr_info = Inr \<lparr>si_Name = ''old'', si_Trees = [], si_IndexTime = 6\<rparr>\<rparr>]
     (\<lparr>i_Name = ''new'', i_Trees = [], i_IndexTime = time_Unix 7\<rparr>,
      \<lparr>av_IsUp = True, av_DownSince = zero_time, av_DownCode = 0\<rparr>)) =
     Inr (\<lparr>i_Name = ''new'', i_Trees = [], i_IndexTime = time_Unix 7\<rparr>, up) \<and> av_IsUp up"
  by (rule poll_ignores_older_index) (simp_all add: time_Unix_def)

section \<open>Opening\<close>

text \<open>The identifiers, addresses and flags of a backend and its backups, in order.\<close>

fun chain :: "'c Backend \<Rightarrow> (string \<times> string \<times> bool \<times> bool) list" where
  "chain (Backend i a info c u backup k p) =
     (i, a, k, p) # (case backup of None \<Rightarrow> [] | Some b \<Rightarrow> chain b)"

fun config_chain :: "Backend_config \<Rightarrow> (string \<times> string) list" where
  "config_chain (Backend_config i a _ backup) =
     (i, a) # (case backup of None \<Rightarrow> [] | Some b \<Rightarrow> if bc_Addr b = [] then [] else config_chain b)"

definition backup_flags :: "(string \<times> string) list \<Rightarrow> (string \<times> string \<times> bool \<times> bool) list" where
  "backup_flags xs = map (\<lambda>(i, a). (i, a, True, True)) xs"

lemma chain_neq_Nil [simp]: "chain bk \<noteq> []" "config_chain be \<noteq> []"
  by (cases bk, simp) (cases be, simp)

lemma chain_started: "chain (Start (set_IsBackup bk)) =
    (case chain bk of (i, a, k, p) # rest \<Rightarrow> (i, a, True, True) # rest | [] \<Rightarrow> [])"
  by (cases bk) simp

text \<open>
  Where every address of a configured chain can be dialled, opening the backend gives
  that chain of backends: each with its identifier and address, the backups (up to the
  first without an address) marked as backups and already polled, the first one neither.
\<close>

theorem NewBackend_chain:
  assumes "\<forall>addr size. \<exists>client. dial addr size = Inr client"
  shows "\<exists>bk. NewBackend dial be = Inr bk \<and>
    chain bk = (fst (hd (config_chain be)), snd (hd (config_chain be)), False, False) #
      backup_flags (tl (config_chain be))"
proof (induction be)
  case (Backend_config i addr maxSize backup)
  obtain client where dial: "dial addr (if maxSize = 0 then 10 * 2 ^ 20 else maxSize) = Inr client"
    using assms by blast
  show ?case
  proof (cases "backup = None \<or> (\<exists>b. backup = Some b \<and> bc_Addr b = [])")
    case True
    then show ?thesis using dial by (auto simp: backup_flags_def Let_def)
  next
    case False
    then obtain b where b: "backup = Some b" "bc_Addr b \<noteq> []" by auto
    obtain bk where bk: "NewBackend dial b = Inr bk" and
      chain: "chain bk = (fst (hd (config_chain b)), snd (hd (config_chain b)), False, False) #
        backup_flags (tl (config_chain b))"
      using Backend_config.IH[of b] b by auto
    have "chain (Start (set_IsBackup bk)) = backup_flags (config_chain b)"
      by (cases "config_chain b") (simp_all add: chain_started chain backup_flags_def split_beta)
    then show ?thesis using dial b bk by (simp add: Let_def)
  qed
qed

lemma NewBackend_chain_witness:
  "\<exists>bk. NewBackend (\<lambda>addr size. (Inr 0 :: unit + nat))
      (Backend_config ''a'' ''h:1'' 0 (Some (Backend_config ''b'' ''h:2'' 0 None))) = Inr bk \<and>
    chain bk = [(''a'', ''h:1'', False, False), (''b'', ''h:2'', True, True)]"
  using NewBackend_chain[of "\<lambda>addr size. (Inr 0 :: unit + nat)"
      "Backend_config ''a'' ''h:1'' 0 (Some (Backend_config ''b'' ''h:2'' 0 None))"]
  by (simp add: backup_flags_def)

text \<open>
  A backup whose address cannot be dialled does not make the opening fail with that
  error: the server panics, because the missing backup is marked before the error is
  looked at.
\<close>

theorem NewBackend_backup_panics:
  assumes "dial addr (if maxSize = 0 then 10 * 2 ^ 20 else maxSize) = Inr client"
    and "bc_Addr b \<noteq> []" "NewBackend dial b = Inl (Error e)"
  shows "NewBackend dial (Backend_config i addr maxSize (Some b)) = Inl (Panic NilDereference)"
  using assms by (simp add: Let_def)

lemma NewBackend_backup_panics_witness:
  "NewBackend (\<lambda>addr size. if addr = ''down'' then Inl () else Inr (0 :: nat))
     (Backend_config ''a'' ''up'' 0 (Some (Backend_config ''b'' ''down'' 0 None))) =
     Inl (Panic NilDereference)"
  by (rule NewBackend_backup_panics[of _ _ _ 0 _ "()"]) simp_all


section \<open>Links\<close>

text \<open>How a tree says where its files are shown, and the link that should come out.\<close>

datatype tree_source =
    GithubName string
  | GithubAddress string string
  | OwnPattern string

fun source_fine :: "tree_source \<Rightarrow> bool" where
  "source_fine (GithubName g) \<longleftrightarrow>
     g \<noteq> [] \<and> g \<noteq> ''*'' \<and> CHR '':'' \<notin> set g \<and> CHR ''?'' \<notin> set g \<and> hd g \<noteq> CHR ''/''"
| "source_fine (GithubAddress host p) \<longleftrightarrow>
     list_all url_plain host \<and> list_all (\<lambda>c. url_plain c \<or> c = CHR ''/'') p"
| "source_fine (OwnPattern p) \<longleftrightarrow> True"

fun source_Metadata :: "tree_source \<Rightarrow> tree_Metadata" where
  "source_Metadata (GithubName g) = \<lparr>md_UrlPattern = [], md_Github = g, md_Labels = []\<rparr>"
| "source_Metadata (GithubAddress host p) =
     \<lparr>md_UrlPattern = [], md_Github = ''https://'' @ host @ CHR ''/'' # p, md_Labels = []\<rparr>"
| "source_Metadata (OwnPattern p) = \<lparr>md_UrlPattern = p, md_Github = [], md_Labels = []\<rparr>"

fun source_link :: "tree_source \<Rightarrow> string" where
  "source_link (GithubName g) = ''https://github.com/'' @ g @ ''/blob/{version}/{path}#L{lno}''"
| "source_link (GithubAddress host p) =
     ''https://'' @ host @ CHR ''/'' # p @ ''/blob/{version}/{path}#L{lno}''"
| "source_link (OwnPattern p) = p"

lemma tree_pattern_source: "source_fine src \<Longrightarrow> tree_pattern (source_Metadata src) = source_link src"
proof (cases src)
  case (GithubName g)
  assume "source_fine src"
  then have "\<not> ParseRequestURI_ok g" using GithubName
    by (intro ParseRequestURI_relative) (auto simp: HasPrefix_iff)
  then show ?thesis using \<open>source_fine src\<close> GithubName by (simp add: tree_pattern_def)
next
  case (GithubAddress host p)
  assume "source_fine src"
  then have "ParseRequestURI_ok (''https://'' @ host @ CHR ''/'' # p)"
    using GithubAddress by (intro ParseRequestURI_https) simp_all
  then show ?thesis using GithubAddress by (simp add: tree_pattern_def)
qed (simp add: tree_pattern_def)

text \<open>
  A reply with trees replaces all the known trees, in its order: a tree given by its
  GitHub name links below \<^verbatim>\<open>https://github.com/\<close>, one given by an address links below that
  address, any other keeps the pattern of its metadata; the time of the index is the
  reply's, and an empty name keeps the old one.
\<close>

theorem refresh_links:
  assumes "si_Trees info = map (\<lambda>(n, v, src).
      \<lparr>it_Name = n, it_Version = v, it_Metadata = Some (source_Metadata src)\<rparr>) ts"
    and "ts \<noteq> []" "\<forall>(n, v, src)\<in>set ts. source_fine src"
  shows "refresh info i = Inr
    \<lparr>i_Name = (if si_Name info = [] then i_Name i else si_Name info),
     i_Trees = map (\<lambda>(n, v, src). \<lparr>t_Name = n, t_Version = v, t_Url = source_link src\<rparr>) ts,
     i_IndexTime = time_Unix (si_IndexTime info)\<rparr>"
proof -
  have "map_res refresh_tree (si_Trees info) =
      Inr (map (\<lambda>(n, v, src). \<lparr>t_Name = n, t_Version = v, t_Url = source_link src\<rparr>) ts)"
    unfolding assms(1) using assms(3)
    by (induction ts) (auto simp: refresh_tree_def tree_pattern_source)
  then show ?thesis using assms(1,2) by (simp add: refresh_def Let_def)
qed

lemma refresh_links_witness:
  "refresh \<lparr>si_Name = '''', si_Trees =
       [\<lparr>it_Name = ''a'', it_Version = ''HEAD'',
         it_Metadata = Some \<lparr>md_UrlPattern = [], md_Github = ''o/a'', md_Labels = []\<rparr>\<rparr>],
       si_IndexTime = 7\<rparr> (new_I ''be'') = Inr
     \<lparr>i_Name = ''be'', i_Trees = [\<lparr>t_Name = ''a'', t_Version = ''HEAD'',
        t_Url = ''https://github.com/o/a/blob/{version}/{path}#L{lno}''\<rparr>], i_IndexTime = time_Unix 7\<rparr>"
  using refresh_links[of "\<lparr>si_Name = '''', si_Trees =
       [\<lparr>it_Name = ''a'', it_Version = ''HEAD'',
         it_Metadata = Some \<lparr>md_UrlPattern = [], md_Github = ''o/a'', md_Labels = []\<rparr>\<rparr>],
       si_IndexTime = 7\<rparr>" "[(''a'', ''HEAD'', GithubName ''o/a'')]" "new_I ''be''"]
  by (simp add: new_I_def)

end
