(* ===== verification/GoPaths.thy ===== *)
theory GoPaths
  imports GoStrings
begin

text \<open>
  The lexical path functions of Go's \<^verbatim>\<open>path\<close> and \<^verbatim>\<open>path/filepath\<close> (on Unix), and the
  line scanner of \<^verbatim>\<open>bufio\<close>.
\<close>

section \<open>Paths\<close>

text \<open>
  \<^verbatim>\<open>path.Clean\<close> works through the elements between slashes: empty ones and \<open>.\<close> are
  dropped, \<open>..\<close> removes the element before it, or is dropped at the root, or is kept
  where there is nothing to remove. The stack holds the elements kept so far, last first.
\<close>

fun clean_step :: "bool \<Rightarrow> string list \<Rightarrow> string \<Rightarrow> string list" where
  "clean_step rooted stack seg =
     (if seg = [] \<or> seg = ''.'' then stack
      else if seg = ''..'' then
        (case stack of
           [] \<Rightarrow> if rooted then [] else [''..'']
         | prev # below \<Rightarrow> if prev = ''..'' then ''..'' # stack else below)
      else seg # stack)"

definition path_Clean :: "string \<Rightarrow> string" where
  "path_Clean p =
     (if p = [] then ''.'' else
      let rooted = (hd p = CHR ''/'');
          kept = rev (foldl (clean_step rooted) [] (split_on CHR ''/'' p))
      in if rooted then CHR ''/'' # join ''/'' kept
         else if kept = [] then ''.'' else join ''/'' kept)"

text \<open>\<^verbatim>\<open>filepath.Base\<close>: the last element, without trailing slashes.\<close>

definition strip_slashes :: "string \<Rightarrow> string" where
  "strip_slashes p = rev (dropWhile (\<lambda>c. c = CHR ''/'') (rev p))"

definition after_last_slash :: "string \<Rightarrow> string" where
  "after_last_slash p = rev (takeWhile (\<lambda>c. c \<noteq> CHR ''/'') (rev p))"

definition path_Base :: "string \<Rightarrow> string" where
  "path_Base p =
     (if p = [] then ''.'' else
      let b = after_last_slash (strip_slashes p) in if b = [] then ''/'' else b)"

text \<open>\<^verbatim>\<open>filepath.Ext\<close>: from the last dot of the last element on, or nothing.\<close>

definition path_Dir :: "string \<Rightarrow> string" where
  "path_Dir p = path_Clean (take (length p - length (after_last_slash p)) p)"

definition path_Ext :: "string \<Rightarrow> string" where
  "path_Ext p =
     (let f = after_last_slash p in
      if CHR ''.'' \<in> set f
      then CHR ''.'' # rev (takeWhile (\<lambda>c. c \<noteq> CHR ''.'') (rev f)) else [])"

text \<open>\<^verbatim>\<open>filepath.Join\<close>: the non-empty elements joined and cleaned.\<close>

definition path_Join :: "string list \<Rightarrow> string" where
  "path_Join es =
     (let ne = filter (\<lambda>e. e \<noteq> []) es in if ne = [] then [] else path_Clean (join ''/'' ne))"

lemma after_last_slash_plain: "CHR ''/'' \<notin> set p \<Longrightarrow> after_last_slash p = p"
proof -
  assume "CHR ''/'' \<notin> set p"
  then have "takeWhile (\<lambda>c. c \<noteq> CHR ''/'') (rev p) = rev p"
    by (intro takeWhile_eq_all_conv[THEN iffD2]) auto
  then show ?thesis by (simp only: after_last_slash_def rev_rev_ident)
qed

lemma last_neq: "n \<noteq> [] \<Longrightarrow> c \<notin> set n \<Longrightarrow> last n \<noteq> c"
  by (metis last_in_set)

lemma after_last_slash_append:
  "CHR ''/'' \<notin> set n \<Longrightarrow> after_last_slash (p @ CHR ''/'' # n) = n"
proof -
  assume "CHR ''/'' \<notin> set n"
  then have "takeWhile (\<lambda>c. c \<noteq> CHR ''/'') (rev n @ CHR ''/'' # rev p) = rev n"
    by (subst takeWhile_append2) auto
  then show ?thesis by (simp add: after_last_slash_def)
qed

lemma strip_slashes_plain: "p = [] \<or> last p \<noteq> CHR ''/'' \<Longrightarrow> strip_slashes p = p"
  by (cases p rule: rev_cases) (auto simp: strip_slashes_def)

lemma path_Base_plain: "n \<noteq> [] \<Longrightarrow> CHR ''/'' \<notin> set n \<Longrightarrow> path_Base n = n"
  by (simp add: path_Base_def strip_slashes_plain after_last_slash_plain last_neq)

lemma path_Base_append:
  assumes "n \<noteq> []" "CHR ''/'' \<notin> set n"
  shows "path_Base (p @ CHR ''/'' # n) = n"
proof -
  have "last (p @ CHR ''/'' # n) \<noteq> CHR ''/''" using assms by (simp add: last_neq)
  then show ?thesis
    using assms by (simp add: path_Base_def strip_slashes_plain after_last_slash_append Let_def)
qed

lemma path_Base_no_slash:
  assumes "CHR ''/'' \<in> set (path_Base p)"
  shows "path_Base p = ''/''"
proof -
  have "CHR ''/'' \<notin> set (after_last_slash q)" for q
    by (auto simp: after_last_slash_def dest: set_takeWhileD)
  then show ?thesis using assms by (auto simp: path_Base_def Let_def split: if_splits)
qed

section \<open>The line scanner\<close>

text \<open>
  \<^verbatim>\<open>bufio.ScanLines\<close>: the lines of the input without their newline and a carriage
  return before it; a last line without a newline counts if it is not empty. The scanner
  is the list of lines still to come. After the last one \<^verbatim>\<open>Scan\<close> returns false and
  \<^verbatim>\<open>Text\<close> is the empty string.
\<close>

definition dropCR :: "string \<Rightarrow> string" where
  "dropCR data = (if data \<noteq> [] \<and> last data = CR then butlast data else data)"

definition scan_lines :: "string \<Rightarrow> string list" where
  "scan_lines input =
     (let ls = split_on NL input
      in map dropCR (if last ls = [] then butlast ls else ls))"

fun scan :: "string list \<Rightarrow> bool \<times> string \<times> string list" where
  "scan [] = (False, [], [])"
| "scan (l # ls) = (True, l, ls)"

lemma scan_lines_unlines:
  assumes "\<And>l. l \<in> set ls \<Longrightarrow> NL \<notin> set l" "\<And>l. l \<in> set ls \<Longrightarrow> dropCR l = l"
  shows "scan_lines (concat (map (\<lambda>l. l @ [NL]) ls)) = ls"
proof -
  have "split_on NL (concat (map (\<lambda>l. l @ [NL]) ls)) = ls @ [[]]"
    using assms(1) by (induction ls) (simp_all add: split_on_append)
  moreover have "map dropCR ls = ls" using assms(2) by (simp add: map_idI)
  ultimately show ?thesis by (simp add: scan_lines_def Let_def)
qed

end
