(* ===== verification/SearchApi.thy ===== *)
theory SearchApi
  imports QueryParser Backends GoPaths "HOL-Library.AList"
begin

text \<open>
  The search API of \<^verbatim>\<open>server/api.go\<close> and its types in \<^verbatim>\<open>server/api/types.go\<close>: the query taken
  from a request's parameters, the two search calls, the grouping of the matches by file,
  the extensions offered as filters, the link to the next page, and the handlers with their
  errors. The backends' \<^verbatim>\<open>Search\<close> call is a parameter. A nil slice and an empty one are the same list.
\<close>

section \<open>Messages\<close>

record SearchResult =
  sr_Tree :: string
  sr_Version :: string
  sr_Path :: string
  sr_LineNumber :: int
  sr_ContextBefore :: "string list"
  sr_ContextAfter :: "string list"
  sr_Bounds :: "(int \<times> int) list"
  sr_Line :: string
  sr_NumMatches :: int

record pb_FileResult =
  pf_Tree :: string
  pf_Version :: string
  pf_Path :: string
  pf_Bounds :: "(int \<times> int) option"

record pb_TreeResult =
  pt_Name :: string
  pt_Version :: string
  pt_Metadata :: "tree_Metadata option"
  pt_Bounds :: "(int \<times> int) option"

datatype ExitReason = NONE | TIMEOUT | MATCH_LIMIT

fun ExitReason_String :: "ExitReason \<Rightarrow> string" where
  "ExitReason_String NONE = ''NONE''"
| "ExitReason_String TIMEOUT = ''TIMEOUT''"
| "ExitReason_String MATCH_LIMIT = ''MATCH_LIMIT''"

record SearchStats =
  ss_Re2Time :: int
  ss_GitTime :: int
  ss_SortTime :: int
  ss_IndexTime :: int
  ss_AnalyzeTime :: int
  ss_ExitReason :: ExitReason
  ss_NumMatches :: int

record CodeSearchResult =
  cs_Stats :: "SearchStats option"
  cs_Results :: "SearchResult list"
  cs_FileResults :: "pb_FileResult list"
  cs_TreeResults :: "pb_TreeResult list"
  cs_IndexTime :: int

text \<open>An error of a call: its gRPC code, its description, and its text.\<close>

record rpc_error =
  re_Code :: nat
  re_Desc :: string
  re_Error :: string

definition InvalidArgument :: nat where "InvalidArgument = 3"

definition Unavailable :: nat where "Unavailable = 14"

section \<open>Replies\<close>

record Stats =
  st_RE2Time :: int
  st_GitTime :: int
  st_SortTime :: int
  st_IndexTime :: int
  st_AnalyzeTime :: int
  st_TotalTime :: int
  st_ExitReason :: string
  st_NumMatches :: int

record Result =
  r_Tree :: string
  r_Version :: string
  r_Path :: string
  r_LineNumber :: int
  r_ContextBefore :: "string list"
  r_ContextAfter :: "string list"
  r_Bounds :: "(int \<times> int) list"
  r_Line :: string

record FileResult =
  f_Tree :: string
  f_Version :: string
  f_Path :: string
  f_Bounds :: "int \<times> int"

record TreeResult =
  tr_Name :: string
  tr_Version :: string
  tr_Labels :: "string list"
  tr_ExternalUrl :: string
  tr_Bounds :: "int \<times> int"

record ReplySearch =
  rs_Info :: Stats
  rs_Results :: "Result list"
  rs_FileResults :: "FileResult list"
  rs_TreeResults :: "TreeResult list"
  rs_SearchType :: string

record ResultLine =
  rl_LineNumber :: int
  rl_Bounds :: "(int \<times> int) list"
  rl_Line :: string

record ResultV2 =
  v2_Tree :: string
  v2_Version :: string
  v2_Path :: string
  v2_Lines :: "ResultLine list"
  v2_ContextLines :: "(int \<times> ResultLine) list"
  v2_NumMatches :: int

record FileExtension =
  fe_Ext :: string
  fe_Count :: int

text \<open>
  The age of the index is kept as the rounded duration, and the time it was built as the
  time itself; their printed forms are not modelled.
\<close>

record ReplySearchV2 =
  r2_Info :: Stats
  r2_Results :: "ResultV2 list"
  r2_FileResults :: "FileResult list"
  r2_TreeResults :: "TreeResult list"
  r2_SearchType :: string
  r2_PopExts :: "FileExtension list"
  r2_IndexAge :: int
  r2_LastIndexed :: int
  r2_BackupIdxUsed :: bool
  r2_CurrMaxMatches :: int
  r2_NextMaxMatches :: int
  r2_NextUrl :: string

section \<open>The query of a request\<close>

text \<open>
  The parameters give each key its values. A query that does not parse is returned with its
  error by the code and thrown away by every caller, so the model returns the error alone.
\<close>

definition set_pattern :: "(string \<Rightarrow> Query \<Rightarrow> Query) \<Rightarrow> bool \<Rightarrow> string list option \<Rightarrow> Query
     \<Rightarrow> (query_error, Query) res" where
  "set_pattern upd regex values query =
     (case values of
        None \<Rightarrow> Inr query
      | Some vs \<Rightarrow> bind_res (go_index vs 0) (\<lambda>v. Inr (upd (if regex then v else QuoteMeta v) query)))"

definition set_fold_case :: "string list option \<Rightarrow> Query \<Rightarrow> (query_error, Query) res" where
  "set_fold_case values query =
     (case values of
        None \<Rightarrow> Inr query
      | Some vs \<Rightarrow> bind_res (go_index vs 0) (\<lambda>fc. Inr (query\<lparr>q_FoldCase :=
          (if fc = ''false'' then False else if fc = ''true'' then True
           else \<not> has_upper (q_Line query))\<rparr>)))"

definition empty_Query :: Query where
  "empty_Query = \<lparr>q_Line = [], q_File = [], q_Repo = [], q_Tags = [], q_FoldCase = False,
     q_NotFile = [], q_NotRepo = [], q_NotTags = [], q_MaxMatches = 0, q_FilenameOnly = False,
     q_TreenameOnly = False, q_ContextLines = 0\<rparr>"

definition is_regex :: "(string \<rightharpoonup> string list) \<Rightarrow> (query_error, bool) res" where
  "is_regex params =
     (case params ''regex'' of
        None \<Rightarrow> Inr True
      | Some vs \<Rightarrow> bind_res (go_index vs 0) (\<lambda>re. Inr (re \<noteq> ''false'')))"

definition extractQuery :: "(string \<rightharpoonup> string list) \<Rightarrow> (query_error, Query \<times> bool) res" where
  "extractQuery params =
     bind_res (is_regex params) (\<lambda>regex.
     bind_res (case params ''q'' of
         None \<Rightarrow> Inr empty_Query
       | Some vs \<Rightarrow> bind_res (go_index vs 0) (\<lambda>q. ParseQuery q regex)) (\<lambda>query.
     bind_res (set_pattern (\<lambda>v q. q\<lparr>q_Line := v\<rparr>) regex (params ''line'') query) (\<lambda>query.
     bind_res (set_pattern (\<lambda>v q. q\<lparr>q_File := v\<rparr>) regex (params ''file'') query) (\<lambda>query.
     bind_res (set_pattern (\<lambda>v q. q\<lparr>q_Repo := v\<rparr>) regex (params ''repo'') query) (\<lambda>query.
     bind_res (set_fold_case (params ''fold_case'') query) (\<lambda>query.
       Inr (query, regex)))))))"

section \<open>The first search call\<close>

definition search_type :: "Query \<Rightarrow> string" where
  "search_type q =
     (if q_FilenameOnly q then ''filename_only'' else if q_TreenameOnly q then ''treename_only''
      else ''normal'')"

text \<open>The order of both replies: by repository, then by path.\<close>

definition path_less :: "string \<times> string \<Rightarrow> string \<times> string \<Rightarrow> bool" where
  "path_less a b = (if fst a \<noteq> fst b then bytes_less (fst a) (fst b) else bytes_less (snd a) (snd b))"

definition result_less :: "Result \<Rightarrow> Result \<Rightarrow> bool" where
  "result_less a b = path_less (r_Tree a, r_Path a) (r_Tree b, r_Path b)"

definition convert_result :: "SearchResult \<Rightarrow> Result" where
  "convert_result r =
     \<lparr>r_Tree = sr_Tree r, r_Version = sr_Version r, r_Path = sr_Path r,
      r_LineNumber = sr_LineNumber r, r_ContextBefore = sr_ContextBefore r,
      r_ContextAfter = sr_ContextAfter r, r_Bounds = sr_Bounds r, r_Line = sr_Line r\<rparr>"

definition convert_file :: "pb_FileResult \<Rightarrow> (rpc_error, FileResult) res" where
  "convert_file r =
     (case pf_Bounds r of
        None \<Rightarrow> Inl (Panic NilDereference)
      | Some b \<Rightarrow> Inr \<lparr>f_Tree = pf_Tree r, f_Version = pf_Version r, f_Path = pf_Path r, f_Bounds = b\<rparr>)"

definition convert_tree :: "pb_TreeResult \<Rightarrow> (rpc_error, TreeResult) res" where
  "convert_tree r =
     (case (pt_Bounds r, pt_Metadata r) of
        (Some b, Some md) \<Rightarrow>
          Inr \<lparr>tr_Name = pt_Name r, tr_Version = pt_Version r, tr_Labels = md_Labels md,
               tr_ExternalUrl = md_Github md @ ''/tree/'' @ pt_Version r, tr_Bounds = b\<rparr>
      | _ \<Rightarrow> Inl (Panic NilDereference))"

definition convert_stats :: "int \<Rightarrow> SearchStats option \<Rightarrow> (rpc_error, Stats) res" where
  "convert_stats elapsed stats =
     (case stats of
        None \<Rightarrow> Inl (Panic NilDereference)
      | Some s \<Rightarrow> Inr \<lparr>st_RE2Time = ss_Re2Time s, st_GitTime = ss_GitTime s,
          st_SortTime = ss_SortTime s, st_IndexTime = ss_IndexTime s,
          st_AnalyzeTime = ss_AnalyzeTime s, st_TotalTime = elapsed,
          st_ExitReason = ExitReason_String (ss_ExitReason s), st_NumMatches = ss_NumMatches s\<rparr>)"

type_synonym 'c search_rpc = "'c \<Rightarrow> Query \<Rightarrow> rpc_error + CodeSearchResult"

text \<open>\<open>arr\<close> is the freedom of \<^verbatim>\<open>sort.Slice\<close>, \<open>elapsed\<close> the measured time.\<close>

definition doSearch ::
    "(Result list \<Rightarrow> Result list) \<Rightarrow> int \<Rightarrow> 'c search_rpc \<Rightarrow> 'c Backend \<Rightarrow> Query
     \<Rightarrow> (rpc_error, ReplySearch) res" where
  "doSearch arr elapsed rpc backend q =
     (case rpc (bk_client backend) q of
        Inl e \<Rightarrow> Inl (Error e)
      | Inr search \<Rightarrow>
          bind_res (map_res convert_file (cs_FileResults search)) (\<lambda>files.
          bind_res (map_res convert_tree (cs_TreeResults search)) (\<lambda>trees.
          bind_res (convert_stats elapsed (cs_Stats search)) (\<lambda>info.
            Inr \<lparr>rs_Info = info,
                 rs_Results = sort_slice arr result_less (map convert_result (cs_Results search)),
                 rs_FileResults = files, rs_TreeResults = trees, rs_SearchType = search_type q\<rparr>))))"

section \<open>Grouping the matches by file\<close>

definition dedup_key :: "SearchResult \<Rightarrow> string" where
  "dedup_key r = sr_Tree r @ CHR ''-'' # sr_Path r"

definition context_lines :: "SearchResult \<Rightarrow> string list" where
  "context_lines r = rev (sr_ContextBefore r) @ sr_Line r # sr_ContextAfter r"

definition line_bounds :: "SearchResult \<Rightarrow> int \<Rightarrow> ResultLine option \<Rightarrow> (int \<times> int) list" where
  "line_bounds r lno old =
     (let bounds = (if lno = sr_LineNumber r then sr_Bounds r else [])
      in case old of
           None \<Rightarrow> bounds
         | Some l \<Rightarrow> if length bounds < length (rl_Bounds l) then rl_Bounds l else bounds)"

text \<open>The loop over the lines of one match, from the line number \<open>lno\<close> on.\<close>

fun add_lines :: "SearchResult \<Rightarrow> bool \<Rightarrow> int \<Rightarrow> string list \<Rightarrow> (int \<times> ResultLine) list
     \<Rightarrow> (int \<times> ResultLine) list" where
  "add_lines r present lno [] ctx = ctx"
| "add_lines r present lno (line # ls) ctx =
     add_lines r present (lno + 1) ls
       (AList.update lno
          \<lparr>rl_LineNumber = lno,
           rl_Bounds = line_bounds r lno (if present then map_of ctx lno else None),
           rl_Line = line\<rparr> ctx)"

definition add_match :: "SearchResult \<Rightarrow> bool \<Rightarrow> ResultV2 \<Rightarrow> ResultV2" where
  "add_match r present res =
     res\<lparr>v2_NumMatches := v2_NumMatches res + sr_NumMatches r,
         v2_ContextLines := add_lines r present (sr_LineNumber r - int (length (sr_ContextBefore r)))
           (context_lines r) (v2_ContextLines res)\<rparr>"

definition new_ResultV2 :: "SearchResult \<Rightarrow> ResultV2" where
  "new_ResultV2 r = \<lparr>v2_Tree = sr_Tree r, v2_Version = sr_Version r, v2_Path = sr_Path r,
     v2_Lines = [], v2_ContextLines = [], v2_NumMatches = 0\<rparr>"

definition add_result :: "(string \<times> ResultV2) list \<Rightarrow> SearchResult \<Rightarrow> (string \<times> ResultV2) list" where
  "add_result dd r =
     (case map_of dd (dedup_key r) of
        Some res \<Rightarrow> AList.update (dedup_key r) (add_match r True res) dd
      | None \<Rightarrow> AList.update (dedup_key r) (add_match r False (new_ResultV2 r)) dd)"

definition dedupedResults :: "SearchResult list \<Rightarrow> (string \<times> ResultV2) list" where
  "dedupedResults results = foldl add_result [] results"

text \<open>
  The order in which a Go map is walked is arbitrary, as is \<^verbatim>\<open>sort.Slice\<close> on elements it does
  not separate; one rearrangement of the entries stands for both.
\<close>

record arrangement =
  ar_results :: "ResultV2 list \<Rightarrow> ResultV2 list"
  ar_lines :: "ResultLine list \<Rightarrow> ResultLine list"
  ar_exts :: "(string \<times> int) list \<Rightarrow> (string \<times> int) list"

definition line_less :: "ResultLine \<Rightarrow> ResultLine \<Rightarrow> bool" where
  "line_less a b \<longleftrightarrow> rl_LineNumber a < rl_LineNumber b"

definition resultV2_less :: "ResultV2 \<Rightarrow> ResultV2 \<Rightarrow> bool" where
  "resultV2_less a b = path_less (v2_Tree a, v2_Path a) (v2_Tree b, v2_Path b)"

definition fill_lines :: "arrangement \<Rightarrow> ResultV2 \<Rightarrow> ResultV2" where
  "fill_lines ar res =
     res\<lparr>v2_Lines := sort_slice (ar_lines ar) line_less (map snd (v2_ContextLines res))\<rparr>"

definition group_results :: "arrangement \<Rightarrow> SearchResult list \<Rightarrow> ResultV2 list" where
  "group_results ar results =
     sort_slice (ar_results ar) resultV2_less (map (fill_lines ar \<circ> snd) (dedupedResults results))"

section \<open>Popular extensions\<close>

definition count_ext :: "(string \<times> int) list \<Rightarrow> string \<Rightarrow> (string \<times> int) list" where
  "count_ext counts ext =
     AList.update ext (case map_of counts ext of None \<Rightarrow> 1 | Some n \<Rightarrow> n + 1) counts"

definition extensionCounts :: "string list \<Rightarrow> (string \<times> int) list" where
  "extensionCounts keys = foldl count_ext [] (map path_Ext keys)"

definition ext_less :: "FileExtension \<Rightarrow> FileExtension \<Rightarrow> bool" where
  "ext_less a b \<longleftrightarrow> fe_Count b < fe_Count a"

definition popular_extensions :: "arrangement \<Rightarrow> (string \<times> int) list \<Rightarrow> FileExtension list" where
  "popular_extensions ar counts =
     (let exts = sort_less ext_less (map (\<lambda>(ext, count). \<lparr>fe_Ext = ext, fe_Count = count\<rparr>)
            (filter (\<lambda>(ext, count). ext \<noteq> []) (ar_exts ar counts)));
          c = (if length exts < 5 then length exts else 5)
      in take (if c < 2 then 0 else c) exts)"

section \<open>The second search call\<close>

definition search_with_backup ::
    "'c search_rpc \<Rightarrow> 'c Backend \<Rightarrow> Query \<Rightarrow> (rpc_error + CodeSearchResult) \<times> bool" where
  "search_with_backup rpc backend q =
     (case (rpc (bk_client backend) q, bk_BackupBackend backend) of
        (Inl e, Some backup) \<Rightarrow>
          if re_Code e = Unavailable then (rpc (bk_client backup) q, True) else (Inl e, False)
      | (result, _) \<Rightarrow> (result, False))"

definition doSearchV2 ::
    "arrangement \<Rightarrow> int \<Rightarrow> int \<Rightarrow> 'c search_rpc \<Rightarrow> 'c Backend \<Rightarrow> Query
     \<Rightarrow> (rpc_error, ReplySearchV2) res" where
  "doSearchV2 ar now elapsed rpc backend q =
     (case search_with_backup rpc backend q of
        (Inl e, used) \<Rightarrow> Inl (Error e)
      | (Inr search, used) \<Rightarrow>
          bind_res (map_res convert_file (cs_FileResults search)) (\<lambda>files.
          bind_res (map_res convert_tree (cs_TreeResults search)) (\<lambda>trees.
          bind_res (convert_stats elapsed (cs_Stats search)) (\<lambda>info.
            Inr \<lparr>r2_Info = info, r2_Results = group_results ar (cs_Results search),
                 r2_FileResults = files, r2_TreeResults = trees, r2_SearchType = search_type q,
                 r2_PopExts = popular_extensions ar
                   (extensionCounts (map fst (dedupedResults (cs_Results search)))),
                 r2_IndexAge = round_minute (now - time_Unix (cs_IndexTime search)),
                 r2_LastIndexed = time_Unix (cs_IndexTime search), r2_BackupIdxUsed = used,
                 r2_CurrMaxMatches = q_MaxMatches q, r2_NextMaxMatches = q_MaxMatches q * 3,
                 r2_NextUrl = []\<rparr>))))"

text \<open>The "show more" link.\<close>

definition next_query :: "string \<Rightarrow> int \<Rightarrow> string" where
  "next_query currQuery maxMatches =
     (if Contains currQuery '' max_matches:'' then
        ReplaceFirst currQuery ('' max_matches:'' @ string_of_int maxMatches)
          ('' max_matches:'' @ string_of_int (maxMatches * 3))
      else currQuery @ '' max_matches:'' @ string_of_int (maxMatches * 3))"

definition getNextPageUrl :: "url_Values \<Rightarrow> Query \<Rightarrow> string \<Rightarrow> string" where
  "getNextPageUrl searchQ q exitReason =
     (if exitReason = ''NONE'' then []
      else CHR ''?'' # values_Encode
        (values_Set searchQ ''q'' (next_query (values_Get searchQ ''q'') (q_MaxMatches q))))"

section \<open>Handlers\<close>

text \<open>The map of the backends, in the order in which it happens to be walked.\<close>

type_synonym 'c backends = "(string \<times> 'c Backend) list"

definition getBackendFromQuery :: "'c backends \<Rightarrow> url_Values \<Rightarrow> string \<times> 'c Backend option" where
  "getBackendFromQuery bks params =
     (let name = values_Get params '':backend'' in
      (name, if name \<noteq> [] then map_of bks name
             else (case bks of [] \<Rightarrow> None | (k, b) # _ \<Rightarrow> Some b)))"

fun query_error_text :: "query_error \<Rightarrow> string" where
  "query_error_text (BothSynonyms op1 op2) =
     ''Cannot provide both '' @ op1 @ '': and '' @ op2 @ '':, because they are synonyms''"
| "query_error_text (GotTermTwice k) = ''got term twice: '' @ k"
| "query_error_text NotContiguous = ''main search term must be contiguous''"
| "query_error_text SeveralMainTerms =
     ''You cannot provide multiple of case:, lit:, and a bare regex''"
| "query_error_text BadMaxMatches = ''Value given to max_matches: must be a valid integer''"

definition getQueryError :: "rpc_error \<Rightarrow> nat \<times> string \<times> string" where
  "getQueryError e =
     (if re_Code e = InvalidArgument then (400, ''query'', re_Desc e)
      else (500, ''internal_error'', ''Talking to backend: '' @ re_Error e))"

definition must_specify :: "bool \<Rightarrow> string" where
  "must_specify regex =
     ''You must specify a '' @ (if regex then ''regex'' else ''string'') @ '' to match''"

text \<open>The query both handlers send on: parsed, not empty, with the configured limit if it has none.\<close>

datatype bad_request = BadRequest string string

definition request_query :: "int \<Rightarrow> (string \<rightharpoonup> string list) \<Rightarrow> (bad_request, Query) res" where
  "request_query defaultMax params =
     (case extractQuery params of
        Inl (Panic p) \<Rightarrow> Inl (Panic p)
      | Inl (Error e) \<Rightarrow> Inl (Error (BadRequest ''bad_query'' (query_error_text e)))
      | Inr (q, regex) \<Rightarrow>
          if q_Line q = [] then Inl (Error (BadRequest ''bad_query'' (must_specify regex)))
          else Inr (if q_MaxMatches q = 0 then q\<lparr>q_MaxMatches := defaultMax\<rparr> else q))"

type_synonym v2_answer = "ReplySearchV2 option \<times> nat \<times> string \<times> string"

text \<open>\<^verbatim>\<open>ServerSideAPISearchV2\<close>, up to the counters and the log.\<close>

definition ServerSideAPISearchV2 ::
    "arrangement \<Rightarrow> int \<Rightarrow> int \<Rightarrow> 'c search_rpc \<Rightarrow> Config \<Rightarrow> 'c backends \<Rightarrow> url_Values
     \<Rightarrow> (unit, v2_answer) res" where
  "ServerSideAPISearchV2 ar now elapsed rpc cfg bks params =
     (case getBackendFromQuery bks params of
        (name, None) \<Rightarrow> Inr (None, 400, ''bad_backend'', ''Unknown backend: '' @ name)
      | (name, Some backend) \<Rightarrow>
          (case request_query (cfg_DefaultMaxMatches cfg) (map_of params) of
             Inl (Panic p) \<Rightarrow> Inl (Panic p)
           | Inl (Error (BadRequest code msg)) \<Rightarrow> Inr (None, 400, code, msg)
           | Inr q \<Rightarrow>
               (case doSearchV2 ar now elapsed rpc backend q of
                  Inl (Panic p) \<Rightarrow> Inl (Panic p)
                | Inl (Error e) \<Rightarrow> Inr (None, getQueryError e)
                | Inr reply \<Rightarrow>
                    Inr (Some (reply\<lparr>r2_NextUrl :=
                        getNextPageUrl params q (st_ExitReason (r2_Info reply))\<rparr>), 200, [], []))))"

datatype api_reply = JSONReply ReplySearch | JSONError nat string string

definition ServeAPISearch ::
    "(Result list \<Rightarrow> Result list) \<Rightarrow> int \<Rightarrow> 'c search_rpc \<Rightarrow> Config \<Rightarrow> 'c backends \<Rightarrow> url_Values
     \<Rightarrow> (unit, api_reply) res" where
  "ServeAPISearch arr elapsed rpc cfg bks params =
     (case getBackendFromQuery bks params of (name, backend) \<Rightarrow>
        if name \<noteq> [] \<and> backend = None
        then Inr (JSONError 400 ''bad_backend'' (''Unknown backend: '' @ name))
        else
          (case request_query (cfg_DefaultMaxMatches cfg) (map_of params) of
             Inl (Panic p) \<Rightarrow> Inl (Panic p)
           | Inl (Error (BadRequest code msg)) \<Rightarrow> Inr (JSONError 400 code msg)
           | Inr q \<Rightarrow>
               (case backend of
                  None \<Rightarrow> Inl (Panic NilDereference)
                | Some bk \<Rightarrow>
                    (case doSearch arr elapsed rpc bk q of
                       Inl (Panic p) \<Rightarrow> Inl (Panic p)
                     | Inl (Error e) \<Rightarrow>
                         (case getQueryError e of (status, code, msg) \<Rightarrow> Inr (JSONError status code msg))
                     | Inr reply \<Rightarrow> Inr (JSONReply reply)))))"

section \<open>The orders of the replies\<close>

lemma path_less_asym: "path_less a b \<Longrightarrow> \<not> path_less b a"
  by (auto simp: path_less_def dest: bytes_less_asym split: if_splits)

lemma path_less_linear: "path_less a b \<or> a = b \<or> path_less b a"
  by (metis bytes_less_linear path_less_def prod_eqI)

lemma path_less_trans: "path_less a b \<Longrightarrow> path_less b c \<Longrightarrow> path_less a c"
  by (cases a; cases b; cases c) (auto simp: path_less_def dest: bytes_less_trans bytes_less_asym split: if_splits)

lemma path_not_less_trans: "\<not> path_less b a \<Longrightarrow> \<not> path_less c b \<Longrightarrow> \<not> path_less c a"
  by (metis path_less_linear path_less_trans path_less_asym)

interpretation v1_order: less_order result_less
  by unfold_locales (auto simp: result_less_def dest: path_less_asym path_not_less_trans)

interpretation v2_order: less_order resultV2_less
  by unfold_locales (auto simp: resultV2_less_def dest: path_less_asym path_not_less_trans)

interpretation line_order: less_order line_less
  by unfold_locales (auto simp: line_less_def)

interpretation ext_order: less_order ext_less
  by unfold_locales (auto simp: ext_less_def)

section \<open>What the grouping should give\<close>

abbreviation sr_file :: "SearchResult \<Rightarrow> string \<times> string" where
  "sr_file r \<equiv> (sr_Tree r, sr_Path r)"

abbreviation v2_file :: "ResultV2 \<Rightarrow> string \<times> string" where
  "v2_file x \<equiv> (v2_Tree x, v2_Path x)"

definition first_line :: "SearchResult \<Rightarrow> int" where
  "first_line r = sr_LineNumber r - int (length (sr_ContextBefore r))"

definition covers :: "SearchResult \<Rightarrow> int \<Rightarrow> bool" where
  "covers r k \<longleftrightarrow> first_line r \<le> k \<and> k < first_line r + int (length (context_lines r))"

text \<open>
  One line of a file after the matches of the file, in order: the text is that of the last
  match that shows the line, the highlights are the longest list, the later one on a tie.
\<close>

definition merge_line :: "int \<Rightarrow> ResultLine option \<Rightarrow> SearchResult \<Rightarrow> ResultLine option" where
  "merge_line k old r =
     (if covers r k then
        Some \<lparr>rl_LineNumber = k, rl_Bounds = line_bounds r k old,
              rl_Line = context_lines r ! nat (k - first_line r)\<rparr>
      else old)"

definition spec_line :: "SearchResult list \<Rightarrow> int \<Rightarrow> ResultLine option" where
  "spec_line rs k = foldl (merge_line k) None rs"

lemma add_lines_lookup:
  "map_of (add_lines r present lno ls ctx) k =
     (if lno \<le> k \<and> k < lno + int (length ls) then
        Some \<lparr>rl_LineNumber = k, rl_Bounds = line_bounds r k (if present then map_of ctx k else None),
              rl_Line = ls ! nat (k - lno)\<rparr>
      else map_of ctx k)"
proof (induction r present lno ls ctx rule: add_lines.induct)
  case (2 r present lno line ls ctx)
  show ?case
  proof (cases "k = lno")
    case False
    then have "lno \<le> k \<and> k < lno + int (length (line # ls)) \<longleftrightarrow>
        lno + 1 \<le> k \<and> k < lno + 1 + int (length ls)" by auto
    moreover have "(line # ls) ! nat (k - lno) = ls ! nat (k - (lno + 1))" if "lno + 1 \<le> k"
    proof -
      have "nat (k - lno) = Suc (nat (k - (lno + 1)))" using that by simp
      then show ?thesis by simp
    qed
    ultimately show ?thesis using False 2 by (simp add: update_conv')
  next
    case True
    then show ?thesis using 2 by (cases present) (simp_all add: update_conv')
  qed
qed auto

lemma add_lines_distinct:
  "distinct (map fst ctx) \<Longrightarrow> distinct (map fst (add_lines r present lno ls ctx))"
  by (induction r present lno ls ctx rule: add_lines.induct) (simp_all add: distinct_update)

definition numbered :: "(int \<times> ResultLine) list \<Rightarrow> bool" where
  "numbered ctx \<longleftrightarrow> distinct (map fst ctx) \<and> (\<forall>k l. map_of ctx k = Some l \<longrightarrow> rl_LineNumber l = k)"

lemma add_lines_numbered: "numbered ctx \<Longrightarrow> numbered (add_lines r present lno ls ctx)"
  by (auto simp: numbered_def add_lines_distinct add_lines_lookup split: if_splits)

lemma line_bounds_None_Some:
  "present \<or> old = None \<Longrightarrow> line_bounds r k (if present then old else None) = line_bounds r k old"
  by auto

text \<open>What the entry of a file holds after the matches \<open>g\<close> of that file.\<close>

definition entry_ok :: "SearchResult list \<Rightarrow> ResultV2 \<Rightarrow> bool" where
  "entry_ok g x \<longleftrightarrow>
     v2_Tree x = sr_Tree (hd g) \<and> v2_Path x = sr_Path (hd g) \<and> v2_Version x = sr_Version (hd g) \<and>
     v2_NumMatches x = sum_list (map sr_NumMatches g) \<and> numbered (v2_ContextLines x) \<and>
     (\<forall>k. map_of (v2_ContextLines x) k = spec_line g k)"

lemma add_match_ok:
  assumes "g \<noteq> []" "entry_ok g x"
  shows "entry_ok (g @ [r]) (add_match r True x)"
  using assms
  by (auto simp: entry_ok_def add_match_def add_lines_numbered add_lines_lookup spec_line_def
      merge_line_def covers_def first_line_def hd_append)

lemma add_match_new: "entry_ok [r] (add_match r False (new_ResultV2 r))"
  by (auto simp: entry_ok_def add_match_def new_ResultV2_def add_lines_numbered add_lines_lookup
      spec_line_def merge_line_def covers_def first_line_def numbered_def[of "[]"])

definition same_key :: "SearchResult list \<Rightarrow> string \<Rightarrow> SearchResult list" where
  "same_key rs key = filter (\<lambda>r. dedup_key r = key) rs"

definition dedup_ok :: "SearchResult list \<Rightarrow> (string \<times> ResultV2) list \<Rightarrow> bool" where
  "dedup_ok rs dd \<longleftrightarrow> distinct (map fst dd) \<and>
     (\<forall>key. case map_of dd key of
        None \<Rightarrow> same_key rs key = []
      | Some x \<Rightarrow> same_key rs key \<noteq> [] \<and> entry_ok (same_key rs key) x)"

lemma dedup_ok_step:
  assumes "dedup_ok rs dd"
  shows "dedup_ok (rs @ [r]) (add_result dd r)"
proof -
  let ?x = "case map_of dd (dedup_key r) of Some x \<Rightarrow> add_match r True x
    | None \<Rightarrow> add_match r False (new_ResultV2 r)"
  have add: "add_result dd r = AList.update (dedup_key r) ?x dd"
    by (simp add: add_result_def split: option.splits)
  have old: "case map_of dd key of None \<Rightarrow> same_key rs key = []
      | Some x \<Rightarrow> same_key rs key \<noteq> [] \<and> entry_ok (same_key rs key) x" for key
    using assms by (simp add: dedup_ok_def)
  have "entry_ok (same_key rs (dedup_key r) @ [r]) ?x"
    using old[of "dedup_key r"]
    by (cases "map_of dd (dedup_key r)") (simp_all add: add_match_ok add_match_new)
  then have new: "entry_ok (same_key (rs @ [r]) (dedup_key r)) ?x" by (simp add: same_key_def)
  have "case map_of (add_result dd r) key of None \<Rightarrow> same_key (rs @ [r]) key = []
      | Some x \<Rightarrow> same_key (rs @ [r]) key \<noteq> [] \<and> entry_ok (same_key (rs @ [r]) key) x" for key
  proof (cases "key = dedup_key r")
    case True
    then show ?thesis using new by (simp add: add update_conv') (simp add: same_key_def)
  next
    case False
    then have "same_key (rs @ [r]) key = same_key rs key" by (auto simp: same_key_def)
    moreover have "map_of (add_result dd r) key = map_of dd key" using False by (simp add: add update_conv')
    ultimately show ?thesis using old[of key] by (simp split: option.splits)
  qed
  then show ?thesis using assms by (simp add: dedup_ok_def add distinct_update)
qed

lemma dedupedResults_ok: "dedup_ok rs (dedupedResults rs)"
proof (induction rs rule: rev_induct)
  case (snoc r rs)
  then show ?case using dedup_ok_step[OF snoc] by (simp add: dedupedResults_def)
qed (simp add: dedup_ok_def dedupedResults_def same_key_def)

lemma dedup_lookup:
  "map_of (dedupedResults rs) key = Some x \<Longrightarrow>
     same_key rs key \<noteq> [] \<and> entry_ok (same_key rs key) x"
  "map_of (dedupedResults rs) key = None \<Longrightarrow> same_key rs key = []"
proof -
  have "case map_of (dedupedResults rs) key of None \<Rightarrow> same_key rs key = []
      | Some x \<Rightarrow> same_key rs key \<noteq> [] \<and> entry_ok (same_key rs key) x"
    using dedupedResults_ok[of rs] by (simp add: dedup_ok_def)
  then show "map_of (dedupedResults rs) key = Some x \<Longrightarrow>
     same_key rs key \<noteq> [] \<and> entry_ok (same_key rs key) x"
    "map_of (dedupedResults rs) key = None \<Longrightarrow> same_key rs key = []"
    by simp_all
qed

lemma sorted_wrt_distinct:
  "distinct xs \<Longrightarrow> sorted_wrt (\<lambda>a b. \<not> R b a) xs \<Longrightarrow> sorted_wrt (\<lambda>a b. a \<noteq> b \<and> \<not> R b a) xs"
  by (induction xs) auto

lemma dedup_entry:
  assumes "(key, x) \<in> set (dedupedResults rs)"
  shows "same_key rs key \<noteq> []" "entry_ok (same_key rs key) x" "key = v2_Tree x @ CHR ''-'' # v2_Path x"
proof -
  have "map_of (dedupedResults rs) key = Some x"
    using assms dedupedResults_ok[of rs] by (simp add: dedup_ok_def)
  then show ok: "same_key rs key \<noteq> []" "entry_ok (same_key rs key) x"
    using dedup_lookup(1) by blast+
  then have "hd (same_key rs key) \<in> set (same_key rs key)" by simp
  then have "dedup_key (hd (same_key rs key)) = key" by (simp add: same_key_def)
  then show "key = v2_Tree x @ CHR ''-'' # v2_Path x"
    using ok(2) by (simp add: entry_ok_def dedup_key_def)
qed

lemma dedup_complete:
  assumes "r \<in> set rs"
  shows "\<exists>x. (dedup_key r, x) \<in> set (dedupedResults rs)"
proof -
  have "same_key rs (dedup_key r) \<noteq> []" using assms by (auto simp: same_key_def filter_empty_conv)
  then have "map_of (dedupedResults rs) (dedup_key r) \<noteq> None"
    using dedup_lookup(2) by blast
  then show ?thesis by (auto dest: map_of_SomeD)
qed

lemma sorted_lines:
  assumes "rearranges arr" "numbered ctx"
  shows "sorted_wrt (<) (map rl_LineNumber (sort_slice arr line_less (map snd ctx)))"
    and "l \<in> set (sort_slice arr line_less (map snd ctx)) \<longleftrightarrow> map_of ctx (rl_LineNumber l) = Some l"
proof -
  let ?out = "sort_slice arr line_less (map snd ctx)"
  have key: "rl_LineNumber l = k" if "(k, l) \<in> set ctx" for k l
    using that assms(2) by (auto simp: numbered_def)
  then have "map rl_LineNumber (map snd ctx) = map fst ctx" by (induction ctx) auto
  then have "distinct (map rl_LineNumber (map snd ctx))" using assms(2) by (simp only: numbered_def)
  moreover have "mset (map rl_LineNumber ?out) = mset (map rl_LineNumber (map snd ctx))"
    using mset_sort_slice[OF assms(1), of line_less "map snd ctx"] by (metis mset_map)
  ultimately have "distinct (map rl_LineNumber ?out)" by (metis mset_eq_imp_distinct_iff)
  moreover have "sorted (map rl_LineNumber ?out)"
    using line_order.ordered_sort_slice[of arr "map snd ctx"]
    by (simp add: line_order.ordered_def line_less_def sorted_wrt_map not_less)
  ultimately show "sorted_wrt (<) (map rl_LineNumber ?out)" by (simp add: strict_sorted_iff)
  have "l \<in> set ?out \<longleftrightarrow> (\<exists>k. (k, l) \<in> set ctx)"
    using set_sort_slice[OF assms(1), of line_less "map snd ctx"] by force
  also have "\<dots> \<longleftrightarrow> map_of ctx (rl_LineNumber l) = Some l"
    using key assms(2) by (auto simp: numbered_def dest: map_of_SomeD)
  finally show "l \<in> set ?out \<longleftrightarrow> map_of ctx (rl_LineNumber l) = Some l" .
qed

lemma sorted_wrt_map_total:
  assumes "sorted_wrt path_less (map v2_file xs)" "a \<in> set xs" "b \<in> set xs" "a \<noteq> b"
  shows "resultV2_less a b \<or> resultV2_less b a"
  using assms by (induction xs) (auto simp: resultV2_less_def)

lemma v2_file_fill [simp]: "v2_file (fill_lines ar x) = v2_file x"
  by (simp add: fill_lines_def)

text \<open>Entries of the map never share a file, so the order of the reply is strict.\<close>

lemma group_results_strict:
  assumes "rearranges (ar_results ar)"
  shows "sorted_wrt path_less (map v2_file (group_results ar rs))"
proof -
  let ?ins = "map (fill_lines ar \<circ> snd) (dedupedResults rs)"
  let ?out = "group_results ar rs"
  have "map (\<lambda>x. v2_Tree x @ CHR ''-'' # v2_Path x) ?ins = map fst (dedupedResults rs)"
    using dedup_entry(3)[of _ _ rs] by (auto simp: fill_lines_def)
  then have "distinct (map (\<lambda>x. v2_Tree x @ CHR ''-'' # v2_Path x) ?ins)"
    using dedupedResults_ok[of rs] by (simp only: dedup_ok_def)
  then have "distinct (map v2_file ?ins)"
    by (simp only: distinct_map inj_on_def) auto
  moreover have "mset (map v2_file ?out) = mset (map v2_file ?ins)"
    using mset_sort_slice[OF assms, of resultV2_less ?ins] unfolding group_results_def by (metis mset_map)
  ultimately have "distinct (map v2_file ?out)" by (metis mset_eq_imp_distinct_iff)
  moreover have "sorted_wrt (\<lambda>a b. \<not> path_less b a) (map v2_file ?out)"
    using v2_order.ordered_sort_slice[of "ar_results ar" ?ins]
    by (simp add: group_results_def v2_order.ordered_def resultV2_less_def sorted_wrt_map)
  ultimately have "sorted_wrt (\<lambda>a b. a \<noteq> b \<and> \<not> path_less b a) (map v2_file ?out)"
    by (rule sorted_wrt_distinct)
  then show ?thesis by (rule sorted_wrt_mono_rel[rotated]) (metis path_less_linear)
qed

section \<open>Properties\<close>

lemma set_group_results:
  "rearranges (ar_results ar) \<Longrightarrow>
    set (group_results ar rs) = (fill_lines ar \<circ> snd) ` set (dedupedResults rs)"
  using set_sort_slice[of "ar_results ar" resultV2_less "map (fill_lines ar \<circ> snd) (dedupedResults rs)"]
  by (simp add: group_results_def)

text \<open>Where the joined keys are as good as the files, an entry stands for the results of one file.\<close>

lemma entry_group:
  assumes "\<forall>r\<in>set rs. \<forall>r'\<in>set rs. dedup_key r = dedup_key r' \<longrightarrow> sr_file r = sr_file r'"
    and kx: "(key, x) \<in> set (dedupedResults rs)"
  shows "same_key rs key = filter (\<lambda>r. sr_file r = v2_file x) rs"
  unfolding same_key_def
proof (rule filter_cong[OF refl])
  fix r assume r: "r \<in> set rs"
  let ?h = "hd (same_key rs key)"
  have "?h \<in> set (same_key rs key)" using dedup_entry(1)[OF kx] by simp
  then have h: "?h \<in> set rs" "dedup_key ?h = key" by (simp_all add: same_key_def)
  have same: "sr_file ?h = v2_file x" using dedup_entry(2)[OF kx] by (simp add: entry_ok_def)
  show "dedup_key r = key \<longleftrightarrow> sr_file r = v2_file x"
  proof
    assume "dedup_key r = key"
    then show "sr_file r = v2_file x" using assms(1) r h same by metis
  next
    assume "sr_file r = v2_file x"
    then show "dedup_key r = key" using dedup_entry(3)[OF kx] by (simp add: dedup_key_def)
  qed
qed

lemma group_files:
  assumes "rearranges (ar_results ar)"
    and keys: "\<forall>r\<in>set rs. \<forall>r'\<in>set rs. dedup_key r = dedup_key r' \<longrightarrow> sr_file r = sr_file r'"
  shows "v2_file ` set (group_results ar rs) = sr_file ` set rs"
proof
  show "v2_file ` set (group_results ar rs) \<subseteq> sr_file ` set rs"
  proof
    fix f assume "f \<in> v2_file ` set (group_results ar rs)"
    then obtain key x where kx: "(key, x) \<in> set (dedupedResults rs)" "f = v2_file x"
      unfolding set_group_results[OF assms(1)] by auto
    then obtain r where "r \<in> set rs" "sr_file r = v2_file x"
      using dedup_entry(1)[OF kx(1)] unfolding entry_group[OF keys kx(1)] filter_empty_conv by blast
    then show "f \<in> sr_file ` set rs" using kx(2) by (intro rev_image_eqI[of r]) simp_all
  qed
  show "sr_file ` set rs \<subseteq> v2_file ` set (group_results ar rs)"
  proof
    fix f assume "f \<in> sr_file ` set rs"
    then obtain r where r: "r \<in> set rs" "f = sr_file r" by auto
    obtain x where x: "(dedup_key r, x) \<in> set (dedupedResults rs)" using dedup_complete[OF r(1)] by blast
    have "r \<in> set (same_key rs (dedup_key r))" using r by (simp add: same_key_def)
    then have "f = v2_file (fill_lines ar x)" unfolding v2_file_fill r(2) entry_group[OF keys x] by simp
    moreover have "fill_lines ar x \<in> set (group_results ar rs)"
      unfolding set_group_results[OF assms(1)] using x by force
    ultimately show "f \<in> v2_file ` set (group_results ar rs)" by (intro rev_image_eqI)
  qed
qed

text \<open>
  C16. The matches are grouped by file: where no two files share their key, the reply has
  each file that has a match exactly once, in the order of repository and path, with the
  sum of its match counts; its lines are in strictly increasing order, and they are the
  specified lines of its matches, each text and each list of highlights.
\<close>

theorem group_results_refines:
  assumes "rearranges (ar_results ar)" "rearranges (ar_lines ar)"
    and keys: "\<forall>r\<in>set rs. \<forall>r'\<in>set rs. dedup_key r = dedup_key r' \<longrightarrow> sr_file r = sr_file r'"
  shows "sorted_wrt path_less (map v2_file (group_results ar rs)) \<and>
    v2_file ` set (group_results ar rs) = sr_file ` set rs \<and>
    (\<forall>x\<in>set (group_results ar rs). \<forall>g. g = filter (\<lambda>r. sr_file r = v2_file x) rs \<longrightarrow>
       v2_NumMatches x = sum_list (map sr_NumMatches g) \<and>
       sorted_wrt (<) (map rl_LineNumber (v2_Lines x)) \<and>
       (\<forall>l. l \<in> set (v2_Lines x) \<longleftrightarrow> spec_line g (rl_LineNumber l) = Some l))"
proof -
  have "v2_NumMatches x = sum_list (map sr_NumMatches g) \<and>
      sorted_wrt (<) (map rl_LineNumber (v2_Lines x)) \<and>
      (\<forall>l. l \<in> set (v2_Lines x) \<longleftrightarrow> spec_line g (rl_LineNumber l) = Some l)"
    if x: "x \<in> set (group_results ar rs)" "g = filter (\<lambda>r. sr_file r = v2_file x) rs" for x g
  proof -
    obtain key y where y: "(key, y) \<in> set (dedupedResults rs)" "x = fill_lines ar y"
      using x(1) unfolding set_group_results[OF assms(1)] by auto
    have ok: "entry_ok g y" using dedup_entry(2)[OF y(1)] entry_group[OF keys y(1)] x(2) y(2) by simp
    then show ?thesis
      using sorted_lines[OF assms(2), of "v2_ContextLines y"] y(2)
      by (simp add: entry_ok_def fill_lines_def)
  qed
  then show ?thesis using group_results_strict[OF assms(1)] group_files[OF assms(1) keys] by blast
qed

definition plain_arrangement :: arrangement where
  "plain_arrangement = \<lparr>ar_results = (\<lambda>xs. xs), ar_lines = rev, ar_exts = (\<lambda>xs. xs)\<rparr>"

definition match_at :: "string \<Rightarrow> string \<Rightarrow> int \<Rightarrow> string \<Rightarrow> SearchResult" where
  "match_at repo p lno line = \<lparr>sr_Tree = repo, sr_Version = ''v'', sr_Path = p, sr_LineNumber = lno,
     sr_ContextBefore = [], sr_ContextAfter = [], sr_Bounds = [(0, 1)], sr_Line = line, sr_NumMatches = 1\<rparr>"

lemma group_results_refines_witness:
  "v2_file ` set (group_results plain_arrangement
      [match_at ''r'' ''b'' 4 ''x'', match_at ''r'' ''a'' 1 ''y'', match_at ''r'' ''b'' 2 ''z'']) =
     {(''r'', ''a''), (''r'', ''b'')}"
  using group_results_refines[of plain_arrangement
      "[match_at ''r'' ''b'' 4 ''x'', match_at ''r'' ''a'' 1 ''y'', match_at ''r'' ''b'' 2 ''z'']"]
  by (simp add: plain_arrangement_def match_at_def dedup_key_def insert_commute)

text \<open>
  C31. The reply does not depend on the order in which Go walks its maps, nor on what its
  sort does with equal elements: any two runs on the same matches give the same results.
\<close>

theorem group_results_deterministic:
  assumes "rearranges (ar_results ar)" "rearranges (ar_lines ar)"
    and "rearranges (ar_results ar')" "rearranges (ar_lines ar')"
  shows "group_results ar rs = group_results ar' rs"
proof -
  have lines: "fill_lines ar x = fill_lines ar' x" if "numbered (v2_ContextLines x)" for x
  proof -
    have num: "rl_LineNumber l = k" if "(k, l) \<in> set (v2_ContextLines x)" for k l
      using that \<open>numbered (v2_ContextLines x)\<close> by (auto simp: numbered_def)
    have "sort_slice (ar_lines ar) line_less (map snd (v2_ContextLines x)) =
        sort_slice (ar_lines ar') line_less (map snd (v2_ContextLines x))"
    proof (rule line_order.sort_slice_unique[OF assms(2,4) refl])
      fix a b assume ab: "a \<in> set (map snd (v2_ContextLines x))" "b \<in> set (map snd (v2_ContextLines x))" "a \<noteq> b"
      then obtain j k where jk: "(j, a) \<in> set (v2_ContextLines x)" "(k, b) \<in> set (v2_ContextLines x)" by auto
      then have "j \<noteq> k" using ab(3) that unfolding numbered_def by (metis eq_key_imp_eq_value)
      then show "line_less a b \<or> line_less b a" using num jk by (auto simp: line_less_def)
    qed
    then show ?thesis by (simp add: fill_lines_def)
  qed
  have eq: "map (fill_lines ar \<circ> snd) (dedupedResults rs) = map (fill_lines ar' \<circ> snd) (dedupedResults rs)"
  proof (rule map_cong[OF refl])
    fix kx assume "kx \<in> set (dedupedResults rs)"
    then have "entry_ok (same_key rs (fst kx)) (snd kx)" using dedup_entry(2)[of "fst kx" "snd kx"] by simp
    then show "(fill_lines ar \<circ> snd) kx = (fill_lines ar' \<circ> snd) kx"
      by (simp add: entry_ok_def lines)
  qed
  have strict: "sorted_wrt path_less (map v2_file (group_results a rs))" if "rearranges (ar_results a)" for a
    using that by (rule group_results_strict)
  show ?thesis
  proof (rule v2_order.ordered_unique)
    show "v2_order.ordered (group_results ar rs)" "v2_order.ordered (group_results ar' rs)"
      unfolding group_results_def by (rule v2_order.ordered_sort_slice)+
    show "mset (group_results ar rs) = mset (group_results ar' rs)"
      unfolding group_results_def eq using assms by (simp add: mset_sort_slice)
    fix a b assume ab: "a \<in> set (group_results ar rs)" "b \<in> set (group_results ar rs)" "a \<noteq> b"
    show "resultV2_less a b \<or> resultV2_less b a"
      using strict[OF assms(1)] ab by (rule sorted_wrt_map_total)
  qed
qed

lemma group_results_deterministic_witness:
  "group_results plain_arrangement [match_at ''r'' ''b'' 4 ''x'', match_at ''r'' ''a'' 1 ''y''] =
   group_results (plain_arrangement\<lparr>ar_results := rev\<rparr>)
     [match_at ''r'' ''b'' 4 ''x'', match_at ''r'' ''a'' 1 ''y'']"
  by (rule group_results_deterministic) (simp_all add: plain_arrangement_def)

end
