(* ===== verification/SearchPages.thy ===== *)
theory SearchPages
  imports SearchApi
begin

text \<open>
  The behaviour of the search API as a whole: failover to the backup, the extensions that
  are offered, the answers of the handlers, and the "show more" link read back by the query
  parser.
\<close>

section \<open>Matches\<close>

text \<open>
  Two files whose repository and path give the same text when they are joined by a dash
  are taken for one file: the second one is missing from the reply, and its matches are
  listed under the first.
\<close>

theorem group_results_collision:
  assumes "dedup_key r = dedup_key r'" "rearranges (ar_results ar)"
  shows "\<exists>x. group_results ar [r, r'] = [x] \<and>
    v2_file x = sr_file r \<and> v2_NumMatches x = sr_NumMatches r + sr_NumMatches r'"
proof -
  let ?x = "fill_lines ar (add_match r' True (add_match r False (new_ResultV2 r)))"
  have "dedupedResults [r, r'] = [(dedup_key r, add_match r' True (add_match r False (new_ResultV2 r)))]"
    using assms(1) by (simp add: dedupedResults_def add_result_def)
  then have "mset (group_results ar [r, r']) = mset [?x]"
    using mset_sort_slice[OF assms(2), of resultV2_less "[?x]"] by (simp add: group_results_def)
  then have "group_results ar [r, r'] = [?x]" by simp
  moreover have "v2_file ?x = sr_file r \<and> v2_NumMatches ?x = sr_NumMatches r + sr_NumMatches r'"
    by (simp add: fill_lines_def add_match_def new_ResultV2_def)
  ultimately show ?thesis by blast
qed

lemma group_results_collision_witness:
  "\<exists>x. group_results plain_arrangement [match_at ''a-b'' ''c'' 1 ''x'', match_at ''a'' ''b-c'' 1 ''y''] = [x] \<and>
    v2_file x = (''a-b'', ''c'') \<and> v2_NumMatches x = 2"
proof -
  have "dedup_key (match_at ''a-b'' ''c'' 1 ''x'') = dedup_key (match_at ''a'' ''b-c'' 1 ''y'')"
    by (simp add: dedup_key_def match_at_def)
  from group_results_collision[OF this, of plain_arrangement] show ?thesis
    by (simp add: plain_arrangement_def match_at_def)
qed

text \<open>
  The old reply lists every match once, none added and none lost, ordered by repository
  and path.
\<close>

theorem doSearch_results:
  assumes "rearranges arr" "rpc (bk_client backend) q = Inr search"
    and "doSearch arr elapsed rpc backend q = Inr reply"
  shows "mset (rs_Results reply) = mset (map convert_result (cs_Results search)) \<and>
    sorted_wrt (\<lambda>a b. \<not> path_less b a) (map (\<lambda>r. (r_Tree r, r_Path r)) (rs_Results reply))"
proof -
  have results: "rs_Results reply = sort_slice arr result_less (map convert_result (cs_Results search))"
    using assms(2,3) by (auto simp: doSearch_def res_simps)
  show ?thesis
    using v1_order.ordered_sort_slice[of arr "map convert_result (cs_Results search)"]
      mset_sort_slice[OF assms(1), of result_less "map convert_result (cs_Results search)"]
    by (simp add: results v1_order.ordered_def result_less_def sorted_wrt_map)
qed

definition one_backend :: "nat Backend" where
  "one_backend = Backend ''b'' ''h:1'' (new_I ''b'') 0 new_Availability None False False"

definition some_stats :: SearchStats where
  "some_stats = \<lparr>ss_Re2Time = 1, ss_GitTime = 1, ss_SortTime = 1, ss_IndexTime = 1,
     ss_AnalyzeTime = 1, ss_ExitReason = MATCH_LIMIT, ss_NumMatches = 2\<rparr>"

definition reply_with :: "SearchResult list \<Rightarrow> CodeSearchResult" where
  "reply_with rs = \<lparr>cs_Stats = Some some_stats, cs_Results = rs, cs_FileResults = [],
     cs_TreeResults = [], cs_IndexTime = 5\<rparr>"

lemma doSearch_results_witness:
  "\<exists>reply. doSearch rev 3 (\<lambda>c q. Inr (reply_with [match_at ''r'' ''b'' 1 ''x'', match_at ''r'' ''a'' 1 ''y'']))
      one_backend empty_Query = Inr reply \<and>
    mset (rs_Results reply) =
      {#convert_result (match_at ''r'' ''b'' 1 ''x''), convert_result (match_at ''r'' ''a'' 1 ''y'')#}"
proof -
  let ?rs = "[match_at ''r'' ''b'' 1 ''x'', match_at ''r'' ''a'' 1 ''y'']"
  obtain reply where r: "doSearch rev 3 (\<lambda>c q. Inr (reply_with ?rs)) one_backend empty_Query = Inr reply"
    by (simp add: doSearch_def reply_with_def convert_stats_def some_stats_def)
  from doSearch_results[OF rearranges_rev _ this, of "reply_with ?rs"] r show ?thesis
    by (simp add: reply_with_def)
qed

section \<open>Failover\<close>

text \<open>
  The backup is asked exactly when the backend is unavailable and has one. Then its
  answer, reply or error, is the answer of the search, and only then does the reply say
  that a backup was used; any other error of the backend is reported as it is.
\<close>

theorem doSearchV2_failover:
  assumes "\<forall>c. \<exists>e. rpc c q = Inl e \<or> (\<exists>search. rpc c q = Inr search \<and> cs_Stats search \<noteq> None \<and>
      cs_FileResults search = [] \<and> cs_TreeResults search = [])"
  shows "case rpc (bk_client backend) q of
      Inr search \<Rightarrow> \<exists>reply. doSearchV2 ar now elapsed rpc backend q = Inr reply \<and>
        r2_Results reply = group_results ar (cs_Results search) \<and> \<not> r2_BackupIdxUsed reply
    | Inl e \<Rightarrow>
        (case bk_BackupBackend backend of
           Some backup \<Rightarrow>
             if re_Code e = 14 then
               (case rpc (bk_client backup) q of
                  Inl e' \<Rightarrow> doSearchV2 ar now elapsed rpc backend q = Inl (Error e')
                | Inr search \<Rightarrow> \<exists>reply. doSearchV2 ar now elapsed rpc backend q = Inr reply \<and>
                    r2_Results reply = group_results ar (cs_Results search) \<and> r2_BackupIdxUsed reply)
             else doSearchV2 ar now elapsed rpc backend q = Inl (Error e)
         | None \<Rightarrow> doSearchV2 ar now elapsed rpc backend q = Inl (Error e))"
proof -
  have conv: "(\<exists>info. convert_stats elapsed (cs_Stats search) = Inr info) \<and>
      cs_FileResults search = [] \<and> cs_TreeResults search = []"
    if "rpc c q = Inr search" for c search
    using assms[rule_format, of c] that by (auto simp: convert_stats_def)
  show ?thesis
    by (auto simp: doSearchV2_def search_with_backup_def Unavailable_def dest!: conv
        split: sum.splits option.splits)
qed

lemma doSearchV2_failover_witness:
  "\<exists>reply. doSearchV2 plain_arrangement 9 3
      (\<lambda>c q. if c = 0 then Inl \<lparr>re_Code = 14, re_Desc = '''', re_Error = ''down''\<rparr> else Inr (reply_with []))
      (Backend ''p'' ''h:1'' (new_I ''p'') (0 :: nat) new_Availability
        (Some (Backend ''b'' ''h:2'' (new_I ''b'') 1 new_Availability None True True)) False True)
      empty_Query = Inr reply \<and> r2_BackupIdxUsed reply"
proof -
  let ?rpc = "\<lambda>c q. if c = (0::nat) then Inl \<lparr>re_Code = 14, re_Desc = '''', re_Error = ''down''\<rparr>
    else Inr (reply_with [])"
  let ?bk = "Backend ''p'' ''h:1'' (new_I ''p'') (0 :: nat) new_Availability
        (Some (Backend ''b'' ''h:2'' (new_I ''b'') 1 new_Availability None True True)) False True"
  have "\<forall>c. \<exists>e. ?rpc c empty_Query = Inl e \<or> (\<exists>search. ?rpc c empty_Query = Inr search \<and>
      cs_Stats search \<noteq> None \<and> cs_FileResults search = [] \<and> cs_TreeResults search = [])"
    by (auto simp: reply_with_def)
  from doSearchV2_failover[OF this, where backend = ?bk and ar = plain_arrangement and now = 9 and elapsed = 3]
  show ?thesis by auto
qed

section \<open>Extensions\<close>

lemma extensionCounts_lookup:
  "map_of (foldl count_ext counts exts) ext =
     (if count_list exts ext = 0 then map_of counts ext
      else Some ((case map_of counts ext of None \<Rightarrow> 0 | Some n \<Rightarrow> n) + int (count_list exts ext)))"
  by (induction exts arbitrary: counts) (auto simp: count_ext_def update_conv' split: option.splits)

lemma extensionCounts_distinct:
  "distinct (map fst counts) \<Longrightarrow> distinct (map fst (foldl count_ext counts exts))"
  by (induction exts arbitrary: counts) (auto simp: count_ext_def distinct_update)

lemma extensionCounts_spec:
  "(ext, n) \<in> set (extensionCounts keys) \<longleftrightarrow>
     n = int (count_list (map path_Ext keys) ext) \<and> n \<noteq> 0"
proof -
  have "distinct (map fst (extensionCounts keys))"
    unfolding extensionCounts_def by (rule extensionCounts_distinct) simp
  then have "(ext, n) \<in> set (extensionCounts keys) \<longleftrightarrow> map_of (extensionCounts keys) ext = Some n"
    by simp
  then show ?thesis by (auto simp: extensionCounts_def extensionCounts_lookup)
qed

text \<open>
  Of the extensions of the matching files, at most the five most frequent are offered,
  the most frequent first, and none when there is only one: each is offered once, with the
  number of files that have it, and no extension left out is more frequent than one that is
  offered.
\<close>

theorem popular_extensions_spec:
  assumes "rearranges (ar_exts ar)" "exts = popular_extensions ar (extensionCounts keys)"
  shows "length exts \<le> 5 \<and> length exts \<noteq> 1 \<and> distinct (map fe_Ext exts) \<and>
    sorted_wrt (\<lambda>a b. fe_Count b \<le> fe_Count a) exts \<and>
    (\<forall>e\<in>set exts. fe_Ext e \<noteq> [] \<and> fe_Count e = int (count_list (map path_Ext keys) (fe_Ext e))) \<and>
    (\<forall>e\<in>set exts. \<forall>ext. ext \<noteq> [] \<and> ext \<notin> fe_Ext ` set exts \<longrightarrow>
       int (count_list (map path_Ext keys) ext) \<le> fe_Count e)"
proof -
  let ?counts = "ar_exts ar (extensionCounts keys)"
  let ?mk = "\<lambda>(ext, count). \<lparr>fe_Ext = ext, fe_Count = count\<rparr>"
  let ?ins = "map ?mk (filter (\<lambda>(ext, count). ext \<noteq> []) ?counts)"
  define all where "all = sort_less ext_less ?ins"
  obtain c where c: "exts = take c all" "c \<le> 5" "c \<noteq> 1"
    using assms(2) by (auto simp: popular_extensions_def all_def Let_def split: if_splits)
  have len: "length exts \<noteq> 1"
    using assms(2) by (auto simp: popular_extensions_def all_def Let_def)
  have "distinct (map fst ?counts)"
  proof -
    have "mset (map fst ?counts) = mset (map fst (extensionCounts keys))"
      using rearranges_mset[OF assms(1)] by (metis mset_map)
    moreover have "distinct (map fst (extensionCounts keys))"
      unfolding extensionCounts_def by (rule extensionCounts_distinct) simp
    ultimately show ?thesis by (metis mset_eq_imp_distinct_iff)
  qed
  then have d: "distinct (map fst (filter (\<lambda>(ext, count). ext \<noteq> []) ?counts))"
    by (rule distinct_map_filter)
  have "map fe_Ext ?ins = map fst (filter (\<lambda>(ext, count). ext \<noteq> []) ?counts)"
    by (simp add: split_beta comp_def)
  then have d': "distinct (map fe_Ext ?ins)" using d by (simp only:)
  have "mset (map fe_Ext all) = mset (map fe_Ext ?ins)"
    by (simp only: all_def mset_map mset_sort_less)
  then have dist: "distinct (map fe_Ext all)" by (rule mset_eq_imp_distinct_iff[THEN iffD2, OF _ d'])
  have sorted: "sorted_wrt (\<lambda>a b. fe_Count b \<le> fe_Count a) all"
    using ext_order.ordered_sort_less[of ?ins]
    by (simp add: all_def ext_order.ordered_def ext_less_def not_less)
  have mem: "e \<in> set all \<longleftrightarrow> fe_Ext e \<noteq> [] \<and> fe_Count e \<noteq> 0 \<and>
      fe_Count e = int (count_list (map path_Ext keys) (fe_Ext e))" for e
  proof -
    have "e \<in> set all \<longleftrightarrow> fe_Ext e \<noteq> [] \<and> (fe_Ext e, fe_Count e) \<in> set (extensionCounts keys)"
      by (cases e) (force simp: all_def rearranges_set[OF assms(1)])
    then show ?thesis using extensionCounts_spec by blast
  qed
  have rest: "int (count_list (map path_Ext keys) ext) \<le> fe_Count e"
    if "e \<in> set exts" "ext \<noteq> []" "ext \<notin> fe_Ext ` set exts" for e ext
  proof (cases "count_list (map path_Ext keys) ext = 0")
    case True
    have "fe_Count e = int (count_list (map path_Ext keys) (fe_Ext e))"
      using that(1) mem c(1) by (meson in_set_takeD)
    then show ?thesis using True by simp
  next
    case False
    let ?e = "\<lparr>fe_Ext = ext, fe_Count = int (count_list (map path_Ext keys) ext)\<rparr>"
    have "?e \<in> set all" using mem[of ?e] False that(2) by simp
    moreover have "?e \<notin> set (take c all)" using that(3) c(1) by (auto simp: image_iff)
    ultimately have "?e \<in> set (drop c all)" by (metis Un_iff append_take_drop_id set_append)
    then show ?thesis
      using sorted that(1) c(1) sorted_wrt_append[of _ "take c all" "drop c all"]
      by (metis (no_types, lifting) FileExtension.select_convs(2) append_take_drop_id)
  qed
  show ?thesis
    using len c(2) dist sorted rest mem
    by (auto simp: c(1) distinct_take take_map[symmetric] sorted_wrt_take dest: in_set_takeD)
qed

lemma popular_extensions_spec_witness:
  "length (popular_extensions plain_arrangement (extensionCounts [''r-a.go'', ''r-b.go'', ''r-c.py''])) \<le> 5"
  using popular_extensions_spec[of plain_arrangement _ "[''r-a.go'', ''r-b.go'', ''r-c.py'']", OF _ refl]
  by (simp add: plain_arrangement_def)

section \<open>Answers of the handlers\<close>

lemma map_res_no_error: "(\<And>x e. f x \<noteq> Inl (Error e)) \<Longrightarrow> map_res f xs \<noteq> Inl (Error e)"
  by (induction xs) (auto simp: res_simps)

lemma convert_no_error:
  "map_res convert_file fs \<noteq> Inl (Error e)" "map_res convert_tree ts \<noteq> Inl (Error e)"
  "convert_stats elapsed stats \<noteq> Inl (Error e)"
  by (rule map_res_no_error, simp add: convert_file_def split: option.split,
      rule map_res_no_error, simp add: convert_tree_def split: option.split,
      simp add: convert_stats_def split: option.split)

lemma doSearchV2_cases:
  "doSearchV2 ar now elapsed rpc backend q = Inl (Error e) \<Longrightarrow>
     fst (search_with_backup rpc backend q) = Inl e"
  "doSearchV2 ar now elapsed rpc backend q = Inr reply \<Longrightarrow>
     \<exists>search. fst (search_with_backup rpc backend q) = Inr search"
  by (auto simp: doSearchV2_def res_simps convert_no_error split: prod.splits sum.splits)

text \<open>
  A search request is always answered with one of three statuses. It is 200 exactly when
  there is a reply; a request that names no backend that exists, does not parse, has nothing
  to search for, or that the backend calls invalid, gets 400; and the backend's other errors
  get 500. The query the backend sees always has a line.
\<close>

theorem ServerSideAPISearchV2_status:
  assumes "ServerSideAPISearchV2 ar now elapsed rpc cfg bks params = Inr (reply, status, code, msg)"
  shows "(reply \<noteq> None \<longleftrightarrow> status = 200) \<and> status \<in> {200, 400, 500} \<and>
    (snd (getBackendFromQuery bks params) = None \<longrightarrow> status = 400 \<and> code = ''bad_backend'') \<and>
    (status = 500 \<longrightarrow> (\<exists>backend q e. snd (getBackendFromQuery bks params) = Some backend \<and>
       q_Line q \<noteq> [] \<and> fst (search_with_backup rpc backend q) = Inl e \<and> re_Code e \<noteq> 3)) \<and>
    (status = 200 \<longrightarrow> (\<exists>backend q search. snd (getBackendFromQuery bks params) = Some backend \<and>
       q_Line q \<noteq> [] \<and> fst (search_with_backup rpc backend q) = Inr search))"
proof -
  obtain name backend where bk: "getBackendFromQuery bks params = (name, backend)" by fastforce
  show ?thesis
  proof (cases backend)
    case None
    then show ?thesis using assms by (simp add: ServerSideAPISearchV2_def bk)
  next
    case (Some be)
    show ?thesis
    proof (cases "request_query (cfg_DefaultMaxMatches cfg) (map_of params)")
      case (Inl f)
      then show ?thesis using assms Some
        by (auto simp: ServerSideAPISearchV2_def bk split: failure.splits bad_request.splits)
    next
      case (Inr q)
      then have "q_Line q \<noteq> []"
        by (auto simp: request_query_def split: sum.splits failure.splits if_splits)
      with assms Some Inr show ?thesis
        by (auto simp: ServerSideAPISearchV2_def bk getQueryError_def InvalidArgument_def
            split: sum.splits failure.splits if_splits dest!: doSearchV2_cases)
    qed
  qed
qed

definition some_Config :: Config where
  "some_Config = \<lparr>cfg_DocRoot = [], cfg_Feedback_MailTo = [], cfg_GoogleAnalyticsId = [],
     cfg_GoogleIAPConfig = \<lparr>iap_ProjectNumber = [], iap_BackendServiceID = [], iap_ProjectID = []\<rparr>,
     cfg_ReverseProxy = False, cfg_Backends = [], cfg_Listen = [], cfg_HeaderHTML = [],
     cfg_FooterHTML = [], cfg_Sentry_URI = [], cfg_Reload = False,
     cfg_StatsD = \<lparr>sd_Address = [], sd_Prefix = [], sd_Tags = [], sd_TagsFormat = []\<rparr>,
     cfg_DefaultMaxMatches = 50, cfg_IndexConfig = \<lparr>ic_Name = [], ic_Repositories = []\<rparr>,
     cfg_DefaultSearchRepos = [], cfg_LinkConfigs = [], cfg_ZoektRepoCache = [],
     cfg_FileviewerOnly = False\<rparr>"

lemma ServerSideAPISearchV2_status_witness:
  "\<exists>reply msg. ServerSideAPISearchV2 plain_arrangement 9 3 (\<lambda>c q. Inr (reply_with [])) some_Config
      [(''b'', one_backend)] [(''line'', [''x''])] = Inr (Some reply, 200, [], msg) \<and>
    (\<exists>search. fst (search_with_backup (\<lambda>c q. Inr (reply_with [])) one_backend empty_Query) = Inr search)"
proof -
  let ?run = "ServerSideAPISearchV2 plain_arrangement 9 3 (\<lambda>c q. Inr (reply_with [])) some_Config
      [(''b'', one_backend)] [(''line'', [''x''])]"
  have "\<exists>reply. ?run = Inr (Some reply, 200, [], [])"
    by (simp add: ServerSideAPISearchV2_def getBackendFromQuery_def values_Get_def request_query_def
        extractQuery_def is_regex_def set_pattern_def set_fold_case_def empty_Query_def doSearchV2_def
        search_with_backup_def reply_with_def convert_stats_def some_stats_def)
  then obtain reply where r: "?run = Inr (Some reply, 200, [], [])" by blast
  then have "\<exists>backend q search. snd (getBackendFromQuery [(''b'', one_backend)] [(''line'', [''x''])]) = Some backend \<and>
      q_Line q \<noteq> [] \<and> fst (search_with_backup (\<lambda>c q. Inr (reply_with [])) backend q) = Inr search"
    using ServerSideAPISearchV2_status[OF r] by simp
  with r show ?thesis by (auto simp: search_with_backup_def)
qed

section \<open>The next page\<close>

definition limit_key :: string where "limit_key = ''max_matches''"

definition limit_option :: "nat \<Rightarrow> string \<times> string" where
  "limit_option n = (limit_key, string_of_nat n)"

lemma fine_options_parts:
  assumes "fine_options opts" "kv \<in> set opts"
  shows "fst kv \<in> set scope_keys" "list_all plain_char (snd kv)"
  using assms by (auto simp: fine_options_def list_all_iff)

lemma no_blank_plain: "list_all plain_char v \<Longrightarrow> CHR '' '' \<notin> set v"
  using plain_char_not_space by (auto simp: list_all_iff)

lemma scope_keys_chars: "k \<in> set scope_keys \<Longrightarrow> CHR '' '' \<notin> set k \<and> CHR '':'' \<notin> set k"
  by (auto simp: scope_keys_def)

lemma limit_key_chars: "limit_key \<in> set scope_keys" "CHR '' '' \<notin> set limit_key" "CHR '':'' \<notin> set limit_key"
  by (simp_all add: limit_key_def scope_keys_def)

definition starts_limit :: "string \<Rightarrow> bool" where
  "starts_limit piece \<longleftrightarrow> HasPrefix piece (limit_key @ '':'')"

lemma starts_limit_word: "plain_main w \<Longrightarrow> \<not> starts_limit w"
  by (auto simp: starts_limit_def HasPrefix_iff plain_main_def)

lemma starts_limit_option:
  assumes "CHR '':'' \<notin> set k"
  shows "starts_limit (opt_printed (k, v)) \<longleftrightarrow> k = limit_key"
proof
  assume "starts_limit (opt_printed (k, v))"
  then obtain t where "k @ CHR '':'' # v = limit_key @ CHR '':'' # t"
    by (auto simp: starts_limit_def HasPrefix_iff opt_printed_def)
  then have "Cut CHR '':'' (k @ CHR '':'' # v) = Cut CHR '':'' (limit_key @ CHR '':'' # t)" by simp
  then show "k = limit_key" using assms limit_key_chars by (simp add: Cut_append)
qed (simp add: starts_limit_def opt_printed_def HasPrefix_iff)

lemma string_of_int_nat [simp]: "string_of_int (int n) = string_of_nat n"
  by (simp add: string_of_int_def)

lemma string_of_nat_plain: "list_all plain_char (string_of_nat n)"
proof -
  have "plain_char c" if "is_digit c" for c
    using that by (auto simp: plain_char_def graphic_def is_digit_def)
  then show ?thesis using string_of_nat_digits[of _ n] by (auto simp: list_all_iff)
qed

lemma pieces_no_blank:
  assumes "list_all plain_main ws" "fine_options opts" "x \<in> set (ws @ map opt_printed opts)"
  shows "CHR '' '' \<notin> set x"
proof -
  have "CHR '' '' \<notin> set (opt_printed kv)" if "kv \<in> set opts" for kv
    using fine_options_parts[OF assms(2) that] no_blank_plain scope_keys_chars
    by (cases kv) (auto simp: opt_printed_def)
  moreover have "CHR '' '' \<notin> set w" if "w \<in> set ws" for w
    using that assms(1) no_blank_plain by (auto simp: list_all_iff plain_main_def)
  ultimately show ?thesis using assms(3) by auto
qed

lemma unique_split:
  assumes "l1 @ x # l2 = ps1 @ y # ps2" "\<forall>z\<in>set l1 \<union> set l2. \<not> P z" "P y"
  shows "ps1 = l1"
  using assms
proof (induction l1 arbitrary: ps1)
  case Nil
  then show ?case by (cases ps1) auto
next
  case (Cons z l1)
  then obtain ps where "ps1 = z # ps" by (cases ps1) auto
  with Cons show ?case by auto
qed

text \<open>No limit in the query: the new one is put at the end.\<close>

lemma next_query_new:
  assumes "ws \<noteq> []" "list_all plain_main ws" "fine_options opts" "limit_key \<notin> fst ` set opts"
  shows "next_query (query_printed ws opts) (int m) = query_printed ws (opts @ [limit_option (3 * m)])"
proof -
  let ?pieces = "ws @ map opt_printed opts"
  have none: "\<not> starts_limit x" if "x \<in> set ?pieces" for x
  proof -
    have "\<not> starts_limit (opt_printed kv)" if "kv \<in> set opts" for kv
      using that assms(4) fine_options_parts(1)[OF assms(3) that] scope_keys_chars
        starts_limit_option[of "fst kv" "snd kv"] by (auto simp: image_iff)
    then show ?thesis using that assms(2) starts_limit_word by (auto simp: list_all_iff)
  qed
  have "\<not> Contains (query_printed ws opts) (CHR '' '' # limit_key @ '':'')"
  proof
    assume "Contains (query_printed ws opts) (CHR '' '' # limit_key @ '':'')"
    then obtain i where "index_opt (query_printed ws opts) (CHR '' '' # limit_key @ '':'') = Some i"
      by (auto simp: Contains_def)
    then obtain a b where "query_printed ws opts = a @ (CHR '' '' # limit_key @ '':'') @ b"
      using index_opt_Some_split by metis
    then have "join '' '' ?pieces = a @ CHR '' '' # (limit_key @ '':'') @ b"
      by (simp add: query_printed_def)
    then obtain ps1 x ps2 where "?pieces = ps1 @ ((limit_key @ '':'') @ x) # ps2"
      using assms(1) limit_key_chars(2) pieces_no_blank[OF assms(2,3)]
      by (elim occurrence_piece) simp_all
    then have "(limit_key @ '':'') @ x \<in> set ?pieces" by (metis in_set_conv_decomp)
    then show False using none by (auto simp: starts_limit_def HasPrefix_iff)
  qed
  then have "next_query (query_printed ws opts) (int m) =
      query_printed ws opts @ CHR '' '' # limit_key @ CHR '':'' # string_of_nat (3 * m)"
    using string_of_int_nat[of "3 * m"] by (simp add: next_query_def limit_key_def mult.commute)
  also have "\<dots> = query_printed ws (opts @ [limit_option (3 * m)])"
    using assms(1) join_append_ne[of ?pieces "[opt_printed (limit_option (3 * m))]" "'' ''"]
    by (simp add: query_printed_def limit_option_def opt_printed_def)
  finally show ?thesis .
qed

text \<open>A limit in the query: it is replaced where it stands.\<close>

text \<open>What stands behind the limit in a printed query.\<close>

definition behind_limit :: "(string \<times> string) list \<Rightarrow> string" where
  "behind_limit opts = (if opts = [] then [] else CHR '' '' # join '' '' (map opt_printed opts))"

definition limit_written :: "nat \<Rightarrow> string" where
  "limit_written n = CHR '' '' # limit_key @ CHR '':'' # string_of_nat n"

lemma query_printed_limit:
  assumes "ws \<noteq> []"
  shows "query_printed ws (o1 @ limit_option n # o2) =
    join '' '' (ws @ map opt_printed o1) @ limit_written n @ behind_limit o2"
proof -
  let ?l1 = "ws @ map opt_printed o1" and ?l2 = "map opt_printed o2"
  have "query_printed ws (o1 @ limit_option n # o2) = join '' '' (?l1 @ (opt_printed (limit_option n) # ?l2))"
    by (simp add: query_printed_def)
  also have "\<dots> = join '' '' ?l1 @ '' '' @ join '' '' (opt_printed (limit_option n) # ?l2)"
    using assms by (intro join_append_ne) simp_all
  also have "join '' '' (opt_printed (limit_option n) # ?l2) = opt_printed (limit_option n) @ behind_limit o2"
    by (cases o2) (simp_all add: join_Cons_ne behind_limit_def)
  finally show ?thesis by (simp add: limit_option_def opt_printed_def limit_written_def)
qed

lemma no_other_limit:
  assumes "list_all plain_main ws" "fine_options (o1 @ limit_option m # o2)"
  shows "\<forall>z\<in>set (ws @ map opt_printed o1) \<union> set (map opt_printed o2). \<not> starts_limit z"
proof -
  have other: "limit_key \<notin> fst ` set (o1 @ o2)" using assms(2) by (auto simp: fine_options_def limit_option_def)
  have "\<not> starts_limit (opt_printed kv)" if "kv \<in> set (o1 @ o2)" for kv
  proof -
    have "CHR '':'' \<notin> set (fst kv)"
      using that fine_options_parts(1)[OF assms(2), of kv] scope_keys_chars[of "fst kv"] by auto
    moreover have "fst kv \<noteq> limit_key" using that other by (metis image_eqI)
    ultimately show ?thesis using starts_limit_option[of "fst kv" "snd kv"] by simp
  qed
  then show ?thesis using assms(1) starts_limit_word by (auto simp: list_all_iff)
qed

text \<open>The limit is found where it was written, and nowhere before.\<close>

lemma limit_found:
  assumes "ws \<noteq> []" "list_all plain_main ws" "fine_options (o1 @ limit_option m # o2)"
  shows "index_opt (query_printed ws (o1 @ limit_option m # o2)) (limit_written m) =
    Some (length (join '' '' (ws @ map opt_printed o1)))"
proof -
  let ?opts = "o1 @ limit_option m # o2"
  let ?l1 = "ws @ map opt_printed o1" and ?l2 = "map opt_printed o2"
  obtain i where i: "index_opt (query_printed ws ?opts) (limit_written m) = Some i"
    unfolding query_printed_limit[OF assms(1)] using index_opt_append by blast
  then obtain t where occ: "query_printed ws ?opts = take i (query_printed ws ?opts) @ limit_written m @ t"
    using index_opt_Some_split by blast
  let ?a = "take i (query_printed ws ?opts)"
  have "join '' '' (ws @ map opt_printed ?opts) = ?a @ CHR '' '' # (limit_key @ CHR '':'' # string_of_nat m) @ t"
    using occ by (simp add: query_printed_def limit_written_def)
  then obtain ps1 x ps2 where ps: "ws @ map opt_printed ?opts =
      ps1 @ ((limit_key @ CHR '':'' # string_of_nat m) @ x) # ps2" "?a = join '' '' ps1"
  proof (rule occurrence_piece)
    show "ws @ map opt_printed ?opts \<noteq> []" using assms(1) by simp
    show "CHR '' '' \<notin> set (limit_key @ CHR '':'' # string_of_nat m)"
      using limit_key_chars no_blank_plain[OF string_of_nat_plain, of m] by simp
    show "CHR '' '' \<notin> set z" if "z \<in> set (ws @ map opt_printed ?opts)" for z
      using pieces_no_blank[OF assms(2,3) that] .
  qed
  have "ps1 = ?l1"
    using ps(1) no_other_limit[OF assms(2,3)] by (intro unique_split[of ?l1 _ ?l2 _ _ ps2 starts_limit])
      (auto simp: starts_limit_def HasPrefix_iff)
  then have a: "?a = join '' '' ?l1" using ps(2) by simp
  have "length ?a < length (query_printed ws ?opts)" by (subst occ) (simp add: limit_written_def)
  then show ?thesis using i a by (metis length_take min_def nat_less_le)
qed

lemma next_query_replaced:
  assumes "ws \<noteq> []" "list_all plain_main ws" "fine_options (o1 @ limit_option m # o2)"
  shows "next_query (query_printed ws (o1 @ limit_option m # o2)) (int m) =
    query_printed ws (o1 @ limit_option (3 * m) # o2)"
proof -
  let ?query = "query_printed ws (o1 @ limit_option m # o2)" and ?l1 = "ws @ map opt_printed o1"
  note printed = query_printed_limit[OF assms(1)]
  have replaced: "ReplaceFirst ?query (limit_written m) (limit_written (3 * m)) =
      join '' '' ?l1 @ limit_written (3 * m) @ behind_limit o2"
    by (simp add: ReplaceFirst_def limit_found[OF assms]) (simp add: printed)
  have "Contains ?query (CHR '' '' # limit_key @ '':'')"
    using index_opt_append[of "join '' '' ?l1" "CHR '' '' # limit_key @ '':''" "string_of_nat m @ behind_limit o2"]
    by (simp add: Contains_def printed limit_written_def)
  then show ?thesis
    using replaced string_of_int_nat[of "3 * m"] unfolding printed[of o1 "3 * m"]
    by (simp add: next_query_def limit_key_def limit_written_def mult.commute)
qed

definition set_limit :: "(string \<times> string) list \<Rightarrow> nat \<Rightarrow> (string \<times> string) list" where
  "set_limit opts m =
     (if limit_key \<in> fst ` set opts
      then map (\<lambda>kv. if fst kv = limit_key then limit_option m else kv) opts
      else opts @ [limit_option m])"

lemma set_limit_unique:
  assumes "distinct (map fst (o1 @ kv # o2))" "fst kv = limit_key"
  shows "set_limit (o1 @ kv # o2) m = o1 @ limit_option m # o2"
proof -
  have "map (\<lambda>kv. if fst kv = limit_key then limit_option m else kv) os = os"
    if "limit_key \<notin> fst ` set os" for os
    using that by (induction os) auto
  then show ?thesis using assms by (simp add: set_limit_def image_Un)
qed

lemma value_of_set_limit:
  "k \<noteq> limit_key \<Longrightarrow> value_of (set_limit opts m) k = value_of opts k"
proof -
  assume k: "k \<noteq> limit_key"
  have "map_of (map (\<lambda>kv. if fst kv = limit_key then limit_option m else kv) opts) k = map_of opts k"
    using k by (induction opts) (auto simp: limit_option_def)
  moreover have "map_of (opts @ [limit_option m]) k = map_of opts k"
    using k by (simp add: limit_option_def map_add_def split: option.splits)
  ultimately show ?thesis by (simp add: value_of_def map_string_def set_limit_def)
qed

lemma fine_set_limit:
  assumes "fine_options opts"
  shows "fine_options (set_limit opts m)"
proof -
  let ?f = "\<lambda>kv. if fst kv = limit_key then limit_option m else kv"
  have "map fst (map ?f opts) = map fst opts" by (simp add: limit_option_def)
  moreover have "list_all (\<lambda>(k, v). k \<in> set scope_keys \<and> list_all plain_char v) (map ?f opts)"
    using assms limit_key_chars string_of_nat_plain
    by (auto simp: fine_options_def list_all_iff limit_option_def)
  ultimately show ?thesis
    using assms limit_key_chars string_of_nat_plain
    by (auto simp: set_limit_def fine_options_def limit_option_def simp del: map_map)
qed

lemma max_matches_set_limit:
  "m < 2 ^ 63 \<Longrightarrow> distinct (map fst opts) \<Longrightarrow> max_matches_is (set_limit opts m) m"
proof -
  assume m: "m < 2 ^ 63" and d: "distinct (map fst opts)"
  have "map_of (set_limit opts m) limit_key = Some (string_of_nat m)"
  proof (cases "limit_key \<in> fst ` set opts")
    case True
    then have "map_of (map (\<lambda>kv. if fst kv = limit_key then limit_option m else kv) opts) limit_key =
        Some (string_of_nat m)"
      by (induction opts) (auto simp: limit_option_def)
    then show ?thesis using True by (simp add: set_limit_def)
  next
    case False
    then have "map_of opts limit_key = None" by (simp add: map_of_eq_None_iff)
    then show ?thesis using False by (simp add: set_limit_def limit_option_def map_add_def)
  qed
  then show ?thesis using m by (simp add: max_matches_is_def limit_key_def)
qed

lemma next_query_set_limit:
  assumes "ws \<noteq> []" "list_all plain_main ws" "fine_options opts"
    and "limit_key \<in> fst ` set opts \<Longrightarrow> map_of opts limit_key = Some (string_of_nat m)"
  shows "next_query (query_printed ws opts) (int m) = query_printed ws (set_limit opts (3 * m))"
proof (cases "limit_key \<in> fst ` set opts")
  case True
  then have "map_of opts limit_key = Some (string_of_nat m)" by (rule assms(4))
  then obtain o1 o2 where opts: "opts = o1 @ limit_option m # o2"
    unfolding limit_option_def by (metis map_of_SomeD in_set_conv_decomp)
  then show ?thesis
    using next_query_replaced[OF assms(1,2), of o1 m o2] assms(3)
      set_limit_unique[of o1 "limit_option m" o2 "3 * m"]
    by (simp add: fine_options_def limit_option_def)
next
  case False
  then show ?thesis using next_query_new[OF assms(1-3) False] by (simp add: set_limit_def)
qed

text \<open>
  C15. The link for more matches asks the same query again with three times the limit: where
  a query of words and operators is written with a limit or without one (then the
  configured limit applies), the text that the link carries is read back as the same query,
  every field unchanged, the limit tripled.
\<close>

theorem next_page_query:
  assumes "ws \<noteq> []" "list_all plain_main ws" "fine_options opts" "max_matches_is opts n"
    and "n < 2 ^ 31" "map_of opts ''max_matches'' = None \<or> n \<noteq> 0"
    and "0 < d" "d < 2 ^ 31" "m = (if n = 0 then d else n)"
  shows "\<exists>q. ParseQuery (query_printed ws opts) g = Inr q \<and>
    (if q_MaxMatches q = 0 then int d else q_MaxMatches q) = int m \<and>
    ParseQuery (next_query (query_printed ws opts) (int m)) g = Inr (q\<lparr>q_MaxMatches := int32 (3 * int m)\<rparr>)"
proof -
  have n: "int32 (int n) = int n" using assms(5) by (intro int32_id) simp_all
  have limit: "map_of opts limit_key = Some (string_of_nat m)" if "limit_key \<in> fst ` set opts"
  proof -
    have "map_of opts ''max_matches'' \<noteq> None" using that by (simp add: limit_key_def map_of_eq_None_iff)
    then show ?thesis using assms(4,6,9) by (auto simp: max_matches_is_def limit_key_def)
  qed
  have small: "3 * m < 2 ^ 63" using assms(5,8,9) by (auto split: if_splits)
  have text': "next_query (query_printed ws opts) (int m) = query_printed ws (set_limit opts (3 * m))"
    by (rule next_query_set_limit[OF assms(1-3)]) (rule limit)
  have "distinct (map fst opts)" using assms(3) by (simp add: fine_options_def)
  note new = ParseQuery_printed[OF assms(1,2) fine_set_limit[OF assms(3)] max_matches_set_limit[OF small this], of g]
  have keys: "value_of (set_limit opts (3 * m)) k = value_of opts k" if "k \<noteq> ''max_matches''" for k
    using that by (simp add: value_of_set_limit limit_key_def)
  show ?thesis
  proof (intro exI conjI)
    show "ParseQuery (query_printed ws opts) g = Inr
      \<lparr>q_Line = quoted g (join '' '' ws), q_File = quoted g (value_of opts ''file''),
       q_Repo = quoted g (value_of opts ''repo''), q_Tags = value_of opts ''tags'',
       q_FoldCase = (\<not> has_upper (quoted g (join '' '' ws))),
       q_NotFile = quoted g (value_of opts ''-file''), q_NotRepo = quoted g (value_of opts ''-repo''),
       q_NotTags = value_of opts ''-tags'', q_MaxMatches = int n,
       q_FilenameOnly = False, q_TreenameOnly = False, q_ContextLines = 0\<rparr>" (is "_ = Inr ?q")
      using ParseQuery_printed[OF assms(1-4), of g] by (simp add: n)
    show "(if q_MaxMatches ?q = 0 then int d else q_MaxMatches ?q) = int m" by (simp add: assms(9))
    show "ParseQuery (next_query (query_printed ws opts) (int m)) g =
        Inr (?q\<lparr>q_MaxMatches := int32 (3 * int m)\<rparr>)"
      unfolding text' new by (simp add: keys)
  qed
qed

lemma next_page_query_witness:
  "\<exists>q. ParseQuery ''foo max_matches:50 file:a'' True = Inr q \<and>
     ParseQuery (next_query ''foo max_matches:50 file:a'' 50) True = Inr (q\<lparr>q_MaxMatches := 150\<rparr>)"
proof -
  let ?opts = "[(''max_matches'', ''50''), (''file'', ''a'')]"
  have "list_all plain_main [''foo'']" by (simp add: plain_main_def plain_char_def graphic_def)
  moreover have "fine_options ?opts"
    by (simp add: fine_options_def plain_char_def graphic_def scope_keys_def)
  moreover have "max_matches_is ?opts 50" by (simp add: max_matches_is_def string_of_nat.simps)
  moreover have "int32 150 = 150" by (simp add: int32_id)
  ultimately show ?thesis
    using next_page_query[of "[''foo'']" ?opts 50 7 50 True]
    by (auto simp: query_printed_def opt_printed_def)
qed

text \<open>
  Where the query begins with its limit, the link for more matches is broken: it adds a
  second limit at the end, and the query it carries is refused.
\<close>

theorem next_page_refused:
  assumes "fine_options (limit_option n # opts)"
  shows "\<exists>k. ParseQuery (next_query (query_printed [] (limit_option n # opts)) (int n)) g =
    Inl (Error (GotTermTwice k))"
proof -
  let ?opts = "limit_option n # opts"
  let ?pieces = "map opt_printed ?opts"
  have "\<not> starts_limit (opt_printed kv)" if "kv \<in> set opts" for kv
  proof -
    have "limit_key \<notin> fst ` set opts" using assms by (simp add: fine_options_def limit_option_def)
    then have "fst kv \<noteq> limit_key" using that by (metis image_eqI)
    moreover have "CHR '':'' \<notin> set (fst kv)"
      using that fine_options_parts(1)[OF assms, of kv] scope_keys_chars[of "fst kv"] by simp
    ultimately show ?thesis using starts_limit_option[of "fst kv" "snd kv"] by simp
  qed
  then have none: "\<not> starts_limit x" if "x \<in> set (tl ?pieces)" for x using that by auto
  have "\<not> Contains (query_printed [] ?opts) (CHR '' '' # limit_key @ '':'')"
  proof
    assume "Contains (query_printed [] ?opts) (CHR '' '' # limit_key @ '':'')"
    then obtain i where "index_opt (query_printed [] ?opts) (CHR '' '' # limit_key @ '':'') = Some i"
      by (auto simp: Contains_def)
    then obtain a b where "query_printed [] ?opts = a @ (CHR '' '' # limit_key @ '':'') @ b"
      using index_opt_Some_split by metis
    then have "join '' '' ?pieces = a @ CHR '' '' # (limit_key @ '':'') @ b"
      by (simp add: query_printed_def)
    then obtain ps1 x ps2 where "?pieces = ps1 @ ((limit_key @ '':'') @ x) # ps2" "ps1 \<noteq> []"
      using limit_key_chars(2) pieces_no_blank[OF _ assms, of "[]"]
      by (elim occurrence_piece) simp_all
    then have "(limit_key @ '':'') @ x \<in> set (tl ?pieces)" by (cases ps1) auto
    then show False using none by (auto simp: starts_limit_def HasPrefix_iff)
  qed
  then have "next_query (query_printed [] ?opts) (int n) =
      query_printed [] ?opts @ CHR '' '' # limit_key @ CHR '':'' # string_of_nat (3 * n)"
    using string_of_int_nat[of "3 * n"] by (simp add: next_query_def limit_key_def mult.commute)
  also have "\<dots> = query_printed [] (?opts @ [limit_option (3 * n)])"
    using join_append_ne[of ?pieces "[opt_printed (limit_option (3 * n))]" "'' ''"]
    by (simp add: query_printed_def limit_option_def opt_printed_def)
  finally have link: "next_query (query_printed [] ?opts) (int n) =
    query_printed [] (?opts @ [limit_option (3 * n)])" .
  have "list_all option_fine (?opts @ [limit_option (3 * n)])"
    using fine_options_fine[OF assms] string_of_nat_plain[of "3 * n"]
    by (simp add: option_fine_def limit_option_def limit_key_def knownTags_def)
  then show ?thesis
    unfolding link using ParseQuery_twice[of "[]" "?opts @ [limit_option (3 * n)]" g]
    by (auto simp: limit_option_def)
qed

lemma next_page_refused_witness:
  "\<exists>k. ParseQuery (next_query ''max_matches:5 file:a'' 5) True = Inl (Error (GotTermTwice k))"
proof -
  have "fine_options (limit_option 5 # [(''file'', ''a'')])"
    by (simp add: fine_options_def plain_char_def graphic_def scope_keys_def limit_option_def
        limit_key_def string_of_nat.simps)
  from next_page_refused[OF this, of True] show ?thesis
    by (simp add: query_printed_def opt_printed_def limit_option_def limit_key_def string_of_nat.simps)
qed

end
