(* ===== verification/CompositeQuery.thy ===== *)
theory CompositeQuery
  imports SearchPages GoUrl
begin

text \<open>
  \<^verbatim>\<open>cmd/lgiap\<close>, the command line client behind the identity proxy. \<^verbatim>\<open>composite\<close> runs several
  queries side by side and puts their answers together: what some of them find, less the files
  and repositories that others find. The other two commands ask one query and store the
  credentials. HTTP calls and files are parameters; a file of credentials holds a JSON object.
\<close>

section \<open>Composite queries\<close>

record queryExpression =
  qe_Query :: string
  qe_Operator :: string

record exclusionKey =
  ek_Tree :: string
  ek_Version :: string
  ek_Path :: string

text \<open>The queries are pointers, so the file can hold a null among them.\<close>

record composition =
  cp_Queries :: "queryExpression option list"
  cp_ExcludeFiles :: "exclusionKey list"
  cp_VersionAware :: bool
  cp_MaxMatches :: int

datatype iap_error =
    UnknownOperator string
  | DuplicateMaxMatches
  | Io string
  | UnexpectedStatus int string
  | BadJSON string
  | NoArgument
  | MissingEnvironment
  | GetAuthCode iap_error

definition knownOperators :: "string set" where
  "knownOperators = {'''', ''include'', ''exclude_by_file'', ''exclude_by_repo''}"

definition check_query :: "int \<Rightarrow> queryExpression option \<Rightarrow> (iap_error, queryExpression) res" where
  "check_query maxMatches q' =
     (case q' of
        None \<Rightarrow> Inl (Panic NilDereference)
      | Some q \<Rightarrow>
          if qe_Operator q \<notin> knownOperators then Inl (Error (UnknownOperator (qe_Operator q)))
          else if maxMatches = 0 then Inr q
          else if Contains (qe_Query q) ''max_matches:'' then Inl (Error DuplicateMaxMatches)
          else Inr (q\<lparr>qe_Query := qe_Query q @ '' max_matches:'' @ string_of_int maxMatches\<rparr>))"

text \<open>
  The goroutines send their answers over an unbuffered channel; the loop takes them in the order
  in which they arrive until there is one for each query, or one that is an error. Nothing
  cancels the context before the loop ends.
\<close>

type_synonym arrival = "queryExpression \<times> (iap_error + string)"

fun collect :: "nat \<Rightarrow> arrival list \<Rightarrow> (iap_error, (queryExpression \<times> string) list) res" where
  "collect 0 arrivals = Inr []"
| "collect (Suc n) [] = Inr []"
| "collect (Suc n) ((q, Inl e) # arrivals) = Inl (Error e)"
| "collect (Suc n) ((q, Inr body) # arrivals) =
     bind_res (collect n arrivals) (\<lambda>rs. Inr ((q, body) # rs))"

definition makeExcludedFileKey :: "bool \<Rightarrow> Result \<Rightarrow> exclusionKey" where
  "makeExcludedFileKey aware res =
     \<lparr>ek_Tree = r_Tree res, ek_Version = (if aware then r_Version res else []), ek_Path = r_Path res\<rparr>"

definition makeExcludedRepoKey :: "bool \<Rightarrow> Result \<Rightarrow> exclusionKey" where
  "makeExcludedRepoKey aware res = (makeExcludedFileKey aware res)\<lparr>ek_Path := []\<rparr>"

record tally =
  tl_allFound :: "Result list"
  tl_excludedFiles :: "exclusionKey set"
  tl_excludedRepos :: "exclusionKey set"

definition tally_reply :: "bool \<Rightarrow> string \<Rightarrow> Result list \<Rightarrow> tally \<Rightarrow> (iap_error, tally) res" where
  "tally_reply aware operator results t =
     (if operator = '''' \<or> operator = ''include'' then
        Inr (t\<lparr>tl_allFound := tl_allFound t @ results\<rparr>)
      else if operator = ''exclude_by_file'' then
        Inr (t\<lparr>tl_excludedFiles := tl_excludedFiles t \<union> makeExcludedFileKey aware ` set results\<rparr>)
      else if operator = ''exclude_by_repo'' then
        Inr (t\<lparr>tl_excludedRepos := tl_excludedRepos t \<union> makeExcludedRepoKey aware ` set results\<rparr>)
      else Inl (Panic (PanicMessage (''unknown operator: '' @ operator))))"

text \<open>\<open>decode\<close> reads a reply from its JSON, of which only the results are used.\<close>

fun tally_loop ::
    "(string \<Rightarrow> string + Result list) \<Rightarrow> bool \<Rightarrow> (queryExpression \<times> string) list \<Rightarrow> tally
     \<Rightarrow> (iap_error, tally) res" where
  "tally_loop decode aware [] t = Inr t"
| "tally_loop decode aware ((q, body) # rs) t =
     (case decode body of
        Inl msg \<Rightarrow> Inl (Error (BadJSON msg))
      | Inr results \<Rightarrow> bind_res (tally_reply aware (qe_Operator q) results t) (tally_loop decode aware rs))"

type_synonym dedupeKey = "string \<times> string \<times> string \<times> int"

definition makeDedupeKey :: "bool \<Rightarrow> Result \<Rightarrow> dedupeKey" where
  "makeDedupeKey aware res =
     (r_Tree res, (if aware then r_Version res else []), r_Path res, r_LineNumber res)"

definition excluded :: "bool \<Rightarrow> tally \<Rightarrow> Result \<Rightarrow> bool" where
  "excluded aware t found \<longleftrightarrow>
     makeExcludedFileKey aware found \<in> tl_excludedFiles t \<or>
     makeExcludedRepoKey aware found \<in> tl_excludedRepos t"

text \<open>
  The loop that keeps the first result for each key: it ranges over the slice while it moves the
  results it keeps to the front of the same slice. \<open>seen\<close> lists the keys of the Go map.
\<close>

function dedupe_loop ::
    "bool \<Rightarrow> tally \<Rightarrow> nat \<Rightarrow> Result list \<Rightarrow> dedupeKey list \<Rightarrow> Result list \<times> dedupeKey list" where
  "dedupe_loop aware t i allFound seen =
     (if length allFound \<le> i then (allFound, seen)
      else
        (let found = allFound ! i in
         if excluded aware t found \<or> makeDedupeKey aware found \<in> set seen then
           dedupe_loop aware t (i + 1) allFound seen
         else
           dedupe_loop aware t (i + 1) (allFound[length seen := found]) (seen @ [makeDedupeKey aware found])))"
  by pat_completeness auto
termination by (relation "measure (\<lambda>(aware, t, i, allFound, seen). length allFound - i)") (auto simp: Let_def)

declare dedupe_loop.simps [simp del]

text \<open>The order in which the results are printed.\<close>

definition composite_less :: "bool \<Rightarrow> Result \<Rightarrow> Result \<Rightarrow> bool" where
  "composite_less versionAware a b =
     (if bytes_less (r_Tree a) (r_Tree b) then True
      else if bytes_less (r_Tree b) (r_Tree a) then False
      else if bytes_less (r_Path a) (r_Path b) then True
      else if bytes_less (r_Path b) (r_Path a) then False
      else if versionAware \<and> bytes_less (r_Version a) (r_Version b) then True
      else if versionAware \<and> bytes_less (r_Version b) (r_Version a) then False
      else r_LineNumber a < r_LineNumber b)"

definition formatResults :: "(Result list \<Rightarrow> Result list) \<Rightarrow> bool \<Rightarrow> Result list \<Rightarrow> Result list" where
  "formatResults arr versionAware results = sort_slice arr (composite_less versionAware) results"

definition combine_replies ::
    "(string \<Rightarrow> string + Result list) \<Rightarrow> composition \<Rightarrow> (queryExpression \<times> string) list
     \<Rightarrow> (iap_error, Result list) res" where
  "combine_replies decode c results =
     bind_res (tally_loop decode (cp_VersionAware c) results
         \<lparr>tl_allFound = [], tl_excludedFiles = set (cp_ExcludeFiles c), tl_excludedRepos = {}\<rparr>) (\<lambda>t.
       let (allFound, seen) = dedupe_loop (cp_VersionAware c) t 0 (tl_allFound t) []
       in Inr (take (length seen) allFound))"

section \<open>Requests\<close>

record http_request =
  hq_Method :: string
  hq_URL :: string
  hq_Headers :: "(string \<times> string) list"
  hq_Body :: string

text \<open>A response; reading its body can break off with an error.\<close>

record http_response =
  hp_StatusCode :: int
  hp_Body :: string
  hp_BodyError :: "string option"

definition status_texts :: "(int \<times> string) list" where
  "status_texts =
     [(100, ''Continue''), (101, ''Switching Protocols''), (102, ''Processing''), (103, ''Early Hints''),
      (200, ''OK''), (201, ''Created''), (202, ''Accepted''), (203, ''Non-Authoritative Information''),
      (204, ''No Content''), (205, ''Reset Content''), (206, ''Partial Content''), (207, ''Multi-Status''),
      (208, ''Already Reported''), (226, ''IM Used''),
      (300, ''Multiple Choices''), (301, ''Moved Permanently''), (302, ''Found''), (303, ''See Other''),
      (304, ''Not Modified''), (305, ''Use Proxy''), (307, ''Temporary Redirect''),
      (308, ''Permanent Redirect''),
      (400, ''Bad Request''), (401, ''Unauthorized''), (402, ''Payment Required''), (403, ''Forbidden''),
      (404, ''Not Found''), (405, ''Method Not Allowed''), (406, ''Not Acceptable''),
      (407, ''Proxy Authentication Required''), (408, ''Request Timeout''), (409, ''Conflict''),
      (410, ''Gone''), (411, ''Length Required''), (412, ''Precondition Failed''),
      (413, ''Request Entity Too Large''), (414, ''Request URI Too Long''),
      (415, ''Unsupported Media Type''), (416, ''Requested Range Not Satisfiable''),
      (417, ''Expectation Failed''), (418, ''I'' @ CHR 0x27 # ''m a teapot''), (421, ''Misdirected Request''),
      (422, ''Unprocessable Entity''), (423, ''Locked''), (424, ''Failed Dependency''), (425, ''Too Early''),
      (426, ''Upgrade Required''), (428, ''Precondition Required''), (429, ''Too Many Requests''),
      (431, ''Request Header Fields Too Large''), (451, ''Unavailable For Legal Reasons''),
      (500, ''Internal Server Error''), (501, ''Not Implemented''), (502, ''Bad Gateway''),
      (503, ''Service Unavailable''), (504, ''Gateway Timeout''), (505, ''HTTP Version Not Supported''),
      (506, ''Variant Also Negotiates''), (507, ''Insufficient Storage''), (508, ''Loop Detected''),
      (510, ''Not Extended''), (511, ''Network Authentication Required'')]"

definition StatusText :: "int \<Rightarrow> string" where
  "StatusText code = (case map_of status_texts code of None \<Rightarrow> [] | Some t \<Rightarrow> t)"

definition require2xx :: "string + http_response \<Rightarrow> iap_error + http_response" where
  "require2xx r =
     (case r of
        Inl msg \<Rightarrow> Inl (Io msg)
      | Inr resp \<Rightarrow>
          if hp_StatusCode resp div 100 = 2 then Inr resp
          else Inl (UnexpectedStatus (hp_StatusCode resp)
            (if hp_Body resp = [] then StatusText (hp_StatusCode resp) else hp_Body resp)))"

type_synonym json_object = "(string \<times> string) list"

text \<open>
  What the client meets outside: the HTTP client, the reader of JSON for replies and for objects
  of strings, the directories, the temporary files of a query, and the browser with the request
  that comes back from it.
\<close>

record iap_outside =
  io_Do :: "http_request \<Rightarrow> string + http_response"
  io_reply :: "string \<Rightarrow> string + Result list"
  io_object :: "string \<Rightarrow> string + json_object"
  io_composition :: "string \<Rightarrow> string + composition"
  io_UserCacheDir :: "string + string"
  io_MkdirTemp :: "string option"
  io_CreateTemp :: "string \<Rightarrow> string option"
  io_Seek :: "string \<Rightarrow> string option"
  io_Mkdir :: "string \<Rightarrow> string option"
  io_OpenFile :: "string \<Rightarrow> string option"
  io_Listen :: "string + string"
  io_Browser :: "string \<Rightarrow> string option"
  io_Callback :: "string \<Rightarrow> string + url_Values"

definition query_url :: "string \<Rightarrow> string" where
  "query_url q = ''https://codesearch.nyt.net/api/v1/search?'' @ values_Encode [(''q'', [q])]"

definition doQuery :: "iap_outside \<Rightarrow> string \<Rightarrow> string \<Rightarrow> iap_error + string" where
  "doQuery os idToken q =
     (case require2xx (io_Do os \<lparr>hq_Method = ''GET'', hq_URL = query_url q,
             hq_Headers = [(''Authorization'', ''Bearer '' @ idToken)], hq_Body = []\<rparr>) of
        Inl e \<Rightarrow> Inl e
      | Inr resp \<Rightarrow> (case hp_BodyError resp of Some msg \<Rightarrow> Inl (Io msg) | None \<Rightarrow> Inr (hp_Body resp)))"

section \<open>Credentials\<close>

record iapCreds =
  ic_ClientID :: string
  ic_ClientSecret :: string
  ic_RefreshToken :: string
  ic_Audience :: string

text \<open>
  The object that the encoder writes, and what the decoder reads back from an object. A file
  whose contents are no such object is \<open>None\<close>.
\<close>

definition creds_object :: "iapCreds \<Rightarrow> json_object" where
  "creds_object c =
     [(''ClientID'', ic_ClientID c), (''ClientSecret'', ic_ClientSecret c),
      (''RefreshToken'', ic_RefreshToken c), (''Audience'', ic_Audience c)]"

definition object_field :: "json_object \<Rightarrow> string \<Rightarrow> string" where
  "object_field obj k = (case map_of obj k of None \<Rightarrow> [] | Some v \<Rightarrow> v)"

definition object_creds :: "json_object \<Rightarrow> iapCreds" where
  "object_creds obj =
     \<lparr>ic_ClientID = object_field obj ''ClientID'', ic_ClientSecret = object_field obj ''ClientSecret'',
      ic_RefreshToken = object_field obj ''RefreshToken'', ic_Audience = object_field obj ''Audience''\<rparr>"

type_synonym cred_files = "string \<rightharpoonup> json_object option"

definition creds_path :: "string \<Rightarrow> string" where
  "creds_path cacheDir = path_Join [cacheDir, ''codesearch'', ''iap-creds.json'']"

definition form_request :: "string \<Rightarrow> url_Values \<Rightarrow> http_request" where
  "form_request url vs =
     \<lparr>hq_Method = ''POST'', hq_URL = url,
      hq_Headers = [(''Content-Type'', ''application/x-www-form-urlencoded'')], hq_Body = values_Encode vs\<rparr>"

definition token_values :: "iapCreds \<Rightarrow> url_Values" where
  "token_values creds =
     [(''client_id'', [ic_ClientID creds]), (''client_secret'', [ic_ClientSecret creds]),
      (''refresh_token'', [ic_RefreshToken creds]), (''grant_type'', [''refresh_token'']),
      (''audience'', [ic_Audience creds])]"

definition unmarshalJSONResponse ::
    "iap_outside \<Rightarrow> iap_error + http_response \<Rightarrow> string \<Rightarrow> iap_error + string" where
  "unmarshalJSONResponse os r field =
     (case r of
        Inl e \<Rightarrow> Inl e
      | Inr resp \<Rightarrow>
          (case io_object os (hp_Body resp) of
             Inl msg \<Rightarrow> Inl (BadJSON msg)
           | Inr obj \<Rightarrow> Inr (object_field obj field)))"

definition getIDToken :: "iap_outside \<Rightarrow> cred_files \<Rightarrow> iap_error + string" where
  "getIDToken os files =
     (case io_UserCacheDir os of
        Inl msg \<Rightarrow> Inl (Io msg)
      | Inr cacheDir \<Rightarrow>
          (case files (creds_path cacheDir) of
             None \<Rightarrow> Inl (Io ''no such file'')
           | Some None \<Rightarrow> Inl (BadJSON ''credentials'')
           | Some (Some obj) \<Rightarrow>
               unmarshalJSONResponse os
                 (require2xx (io_Do os (form_request ''https://oauth2.googleapis.com/token''
                    (token_values (object_creds obj)))))
                 ''id_token''))"

definition auth_url :: "string \<Rightarrow> string \<Rightarrow> string" where
  "auth_url addr clientID =
     ''https://accounts.google.com/o/oauth2/v2/auth?'' @ values_Encode
       [(''client_id'', [clientID]), (''response_type'', [''code'']), (''scope'', [''openid email'']),
        (''access_type'', [''offline'']), (''redirect_uri'', [''http://'' @ addr])]"

definition getRefreshToken :: "iap_outside \<Rightarrow> string \<Rightarrow> string \<Rightarrow> iap_error + string" where
  "getRefreshToken os clientID clientSecret =
     (case io_Listen os of
        Inl msg \<Rightarrow> Inl (Io msg)
      | Inr addr \<Rightarrow>
          (case io_Browser os (auth_url addr clientID) of
             Some msg \<Rightarrow> Inl (Io msg)
           | None \<Rightarrow>
               (case io_Callback os (auth_url addr clientID) of
                  Inl msg \<Rightarrow> Inl (Io msg)
                | Inr params \<Rightarrow>
                    unmarshalJSONResponse os
                      (require2xx (io_Do os (form_request ''https://oauth2.googleapis.com/token''
                         [(''client_id'', [clientID]), (''client_secret'', [clientSecret]),
                          (''code'', [values_Get params ''code'']), (''grant_type'', [''authorization_code'']),
                          (''redirect_uri'', [''http://'' @ addr])])))
                      ''refresh_token'')))"

text \<open>The file is truncated before it is written, and nothing is written where an error comes first.\<close>

definition configure ::
    "iap_outside \<Rightarrow> string \<Rightarrow> string \<Rightarrow> string \<Rightarrow> cred_files \<Rightarrow> iap_error option \<times> cred_files" where
  "configure os clientID clientSecret iapClientID files =
     (if clientID = [] \<or> clientSecret = [] \<or> iapClientID = [] then (Some MissingEnvironment, files)
      else
        (case getRefreshToken os clientID clientSecret of
           Inl e \<Rightarrow> (Some (GetAuthCode e), files)
         | Inr refreshToken \<Rightarrow>
             (case io_UserCacheDir os of
                Inl msg \<Rightarrow> (Some (Io msg), files)
              | Inr cacheDir \<Rightarrow>
                  (case io_Mkdir os (path_Dir (creds_path cacheDir)) of
                     Some msg \<Rightarrow> (Some (Io msg), files)
                   | None \<Rightarrow>
                       (case io_OpenFile os (creds_path cacheDir) of
                          Some msg \<Rightarrow> (Some (Io msg), files)
                        | None \<Rightarrow>
                            (None, files(creds_path cacheDir \<mapsto>
                               Some (creds_object \<lparr>ic_ClientID = clientID, ic_ClientSecret = clientSecret,
                                 ic_RefreshToken = refreshToken, ic_Audience = iapClientID\<rparr>))))))))"

section \<open>The commands\<close>

definition run_query :: "iap_outside \<Rightarrow> string \<Rightarrow> queryExpression \<Rightarrow> arrival" where
  "run_query os token q =
     (q, case io_CreateTemp os (qe_Query q) of
           Some msg \<Rightarrow> Inl (Io msg)
         | None \<Rightarrow>
             (case doQuery os token (qe_Query q) of
                Inl e \<Rightarrow> Inl e
              | Inr body \<Rightarrow> (case io_Seek os (qe_Query q) of Some msg \<Rightarrow> Inl (Io msg) | None \<Rightarrow> Inr body)))"

definition lift_error :: "'e + 'a \<Rightarrow> ('e, 'a) res" where
  "lift_error r = (case r of Inl e \<Rightarrow> Inl (Error e) | Inr x \<Rightarrow> Inr x)"

text \<open>\<open>order\<close> is the order in which the answers arrive.\<close>

definition compositeQuery ::
    "iap_outside \<Rightarrow> cred_files \<Rightarrow> (arrival list \<Rightarrow> arrival list) \<Rightarrow> (Result list \<Rightarrow> Result list)
     \<Rightarrow> string \<Rightarrow> (iap_error, Result list) res" where
  "compositeQuery os files order arr path =
     (case io_composition os path of
        Inl msg \<Rightarrow> Inl (Error (Io msg))
      | Inr c \<Rightarrow>
          bind_res (map_res (check_query (cp_MaxMatches c)) (cp_Queries c)) (\<lambda>qs.
          bind_res (lift_error (getIDToken os files)) (\<lambda>token.
          (case io_MkdirTemp os of
             Some msg \<Rightarrow> Inl (Error (Io msg))
           | None \<Rightarrow>
               bind_res (collect (length qs) (order (map (run_query os token) qs))) (\<lambda>results.
               bind_res (combine_replies (io_reply os) c results) (\<lambda>found.
                 Inr (formatResults arr (cp_VersionAware c) found)))))))"

definition query_command ::
    "iap_outside \<Rightarrow> cred_files \<Rightarrow> (Result list \<Rightarrow> Result list) \<Rightarrow> string list \<Rightarrow> iap_error + Result list" where
  "query_command os files arr args =
     (if args = [] then Inl NoArgument
      else
        (case getIDToken os files of
           Inl e \<Rightarrow> Inl e
         | Inr idToken \<Rightarrow>
             (case doQuery os idToken (join '' '' args) of
                Inl e \<Rightarrow> Inl e
              | Inr body \<Rightarrow>
                  (case io_reply os body of
                     Inl msg \<Rightarrow> Inl (BadJSON msg)
                   | Inr results \<Rightarrow> Inr (formatResults arr False results)))))"

datatype iap_outcome = Printed "Result list" | Stored

text \<open>\<^verbatim>\<open>main\<close>: the arguments, the program's name first, choose the command.\<close>

definition lgiap_main ::
    "iap_outside \<Rightarrow> (string \<Rightarrow> string) \<Rightarrow> (arrival list \<Rightarrow> arrival list) \<Rightarrow> (Result list \<Rightarrow> Result list)
     \<Rightarrow> string list \<Rightarrow> cred_files \<Rightarrow> (iap_error, iap_outcome) res \<times> cred_files" where
  "lgiap_main os getenv order arr args files =
     (if length args = 2 \<and> args ! 1 = ''configure'' then
        (case configure os (getenv ''CLIENT_ID'') (getenv ''CLIENT_SECRET'') (getenv ''IAP_CLIENT_ID'') files of
           (Some e, files') \<Rightarrow> (Inl (Error e), files')
         | (None, files') \<Rightarrow> (Inr Stored, files'))
      else if length args = 3 \<and> args ! 1 = ''composite'' then
        (bind_res (compositeQuery os files order arr (args ! 2)) (\<lambda>rs. Inr (Printed rs)), files)
      else
        (bind_res (lift_error (query_command os files arr (tl args))) (\<lambda>rs. Inr (Printed rs)), files))"

section \<open>The loop that removes duplicates\<close>

text \<open>What it should leave: the first of each key, in order.\<close>

fun keep_first :: "('a \<Rightarrow> bool) \<Rightarrow> ('a \<Rightarrow> 'k) \<Rightarrow> 'k set \<Rightarrow> 'a list \<Rightarrow> 'a list" where
  "keep_first skip key seen [] = []"
| "keep_first skip key seen (x # xs) =
     (if skip x \<or> key x \<in> seen then keep_first skip key seen xs
      else x # keep_first skip key (insert (key x) seen) xs)"

lemma keep_first_keys:
  "key ` set (keep_first skip key seen xs) = key ` {x \<in> set xs. \<not> skip x} - seen"
  by (induction xs arbitrary: seen) auto

lemma keep_first_set: "x \<in> set (keep_first skip key seen xs) \<Longrightarrow> x \<in> set xs \<and> \<not> skip x"
  by (induction xs arbitrary: seen) (auto split: if_splits)

lemma keep_first_distinct: "distinct (map key (keep_first skip key seen xs))"
proof (induction xs arbitrary: seen)
  case (Cons x xs)
  have "key x \<notin> key ` set (keep_first skip key (insert (key x) seen) xs)"
    unfolding keep_first_keys by simp
  then show ?case using Cons by simp
qed simp

text \<open>The slice that is written while it is read loses nothing: the writes stay behind the reads.\<close>

lemma dedupe_loop_spec:
  assumes "dedupe_loop aware t i allFound seen = (allFound', seen')"
    and "length seen \<le> i" "i \<le> length allFound"
  shows "length allFound' = length allFound \<and> length seen' \<le> length allFound \<and>
    take (length seen') allFound' = take (length seen) allFound @
      keep_first (excluded aware t) (makeDedupeKey aware) (set seen) (drop i allFound)"
  using assms
proof (induction aware t i allFound seen rule: dedupe_loop.induct)
  case (1 aware t i allFound seen)
  show ?case
  proof (cases "length allFound \<le> i")
    case True
    then show ?thesis using 1 by (simp add: dedupe_loop.simps[of aware t i])
  next
    case False
    let ?x = "allFound ! i"
    have drop: "drop i allFound = ?x # drop (i + 1) allFound"
      using False by (simp add: Cons_nth_drop_Suc)
    show ?thesis
    proof (cases "excluded aware t ?x \<or> makeDedupeKey aware ?x \<in> set seen")
      case True
      then show ?thesis using 1 False drop by (auto simp: dedupe_loop.simps[of aware t i])
    next
      case keep: False
      have "take (length seen + 1) (allFound[length seen := ?x]) = take (length seen) allFound @ [?x]"
        using 1(4) False by (simp add: take_Suc_conv_app_nth)
      moreover have "drop (i + 1) (allFound[length seen := ?x]) = drop (i + 1) allFound"
        using 1(4) by simp
      ultimately show ?thesis
        using 1 False drop keep by (simp add: dedupe_loop.simps[of aware t i] Let_def)
    qed
  qed
qed

lemma combine_replies_tally:
  "combine_replies decode c results =
     bind_res (tally_loop decode (cp_VersionAware c) results
         \<lparr>tl_allFound = [], tl_excludedFiles = set (cp_ExcludeFiles c), tl_excludedRepos = {}\<rparr>) (\<lambda>t.
       Inr (keep_first (excluded (cp_VersionAware c) t) (makeDedupeKey (cp_VersionAware c)) {} (tl_allFound t)))"
proof -
  have "(let (allFound, seen) = dedupe_loop aware t 0 (tl_allFound t) [] in Inr (take (length seen) allFound)) =
      (Inr (keep_first (excluded aware t) (makeDedupeKey aware) {} (tl_allFound t)) :: (iap_error, Result list) res)"
    for aware t
    using dedupe_loop_spec[of aware t 0 "tl_allFound t" "[]"]
    by (cases "dedupe_loop aware t 0 (tl_allFound t) []") simp
  then show ?thesis by (simp add: combine_replies_def)
qed

section \<open>What the answers add up to\<close>

text \<open>The results of the answers whose operator is one of \<open>ops\<close>.\<close>

definition found_by ::
    "(string \<Rightarrow> string + Result list) \<Rightarrow> string set \<Rightarrow> (queryExpression \<times> string) list \<Rightarrow> Result set" where
  "found_by decode ops results =
     {r. \<exists>(q, body) \<in> set results. qe_Operator q \<in> ops \<and> (\<exists>rs. decode body = Inr rs \<and> r \<in> set rs)}"

lemma found_by_simps:
  "found_by decode ops [] = {}"
  "decode body = Inr rs \<Longrightarrow> found_by decode ops ((q, body) # results) =
     (if qe_Operator q \<in> ops then set rs else {}) \<union> found_by decode ops results"
  by (auto simp: found_by_def)

lemma found_by_order: "set results = set results' \<Longrightarrow> found_by decode ops results = found_by decode ops results'"
  by (simp add: found_by_def)

lemma tally_loop_found:
  assumes "tally_loop decode aware results t = Inr t'"
  shows "set (tl_allFound t') = set (tl_allFound t) \<union> found_by decode {'''', ''include''} results \<and>
    tl_excludedFiles t' = tl_excludedFiles t \<union>
      makeExcludedFileKey aware ` found_by decode {''exclude_by_file''} results \<and>
    tl_excludedRepos t' = tl_excludedRepos t \<union>
      makeExcludedRepoKey aware ` found_by decode {''exclude_by_repo''} results"
  using assms
proof (induction decode aware results t rule: tally_loop.induct)
  case (1 decode aware t)
  then show ?case by (simp add: found_by_simps)
next
  case (2 decode aware q body rs t)
  obtain results where results: "decode body = Inr results" using 2(2) by (auto split: sum.splits)
  then obtain t1 where t1: "tally_reply aware (qe_Operator q) results t = Inr t1"
      "tally_loop decode aware rs t1 = Inr t'"
    using 2(2) by (auto simp: bind_res_Inr_iff)
  have "set (tl_allFound t1) = set (tl_allFound t) \<union> (if qe_Operator q \<in> {'''', ''include''} then set results else {}) \<and>
    tl_excludedFiles t1 = tl_excludedFiles t \<union>
      makeExcludedFileKey aware ` (if qe_Operator q \<in> {''exclude_by_file''} then set results else {}) \<and>
    tl_excludedRepos t1 = tl_excludedRepos t \<union>
      makeExcludedRepoKey aware ` (if qe_Operator q \<in> {''exclude_by_repo''} then set results else {})"
    using t1(1) by (auto simp: tally_reply_def split: if_splits)
  then show ?case
    using 2(1)[OF results t1(2)] unfolding found_by_simps(2)[where decode = decode and body = body and rs = results, OF results] by (simp add: image_Un Un_assoc)
qed

text \<open>The loop fails exactly where a reply cannot be read, whatever the order of the replies.\<close>

lemma tally_loop_ok:
  assumes "\<And>q body. (q, body) \<in> set results \<Longrightarrow> qe_Operator q \<in> knownOperators"
  shows "(\<exists>t'. tally_loop decode aware results t = Inr t') \<longleftrightarrow>
    (\<forall>(q, body) \<in> set results. \<exists>rs. decode body = Inr rs)"
  using assms
proof (induction decode aware results t rule: tally_loop.induct)
  case (2 decode aware q body rs t)
  show ?case
  proof (cases "decode body")
    case (Inr results)
    have "qe_Operator q \<in> knownOperators" using 2(2)[of q body] by simp
    then obtain t1 where "tally_reply aware (qe_Operator q) results t = Inr t1"
      by (auto simp: knownOperators_def tally_reply_def)
    moreover have "qe_Operator q' \<in> knownOperators" if "(q', body') \<in> set rs" for q' body'
      using 2(2)[of q' body'] that by simp
    ultimately show ?thesis using 2(1)[OF Inr, of t1] Inr by simp
  qed simp
qed simp

section \<open>The order of the results\<close>

definition key_less :: "dedupeKey \<Rightarrow> dedupeKey \<Rightarrow> bool" where
  "key_less = (\<lambda>(t, v, p, n) (t', v', p', n').
     bytes_less t t' \<or> t = t' \<and> (bytes_less p p' \<or> p = p' \<and> (bytes_less v v' \<or> v = v' \<and> n < n')))"

lemma key_less_linear: "key_less a b \<or> a = b \<or> key_less b a"
  using bytes_less_linear by (fastforce simp: key_less_def split: prod.splits)

lemma key_less_asym: "key_less a b \<Longrightarrow> \<not> key_less b a"
  by (auto simp: key_less_def dest: bytes_less_asym split: prod.splits)

lemma key_less_trans: "key_less a b \<Longrightarrow> key_less b c \<Longrightarrow> key_less a c"
  by (auto simp: key_less_def dest: bytes_less_trans split: prod.splits)

lemma key_not_less_trans: "\<not> key_less b a \<Longrightarrow> \<not> key_less c b \<Longrightarrow> \<not> key_less c a"
  by (metis key_less_linear key_less_trans key_less_asym)

interpretation key_order: less_order key_less
  by unfold_locales (auto dest: key_less_asym key_not_less_trans)

lemma composite_less_key: "composite_less aware a b = key_less (makeDedupeKey aware a) (makeDedupeKey aware b)"
  using bytes_less_linear[of "r_Tree a" "r_Tree b"] bytes_less_linear[of "r_Path a" "r_Path b"]
    bytes_less_linear[of "r_Version a" "r_Version b"]
  by (auto simp: composite_less_def key_less_def makeDedupeKey_def dest: bytes_less_asym)

interpretation composite_order: less_order "composite_less aware" for aware
  by unfold_locales (auto simp: composite_less_key dest: key_less_asym key_not_less_trans)

lemma composite_ordered_keys:
  "composite_order.ordered aware rs = key_order.ordered (map (makeDedupeKey aware) rs)"
  by (simp add: composite_order.ordered_def key_order.ordered_def sorted_wrt_map composite_less_key)

text \<open>Two sorted lists of the same keys, each once, are the same list of keys.\<close>

lemma same_keys:
  assumes "composite_order.ordered aware rs" "composite_order.ordered aware rs'"
    and "distinct (map (makeDedupeKey aware) rs)" "distinct (map (makeDedupeKey aware) rs')"
    and "makeDedupeKey aware ` set rs = makeDedupeKey aware ` set rs'"
  shows "map (makeDedupeKey aware) rs = map (makeDedupeKey aware) rs'"
proof (rule key_order.ordered_unique)
  show "mset (map (makeDedupeKey aware) rs) = mset (map (makeDedupeKey aware) rs')"
    using assms(3-5) by (simp add: set_eq_iff_mset_eq_distinct[symmetric] del: mset_map)
  show "key_less a b \<or> key_less b a" if "a \<noteq> b" for a b
    using key_less_linear[of a b] that by blast
qed (use assms(1,2) in \<open>simp_all add: composite_ordered_keys\<close>)

section \<open>What a composite query prints\<close>

text \<open>The keys that a composition asks for, given the answers to its queries.\<close>

definition wanted_keys ::
    "(string \<Rightarrow> string + Result list) \<Rightarrow> composition \<Rightarrow> (queryExpression \<times> string) list \<Rightarrow> dedupeKey set" where
  "wanted_keys decode c results =
     makeDedupeKey (cp_VersionAware c) ` {r \<in> found_by decode {'''', ''include''} results.
       makeExcludedFileKey (cp_VersionAware c) r \<notin> set (cp_ExcludeFiles c) \<union>
         makeExcludedFileKey (cp_VersionAware c) ` found_by decode {''exclude_by_file''} results \<and>
       makeExcludedRepoKey (cp_VersionAware c) r \<notin>
         makeExcludedRepoKey (cp_VersionAware c) ` found_by decode {''exclude_by_repo''} results}"

definition printed_as ::
    "(string \<Rightarrow> string + Result list) \<Rightarrow> composition \<Rightarrow> (queryExpression \<times> string) list \<Rightarrow> Result list \<Rightarrow> bool" where
  "printed_as decode c results rs \<longleftrightarrow>
     makeDedupeKey (cp_VersionAware c) ` set rs = wanted_keys decode c results \<and>
     distinct (map (makeDedupeKey (cp_VersionAware c)) rs) \<and>
     sorted_wrt (\<lambda>a b. \<not> composite_less (cp_VersionAware c) b a) rs \<and>
     set rs \<subseteq> found_by decode {'''', ''include''} results"

lemma combine_replies_printed:
  assumes "combine_replies decode c results = Inr found" "rearranges arr"
  shows "printed_as decode c results (formatResults arr (cp_VersionAware c) found)"
proof -
  let ?aware = "cp_VersionAware c"
  obtain t where t: "tally_loop decode ?aware results
      \<lparr>tl_allFound = [], tl_excludedFiles = set (cp_ExcludeFiles c), tl_excludedRepos = {}\<rparr> = Inr t"
    "found = keep_first (excluded ?aware t) (makeDedupeKey ?aware) {} (tl_allFound t)"
    using assms(1) unfolding combine_replies_tally by (auto simp: bind_res_Inr_iff)
  note tally = tally_loop_found[OF t(1), simplified]
  have "mset (formatResults arr ?aware found) = mset found"
    using assms(2) by (simp add: formatResults_def mset_sort_slice)
  then have same: "set (formatResults arr ?aware found) = set found"
    "distinct (map (makeDedupeKey ?aware) (formatResults arr ?aware found)) = distinct (map (makeDedupeKey ?aware) found)"
    by (metis mset_eq_setD) (metis \<open>mset _ = mset _\<close> mset_eq_imp_distinct_iff mset_map)
  have "makeDedupeKey ?aware ` set found = wanted_keys decode c results"
    unfolding t(2) keep_first_keys wanted_keys_def using tally by (auto simp: excluded_def)
  moreover have "set found \<subseteq> found_by decode {'''', ''include''} results"
    using keep_first_set tally unfolding t(2) by fastforce
  moreover have "distinct (map (makeDedupeKey ?aware) found)" unfolding t(2) by (rule keep_first_distinct)
  moreover have "composite_order.ordered ?aware (formatResults arr ?aware found)"
    unfolding formatResults_def by (rule composite_order.ordered_sort_slice)
  ultimately show ?thesis by (simp add: printed_as_def same composite_order.ordered_def)
qed

lemma printed_same_keys:
  assumes "printed_as decode c results rs" "printed_as decode c results' rs'" "set results = set results'"
  shows "map (makeDedupeKey (cp_VersionAware c)) rs = map (makeDedupeKey (cp_VersionAware c)) rs'"
proof -
  have "wanted_keys decode c results = wanted_keys decode c results'"
    using found_by_order[OF assms(3)] by (simp add: wanted_keys_def)
  then show ?thesis
    using assms(1,2) by (intro same_keys) (auto simp: printed_as_def composite_order.ordered_def)
qed

text \<open>The answers are collected exactly where none is an error, whatever the order.\<close>

definition answered :: "queryExpression \<times> string \<Rightarrow> arrival" where
  "answered = (\<lambda>(q, body). (q, Inr body))"

lemma collect_ok:
  "collect (length arrivals) arrivals = Inr results \<longleftrightarrow> arrivals = map answered results"
proof (induction arrivals arbitrary: results)
  case (Cons a arrivals)
  obtain q r where a: "a = (q, r)" by (cases a)
  show ?case
  proof (cases r)
    case (Inl e)
    then show ?thesis using a by (cases results) (auto simp: answered_def)
  next
    case (Inr body)
    then show ?thesis using a Cons by (cases results) (auto simp: bind_res_Inr_iff answered_def)
  qed
qed auto

lemma check_query_known:
  "map_res (check_query m) qs' = Inr qs \<Longrightarrow> q \<in> set qs \<Longrightarrow> qe_Operator q \<in> knownOperators"
proof (induction qs' arbitrary: qs)
  case (Cons q' qs')
  then obtain q1 qs1 where q1: "check_query m q' = Inr q1" "map_res (check_query m) qs' = Inr qs1" "qs = q1 # qs1"
    by (auto simp: bind_res_Inr_iff)
  have "qe_Operator q1 \<in> knownOperators"
    using q1(1) by (auto simp: check_query_def split: option.splits if_splits)
  then show ?case using Cons q1 by auto
qed simp

lemma run_query_body:
  "run_query os token q = (q', Inr body) \<longleftrightarrow>
     q' = q \<and> io_CreateTemp os (qe_Query q) = None \<and> io_Seek os (qe_Query q) = None \<and>
     doQuery os token (qe_Query q) = Inr body"
  by (auto simp: run_query_def split: option.splits sum.splits)

text \<open>Which bodies came back.\<close>

lemma answered_iff:
  assumes "mset (map (run_query os token) qs) = mset (map answered results)"
  shows "(q, body) \<in> set results \<longleftrightarrow> q \<in> set qs \<and> run_query os token q = (q, Inr body)"
    and "q \<in> set qs \<Longrightarrow> \<exists>body. (q, body) \<in> set results"
proof -
  have set: "run_query os token ` set qs = answered ` set results"
    using mset_eq_setD[OF assms] by simp
  show "(q, body) \<in> set results \<longleftrightarrow> q \<in> set qs \<and> run_query os token q = (q, Inr body)"
  proof
    assume "(q, body) \<in> set results"
    then have "answered (q, body) \<in> run_query os token ` set qs" unfolding set by (rule imageI)
    then obtain q' where "q' \<in> set qs" "answered (q, body) = run_query os token q'" by blast
    then show "q \<in> set qs \<and> run_query os token q = (q, Inr body)" by (simp add: run_query_def answered_def)
  next
    assume q: "q \<in> set qs \<and> run_query os token q = (q, Inr body)"
    then have "run_query os token q \<in> answered ` set results" unfolding set[symmetric] by blast
    then show "(q, body) \<in> set results" using q by (auto simp: answered_def)
  qed
  show "\<exists>body. (q, body) \<in> set results" if "q \<in> set qs"
  proof -
    have "run_query os token q \<in> answered ` set results" using set that by blast
    then obtain q' b where "(q', b) \<in> set results" "run_query os token q = (q', Inr b)"
      by (auto simp: answered_def)
    then show ?thesis by (auto simp: run_query_body)
  qed
qed

lemma all_answered:
  assumes "mset (map (run_query os token) qs) = mset (map answered results)"
  shows "\<exists>bodies. map (\<lambda>q. doQuery os token (qe_Query q)) qs = map Inr bodies \<and> set (zip qs bodies) = set results"
proof -
  note iff = answered_iff[OF assms]
  define answer where "answer q = projr (snd (run_query os token q))" for q
  have run: "run_query os token q = (q, Inr (answer q))" if "q \<in> set qs" for q
    using iff(2)[OF that] by (auto simp: iff(1) answer_def)
  then have "map (\<lambda>q. doQuery os token (qe_Query q)) qs = map Inr (map answer qs)"
    by (simp add: run_query_body)
  moreover have "set (zip qs (map answer qs)) = set results"
  proof -
    have "(q, body) \<in> set results \<longleftrightarrow> q \<in> set qs \<and> body = answer q" for q body
      using run[of q] by (auto simp: iff(1))
    then show ?thesis by (auto simp: zip_map2 zip_same_conv_map)
  qed
  ultimately show ?thesis by blast
qed

text \<open>What a successful composite query has done.\<close>

lemma compositeQuery_Inr:
  assumes "compositeQuery os files order arr path = Inr rs" "rearranges order"
  obtains c qs token results found where
    "io_composition os path = Inr c" "map_res (check_query (cp_MaxMatches c)) (cp_Queries c) = Inr qs"
    "getIDToken os files = Inr token" "io_MkdirTemp os = None"
    "mset (map (run_query os token) qs) = mset (map answered results)"
    "combine_replies (io_reply os) c results = Inr found" "rs = formatResults arr (cp_VersionAware c) found"
proof -
  obtain c where c: "io_composition os path = Inr c"
    using assms(1) by (auto simp: compositeQuery_def split: sum.splits)
  obtain qs where qs: "map_res (check_query (cp_MaxMatches c)) (cp_Queries c) = Inr qs"
    using assms(1) c by (auto simp: compositeQuery_def bind_res_Inr_iff)
  obtain token where token: "getIDToken os files = Inr token"
    using assms(1) c qs by (auto simp: compositeQuery_def bind_res_Inr_iff lift_error_def split: sum.splits)
  have temp: "io_MkdirTemp os = None"
    using assms(1) c qs token by (auto simp: compositeQuery_def lift_error_def split: option.splits)
  let ?as = "order (map (run_query os token) qs)"
  have len: "length qs = length ?as" using assms(2) by (simp add: rearranges_length)
  obtain results found where r: "collect (length ?as) ?as = Inr results"
    "combine_replies (io_reply os) c results = Inr found" "rs = formatResults arr (cp_VersionAware c) found"
    using assms(1) c qs token temp len
    by (auto simp: compositeQuery_def lift_error_def bind_res_Inr_iff)
  have "mset (map (run_query os token) qs) = mset (map answered results)"
    using r(1) assms(2) unfolding collect_ok by (metis rearranges_mset)
  then show thesis using that c qs token temp r by blast
qed

lemma compositeQuery_prints_keys:
  assumes "compositeQuery os files order arr path = Inr rs" "rearranges order" "rearranges arr"
  shows "\<exists>c qs token bodies. io_composition os path = Inr c \<and>
    map_res (check_query (cp_MaxMatches c)) (cp_Queries c) = Inr qs \<and> getIDToken os files = Inr token \<and>
    map (\<lambda>q. doQuery os token (qe_Query q)) qs = map Inr bodies \<and> printed_as (io_reply os) c (zip qs bodies) rs"
proof -
  obtain c qs token results found where c: "io_composition os path = Inr c"
      "map_res (check_query (cp_MaxMatches c)) (cp_Queries c) = Inr qs" "getIDToken os files = Inr token"
      "io_MkdirTemp os = None"
    and answers: "mset (map (run_query os token) qs) = mset (map answered results)"
    and found: "combine_replies (io_reply os) c results = Inr found" "rs = formatResults arr (cp_VersionAware c) found"
    by (rule compositeQuery_Inr[OF assms(1,2)])
  obtain bodies where bodies: "map (\<lambda>q. doQuery os token (qe_Query q)) qs = map Inr bodies"
      "set (zip qs bodies) = set results"
    using all_answered[OF answers] by blast
  have "printed_as (io_reply os) c results rs"
    using combine_replies_printed[OF found(1) assms(3)] found(2) by simp
  then have "printed_as (io_reply os) c (zip qs bodies) rs"
    using found_by_order[OF bodies(2)] by (simp add: printed_as_def wanted_keys_def)
  then show ?thesis using c bodies(1) by blast
qed

text \<open>
  C17. A composite query prints, sorted and each key once, exactly the keys that the queries to
  include find and that are excluded neither by the list of files nor by what the other queries
  find, each with one of the results that were found.
\<close>

theorem compositeQuery_prints:
  assumes "compositeQuery os files order arr path = Inr rs" "rearranges order" "rearranges arr"
  shows "\<exists>c qs token bodies. io_composition os path = Inr c \<and>
    map_res (check_query (cp_MaxMatches c)) (cp_Queries c) = Inr qs \<and> getIDToken os files = Inr token \<and>
    map (\<lambda>q. doQuery os token (qe_Query q)) qs = map Inr bodies \<and> printed_as (io_reply os) c (zip qs bodies) rs"
  using assms by (rule compositeQuery_prints_keys)

text \<open>When a composite query succeeds does not depend on the order of the answers.\<close>

lemma combine_replies_ok:
  assumes "map_res (check_query m) qs' = Inr qs" "fst ` set results = set qs"
  shows "(\<exists>found. combine_replies decode c results = Inr found) \<longleftrightarrow>
    (\<forall>(q, body) \<in> set results. \<exists>rs. decode body = Inr rs)"
proof -
  have "qe_Operator q \<in> knownOperators" if "(q, body) \<in> set results" for q body
    using check_query_known[OF assms(1), of q] assms(2) that by force
  then have "(\<exists>t'. tally_loop decode (cp_VersionAware c) results
        \<lparr>tl_allFound = [], tl_excludedFiles = set (cp_ExcludeFiles c), tl_excludedRepos = {}\<rparr> = Inr t') \<longleftrightarrow>
      (\<forall>(q, body) \<in> set results. \<exists>rs. decode body = Inr rs)"
    by (rule tally_loop_ok)
  then show ?thesis unfolding combine_replies_tally bind_res_Inr_iff by blast
qed

definition all_readable :: "iap_outside \<Rightarrow> string \<Rightarrow> queryExpression list \<Rightarrow> bool" where
  "all_readable os token qs \<longleftrightarrow>
     (\<forall>q\<in>set qs. \<exists>body rs. run_query os token q = (q, Inr body) \<and> io_reply os body = Inr rs)"

lemma collected_readable:
  assumes "mset (map (run_query os token) qs) = mset (map answered results)"
    and "map_res (check_query m) qs' = Inr qs"
  shows "(\<exists>found. combine_replies (io_reply os) c results = Inr found) \<longleftrightarrow> all_readable os token qs"
proof -
  note iff = answered_iff[OF assms(1)]
  have "fst ` set results = set qs" using iff by force
  note combine_replies_ok[OF assms(2) this, of "io_reply os" c]
  also have "(\<forall>(q, body) \<in> set results. \<exists>rs. io_reply os body = Inr rs) \<longleftrightarrow> all_readable os token qs"
    using iff unfolding all_readable_def by fastforce
  finally show ?thesis .
qed

lemma all_are_answered:
  assumes "\<And>a. a \<in> set as \<Longrightarrow> \<exists>q body. a = (q, Inr body)"
  obtains results where "as = map answered results"
proof -
  have "as = map answered (map (\<lambda>(q, r). (q, projr r)) as)"
    using assms by (force simp: answered_def intro: map_idI[symmetric])
  then show thesis by (rule that)
qed

lemma compositeQuery_ok:
  assumes "rearranges order"
  shows "(\<exists>rs. compositeQuery os files order arr path = Inr rs) \<longleftrightarrow>
    (\<exists>c qs token. io_composition os path = Inr c \<and>
       map_res (check_query (cp_MaxMatches c)) (cp_Queries c) = Inr qs \<and> getIDToken os files = Inr token \<and>
       io_MkdirTemp os = None \<and> all_readable os token qs)" (is "?L \<longleftrightarrow> ?R")
proof
  assume ?L
  then obtain rs where "compositeQuery os files order arr path = Inr rs" by blast
  then show ?R
  proof (rule compositeQuery_Inr[OF _ assms])
    fix c qs token results found
    assume *: "io_composition os path = Inr c" "map_res (check_query (cp_MaxMatches c)) (cp_Queries c) = Inr qs"
      "getIDToken os files = Inr token" "io_MkdirTemp os = None"
      "mset (map (run_query os token) qs) = mset (map answered results)"
      "combine_replies (io_reply os) c results = Inr found"
    then have "all_readable os token qs" using collected_readable[OF *(5,2), of c] by blast
    then show ?thesis using * by blast
  qed
next
  assume ?R
  then obtain c qs token where c: "io_composition os path = Inr c"
      "map_res (check_query (cp_MaxMatches c)) (cp_Queries c) = Inr qs" "getIDToken os files = Inr token"
      "io_MkdirTemp os = None" "all_readable os token qs" by blast
  let ?as = "order (map (run_query os token) qs)"
  have "\<exists>q body. a = (q, Inr body)" if "a \<in> set ?as" for a
    using that c(5) assms by (fastforce simp: rearranges_set all_readable_def)
  then obtain results where r: "?as = map answered results" using all_are_answered by blast
  then have "collect (length qs) ?as = Inr results"
    using collect_ok[of ?as results] rearranges_length[OF assms, of "map (run_query os token) qs"] by simp
  moreover have "mset (map (run_query os token) qs) = mset (map answered results)"
    using r assms by (metis rearranges_mset)
  then obtain found where "combine_replies (io_reply os) c results = Inr found"
    using collected_readable[OF _ c(2)] c(5) by blast
  ultimately show ?L using c by (simp add: compositeQuery_def lift_error_def)
qed

text \<open>
  C28. What is printed does not depend on the order in which the answers arrive, nor on what the
  sort does with equal results: either every order fails, or all print results with the same
  keys in the same order (which result stands for a key can differ).
\<close>

theorem compositeQuery_order:
  assumes "rearranges order" "rearranges order'" "rearranges arr" "rearranges arr'"
  shows "case (compositeQuery os files order arr path, compositeQuery os files order' arr' path) of
      (Inr rs, Inr rs') \<Rightarrow> \<exists>c. io_composition os path = Inr c \<and>
        map (makeDedupeKey (cp_VersionAware c)) rs = map (makeDedupeKey (cp_VersionAware c)) rs'
    | (Inl e, Inl e') \<Rightarrow> True
    | _ \<Rightarrow> False"
proof (cases "compositeQuery os files order arr path")
  case (Inl e)
  then have "\<nexists>rs'. compositeQuery os files order' arr' path = Inr rs'"
    using compositeQuery_ok[OF assms(1), of os files arr path]
      compositeQuery_ok[OF assms(2), of os files arr' path] by (metis sum.distinct(1))
  then show ?thesis using Inl by (cases "compositeQuery os files order' arr' path") auto
next
  case (Inr rs)
  then obtain rs' where rs': "compositeQuery os files order' arr' path = Inr rs'"
    using compositeQuery_ok[OF assms(1), of os files arr path]
      compositeQuery_ok[OF assms(2), of os files arr' path] by blast
  have bodies: "zip qs bodies = zip qs bodies'"
    if "map f qs = map Inr bodies" "map f qs = map Inr bodies'" for f :: "queryExpression \<Rightarrow> iap_error + string" and qs bodies bodies'
  proof -
    have "bodies = bodies'" using that by (metis list.inj_map_strong sum.inject(2))
    then show ?thesis by simp
  qed
  obtain c qs token bodies where 1: "io_composition os path = Inr c"
      "map_res (check_query (cp_MaxMatches c)) (cp_Queries c) = Inr qs" "getIDToken os files = Inr token"
      "map (\<lambda>q. doQuery os token (qe_Query q)) qs = map Inr bodies" "printed_as (io_reply os) c (zip qs bodies) rs"
    using compositeQuery_prints_keys[OF Inr assms(1,3)] by blast
  obtain bodies' where 2: "map (\<lambda>q. doQuery os token (qe_Query q)) qs = map Inr bodies'"
      "printed_as (io_reply os) c (zip qs bodies') rs'"
    using compositeQuery_prints_keys[OF rs' assms(2,4)] 1(1-3) by auto
  have "map (makeDedupeKey (cp_VersionAware c)) rs = map (makeDedupeKey (cp_VersionAware c)) rs'"
    using printed_same_keys[OF 1(5)] 2 bodies[OF 1(4) 2(1)] by metis
  then show ?thesis using Inr rs' 1(1) by simp
qed

text \<open>The composition without the excluded files that name a version.\<close>

definition without_versions :: "composition \<Rightarrow> composition" where
  "without_versions c = c\<lparr>cp_ExcludeFiles := filter (\<lambda>e. ek_Version e = []) (cp_ExcludeFiles c)\<rparr>"

text \<open>Tallies that no result without a version can tell apart.\<close>

definition same_tally :: "tally \<Rightarrow> tally \<Rightarrow> bool" where
  "same_tally t t' \<longleftrightarrow> tl_allFound t = tl_allFound t' \<and> tl_excludedRepos t = tl_excludedRepos t' \<and>
     (\<forall>k. ek_Version k = [] \<longrightarrow> (k \<in> tl_excludedFiles t \<longleftrightarrow> k \<in> tl_excludedFiles t'))"

lemma rel_bind_res:
  assumes "rel_sum (=) R r r'" "\<And>x x'. R x x' \<Longrightarrow> rel_sum (=) S (f x) (g x')"
  shows "rel_sum (=) S (bind_res r f) (bind_res r' g)"
  using assms by (cases r; cases r') auto

lemma tally_reply_same:
  "same_tally t t' \<Longrightarrow> rel_sum (=) same_tally (tally_reply False operator rs t) (tally_reply False operator rs t')"
  by (auto simp: tally_reply_def same_tally_def)

lemma tally_loop_same:
  "same_tally t t' \<Longrightarrow> rel_sum (=) same_tally (tally_loop decode False results t) (tally_loop decode False results t')"
proof (induction results arbitrary: t t')
  case (Cons r results)
  obtain q body where r: "r = (q, body)" by (cases r)
  show ?case
    using Cons unfolding r
    by (cases "decode body") (auto intro!: rel_bind_res[where R = same_tally] tally_reply_same)
qed simp

lemma excluded_same: "same_tally t t' \<Longrightarrow> excluded False t = excluded False t'"
  by (intro ext) (simp add: same_tally_def excluded_def makeExcludedFileKey_def)

lemma combine_without_versions:
  assumes "\<not> cp_VersionAware c"
  shows "combine_replies decode (without_versions c) results = combine_replies decode c results"
proof -
  have start: "same_tally
      \<lparr>tl_allFound = [], tl_excludedFiles = set (cp_ExcludeFiles (without_versions c)), tl_excludedRepos = {}\<rparr>
      \<lparr>tl_allFound = [], tl_excludedFiles = set (cp_ExcludeFiles c), tl_excludedRepos = {}\<rparr>"
    by (auto simp: same_tally_def without_versions_def)
  have aware: "cp_VersionAware (without_versions c) = False" "cp_VersionAware c = False"
    using assms by (simp_all add: without_versions_def)
  have "rel_sum (=) (=) (combine_replies decode (without_versions c) results) (combine_replies decode c results)"
    unfolding combine_replies_tally aware
    by (rule rel_bind_res[OF tally_loop_same[OF start]]) (simp add: excluded_same, simp add: same_tally_def)
  then show ?thesis by (simp add: sum.rel_eq)
qed

text \<open>
  Where versions are not compared, an entry of the list of excluded files that names a
  version excludes nothing: the query prints the same without these entries.
\<close>

theorem versioned_exclusion_ignored:
  assumes "io_composition os path = Inr c" "\<not> cp_VersionAware c"
  shows "compositeQuery os files order arr path =
    compositeQuery (os\<lparr>io_composition := (\<lambda>_. Inr (without_versions c))\<rparr>) files order arr path"
proof -
  let ?os = "os\<lparr>io_composition := (\<lambda>_. Inr (without_versions c))\<rparr>"
  have "getIDToken ?os files = getIDToken os files"
    by (simp add: getIDToken_def unmarshalJSONResponse_def cong: sum.case_cong option.case_cong)
  moreover have "run_query ?os = run_query os"
    by (intro ext) (simp add: run_query_def doQuery_def cong: sum.case_cong option.case_cong)
  moreover have "cp_Queries (without_versions c) = cp_Queries c" "cp_MaxMatches (without_versions c) = cp_MaxMatches c"
    "cp_VersionAware (without_versions c) = cp_VersionAware c"
    by (simp_all add: without_versions_def)
  ultimately show ?thesis
    using assms by (simp add: compositeQuery_def combine_without_versions cong: option.case_cong)
qed

section \<open>Credentials that are stored are used\<close>

text \<open>
  The credentials that \<^verbatim>\<open>configure\<close> stores are those that the next command sends for its
  token: the identifiers it was given and the refresh token it was granted.
\<close>

theorem configure_then_token:
  assumes "configure os clientID clientSecret iapClientID files = (None, files')"
  shows "\<exists>refreshToken. getRefreshToken os clientID clientSecret = Inr refreshToken \<and>
    getIDToken os files' = unmarshalJSONResponse os
      (require2xx (io_Do os (form_request ''https://oauth2.googleapis.com/token''
        [(''client_id'', [clientID]), (''client_secret'', [clientSecret]), (''refresh_token'', [refreshToken]),
         (''grant_type'', [''refresh_token'']), (''audience'', [iapClientID])])))
      ''id_token''"
  using assms
  by (auto simp: configure_def getIDToken_def token_values_def object_creds_def creds_object_def object_field_def
      split: if_splits sum.splits option.splits)

section \<open>The limit of a composition\<close>

lemma query_printed_snoc:
  "ws \<noteq> [] \<Longrightarrow> query_printed ws (opts @ [limit_option n]) =
     query_printed ws opts @ '' max_matches:'' @ string_of_nat n"
  using join_append_ne[of "ws @ map opt_printed opts" "[opt_printed (limit_option n)]" "'' ''"]
  by (simp add: query_printed_def limit_option_def limit_key_def opt_printed_def)

text \<open>
  C24. The limit of a composition reaches the engine: a query of words and operators without a
  limit of its own is sent with one that the server reads back, every other field unchanged.
\<close>

theorem composition_limit:
  assumes "ws \<noteq> []" "list_all plain_main ws" "fine_options opts" "limit_key \<notin> fst ` set opts"
    and "\<not> Contains (query_printed ws opts) ''max_matches:''" "0 < n" "n < 2 ^ 31" "operator \<in> knownOperators"
  shows "\<exists>q. ParseQuery (query_printed ws opts) g = Inr q \<and>
    (\<exists>sent. check_query (int n) (Some \<lparr>qe_Query = query_printed ws opts, qe_Operator = operator\<rparr>) = Inr sent \<and>
       ParseQuery (qe_Query sent) g = Inr (q\<lparr>q_MaxMatches := int n\<rparr>))"
proof -
  have opts': "opts @ [limit_option n] = set_limit opts n" using assms(4) by (simp add: set_limit_def)
  have small: "n < 2 ^ 63" using assms(7) by simp
  have d: "distinct (map fst opts)" using assms(3) by (simp add: fine_options_def)
  have none: "max_matches_is opts 0"
    using assms(4) by (simp add: max_matches_is_def limit_key_def flip: map_of_eq_None_iff)
  have n: "int32 (int n) = int n" using assms(7) by (intro int32_id) simp_all
  have keys: "value_of (set_limit opts n) k = value_of opts k" if "k \<noteq> ''max_matches''" for k
    using that by (simp add: value_of_set_limit limit_key_def)
  have "check_query (int n) (Some \<lparr>qe_Query = query_printed ws opts, qe_Operator = operator\<rparr>) =
      Inr \<lparr>qe_Query = query_printed ws (set_limit opts n), qe_Operator = operator\<rparr>"
    using assms(1,5,6,8) by (simp add: check_query_def query_printed_snoc string_of_int_nat flip: opts')
  moreover note ParseQuery_printed[OF assms(1,2) fine_set_limit[OF assms(3)] max_matches_set_limit[OF small d], of g]
  moreover note ParseQuery_printed[OF assms(1-3) none, of g]
  ultimately show ?thesis by (simp add: n keys)
qed

section \<open>Concrete compositions\<close>

definition some_result :: "string \<Rightarrow> string \<Rightarrow> int \<Rightarrow> Result" where
  "some_result v p n = \<lparr>r_Tree = ''t'', r_Version = v, r_Path = p, r_LineNumber = n, r_ContextBefore = [],
     r_ContextAfter = [], r_Bounds = [], r_Line = []\<rparr>"

definition some_composition :: composition where
  "some_composition =
     \<lparr>cp_Queries = [Some \<lparr>qe_Query = ''foo'', qe_Operator = ''''\<rparr>,
        Some \<lparr>qe_Query = ''bar'', qe_Operator = ''exclude_by_file''\<rparr>],
      cp_ExcludeFiles = [\<lparr>ek_Tree = ''t'', ek_Version = ''v1'', ek_Path = ''a''\<rparr>],
      cp_VersionAware = False, cp_MaxMatches = 0\<rparr>"

text \<open>The first query finds lines of two files, the second lines of one of them.\<close>

definition some_iap :: iap_outside where
  "some_iap =
     \<lparr>io_Do = (\<lambda>r. Inr \<lparr>hp_StatusCode = 200, hp_Body = hq_URL r, hp_BodyError = None\<rparr>),
      io_reply = (\<lambda>body. if HasSuffix body ''foo''
        then Inr [some_result ''v1'' ''b'' 3, some_result ''v1'' ''a'' 9, some_result ''v2'' ''a'' 9, some_result ''v1'' ''a'' 2]
        else Inr [some_result ''v2'' ''b'' 7]),
      io_object = (\<lambda>body. Inr [(''id_token'', ''id''), (''refresh_token'', ''r'')]),
      io_composition = (\<lambda>path. Inr some_composition), io_UserCacheDir = Inr ''/c'', io_MkdirTemp = None,
      io_CreateTemp = (\<lambda>q. None), io_Seek = (\<lambda>q. None), io_Mkdir = (\<lambda>p. None), io_OpenFile = (\<lambda>p. None),
      io_Listen = Inr ''127.0.0.1:80'', io_Browser = (\<lambda>u. None), io_Callback = (\<lambda>u. Inr [(''code'', [''c''])])\<rparr>"

definition some_files :: cred_files where
  "some_files = (\<lambda>p. Some (Some (creds_object
     \<lparr>ic_ClientID = ''i'', ic_ClientSecret = ''s'', ic_RefreshToken = ''r'', ic_Audience = ''a''\<rparr>)))"

lemma some_composite:
  "compositeQuery some_iap some_files (\<lambda>as. as) (\<lambda>rs. rs) ''f'' = Inr [some_result ''v1'' ''a'' 2, some_result ''v1'' ''a'' 9]"
  by code_simp

lemma some_composite_rev:
  "compositeQuery some_iap some_files rev rev ''f'' = Inr [some_result ''v1'' ''a'' 2, some_result ''v1'' ''a'' 9]"
  by code_simp

lemma compositeQuery_prints_witness:
  "\<exists>c qs token bodies. io_composition some_iap ''f'' = Inr c \<and>
    map_res (check_query (cp_MaxMatches c)) (cp_Queries c) = Inr qs \<and> getIDToken some_iap some_files = Inr token \<and>
    map (\<lambda>q. doQuery some_iap token (qe_Query q)) qs = map Inr bodies \<and>
    printed_as (io_reply some_iap) c (zip qs bodies) [some_result ''v1'' ''a'' 2, some_result ''v1'' ''a'' 9]"
  by (rule compositeQuery_prints[OF some_composite]) simp_all

lemma compositeQuery_order_witness:
  "case (compositeQuery some_iap some_files (\<lambda>as. as) (\<lambda>rs. rs) ''f'', compositeQuery some_iap some_files rev rev ''f'') of
      (Inr rs, Inr rs') \<Rightarrow> \<exists>c. io_composition some_iap ''f'' = Inr c \<and>
        map (makeDedupeKey (cp_VersionAware c)) rs = map (makeDedupeKey (cp_VersionAware c)) rs'
    | (Inl e, Inl e') \<Rightarrow> True
    | _ \<Rightarrow> False"
  by (rule compositeQuery_order) simp_all

lemma versioned_exclusion_ignored_witness:
  "compositeQuery (some_iap\<lparr>io_composition := (\<lambda>_. Inr (without_versions some_composition))\<rparr>) some_files
     (\<lambda>as. as) (\<lambda>rs. rs) ''f'' = Inr [some_result ''v1'' ''a'' 2, some_result ''v1'' ''a'' 9]"
  using versioned_exclusion_ignored[of some_iap "''f''" some_composition some_files "\<lambda>as. as" "\<lambda>rs. rs"] some_composite
  by (simp add: some_iap_def some_composition_def)

lemma configure_then_token_witness:
  "\<exists>refreshToken. getRefreshToken some_iap ''i'' ''s'' = Inr refreshToken \<and>
    getIDToken some_iap (snd (configure some_iap ''i'' ''s'' ''a'' (\<lambda>p. None))) = unmarshalJSONResponse some_iap
      (require2xx (io_Do some_iap (form_request ''https://oauth2.googleapis.com/token''
        [(''client_id'', [''i'']), (''client_secret'', [''s'']), (''refresh_token'', [refreshToken]),
         (''grant_type'', [''refresh_token'']), (''audience'', [''a''])])))
      ''id_token''"
proof -
  have "fst (configure some_iap ''i'' ''s'' ''a'' (\<lambda>p. None)) = None"
    by (simp add: configure_def some_iap_def getRefreshToken_def unmarshalJSONResponse_def require2xx_def object_field_def)
  then show ?thesis
    by (intro configure_then_token[where files = "\<lambda>p. None"]) (metis prod.collapse)
qed

lemma composition_limit_witness:
  "\<exists>q. ParseQuery ''foo file:a'' True = Inr q \<and>
    (\<exists>sent. check_query 50 (Some \<lparr>qe_Query = ''foo file:a'', qe_Operator = ''include''\<rparr>) = Inr sent \<and>
       ParseQuery (qe_Query sent) True = Inr (q\<lparr>q_MaxMatches := 50\<rparr>))"
proof -
  have "list_all plain_main [''foo'']" by (simp add: plain_main_def plain_char_def graphic_def)
  moreover have "fine_options [(''file'', ''a'')]"
    by (simp add: fine_options_def plain_char_def graphic_def scope_keys_def)
  moreover have "\<not> Contains ''foo file:a'' ''max_matches:''" by (simp add: Contains_def)
  ultimately show ?thesis
    using composition_limit[of "[''foo'']" "[(''file'', ''a'')]" 50 "''include''" True]
    by (simp add: query_printed_def opt_printed_def limit_key_def knownOperators_def)
qed

end
