(* ===== verification/RepoRoutes.thy ===== *)
theory RepoRoutes
  imports Config GoText "HOL-Library.AList"
begin

text \<open>
  How the server finds the repository a request names: the maps that \<^verbatim>\<open>New\<close> fills
  (\<^verbatim>\<open>buildReposAndParents\<close>), the regular expression over the names (\<^verbatim>\<open>buildRepoRegex\<close>,
  \<^verbatim>\<open>getRepoPathFromURL\<close>), and the split of \<^verbatim>\<open>rev:path\<close> that six handlers of \<^verbatim>\<open>server.go\<close>
  begin with.
\<close>

section \<open>The maps of repositories\<close>

type_synonym repo_map = "(string \<times> RepoConfig) list"

type_synonym parents = "string \<rightharpoonup> (string \<rightharpoonup> RepoConfig)"

text \<open>The loop of \<^verbatim>\<open>New\<close>: a later repository of the same name takes the place of an earlier one.\<close>

definition load_repos :: "RepoConfig list \<Rightarrow> repo_map \<times> string list" where
  "load_repos rs = (fold (\<lambda>r m. AList.update (rc_Name r) r m) rs [], map rc_Name rs)"

definition zero_repo :: RepoConfig where
  "zero_repo = \<lparr>rc_Path = [], rc_Name = [], rc_Revisions = [], rc_Metadata = Map.empty,
     rc_WalkSubmodules = False\<rparr>"

definition repo_at :: "repo_map \<Rightarrow> string \<Rightarrow> RepoConfig" where
  "repo_at repos name = (case map_of repos name of None \<Rightarrow> zero_repo | Some r \<Rightarrow> r)"

definition add_parent :: "repo_map \<Rightarrow> parents \<Rightarrow> string \<Rightarrow> ('e, parents) res" where
  "add_parent repos parents parentAndRepo =
     (let firstSlash = Index parentAndRepo ''/'' in
      bind_res (go_slice parentAndRepo 0 firstSlash) (\<lambda>parent.
      bind_res (go_slice parentAndRepo (firstSlash + 1) (int (length parentAndRepo))) (\<lambda>onlyRepoName.
        let inner = (case parents parent of None \<Rightarrow> Map.empty | Some m \<Rightarrow> m)
        in Inr (parents(parent \<mapsto> inner(onlyRepoName \<mapsto> repo_at repos parentAndRepo))))))"

fun parents_loop :: "repo_map \<Rightarrow> parents \<Rightarrow> string list \<Rightarrow> ('e, parents) res" where
  "parents_loop repos parents [] = Inr parents"
| "parents_loop repos parents (n # ns) =
     bind_res (add_parent repos parents n) (\<lambda>parents'. parents_loop repos parents' ns)"

definition buildReposAndParents :: "repo_map \<Rightarrow> string list \<Rightarrow> ('e, parents) res" where
  "buildReposAndParents repos repoNames = parents_loop repos Map.empty repoNames"

section \<open>The regular expression over the names\<close>

text \<open>
  \<^verbatim>\<open>regexp.Compile\<close> refuses an expression that is not UTF-8, and every name is quoted, so
  nothing else can be wrong with \<^verbatim>\<open>(name1|name2|...)/(.*)\<close>. The compiled expression is its
  alternatives; without names it has one, the empty one. \<open>srt\<close> is \<^verbatim>\<open>sort.Slice\<close> with the
  comparison of \<^verbatim>\<open>buildRepoRegex\<close>, which is not a strict one, so that the contract of the
  library says nothing about the order of names of one length.
\<close>

function utf8_valid :: "string \<Rightarrow> bool" where
  "utf8_valid s =
     (if s = [] then True
      else if decode_rune s = (RuneError, 1) then False else utf8_valid (drop (snd (decode_rune s)) s))"
  by pat_completeness auto
termination
  by (relation "measure length") (auto dest: decode_rune_width)

declare utf8_valid.simps [simp del]

definition buildRepoRegex ::
    "(string list \<Rightarrow> string list) \<Rightarrow> string list \<Rightarrow> (string, string list) res \<times> string list" where
  "buildRepoRegex srt repoNames =
     (let names = srt repoNames in
      (if list_all utf8_valid names then Inr (if names = [] then [[]] else names)
       else Inl (Error ''failed to create regular expression for URL parsing''), names))"

text \<open>
  \<^verbatim>\<open>FindStringSubmatch\<close>: the leftmost position at which an alternative and a slash stand, and
  there the first such alternative; \<^verbatim>\<open>.*\<close> ends at a line feed.
\<close>

definition alternative_at :: "string list \<Rightarrow> string \<Rightarrow> string option" where
  "alternative_at alts s = find (\<lambda>n. HasPrefix s (n @ ''/'')) alts"

fun regex_match :: "string list \<Rightarrow> string \<Rightarrow> (string \<times> string) option" where
  "regex_match alts s =
     (case alternative_at alts s of
        Some n \<Rightarrow> Some (n, takeWhile (\<lambda>c. c \<noteq> NL) (drop (length n + 1) s))
      | None \<Rightarrow> (case s of [] \<Rightarrow> None | c # t \<Rightarrow> regex_match alts t))"

declare regex_match.simps [simp del]

text \<open>\<open>tail\<close> is \<^verbatim>\<open>pat.Tail\<close> of the routing library.\<close>

definition getRepoPathFromURL ::
    "(string \<Rightarrow> string \<Rightarrow> string) \<Rightarrow> string list \<Rightarrow> string \<Rightarrow> string \<Rightarrow> string + string \<times> string" where
  "getRepoPathFromURL tail alts url pathPrefix =
     (case regex_match alts (tail pathPrefix url) of
        None \<Rightarrow> Inl ''failed to parse repo and path from URL''
      | Some (repo, path) \<Rightarrow> Inr (repo, path))"

section \<open>Revision and path\<close>

definition splitRevPath :: "string \<Rightarrow> string \<times> string" where
  "splitRevPath repoRevAndPath =
     (let sp = split_on CHR '':'' repoRevAndPath in
      if length sp = 2 then (sp ! 0, sp ! 1)
      else if length sp = 1 \<and> sp ! 0 \<noteq> [] then (sp ! 0, [])
      else (''HEAD'', []))"

section \<open>Both maps hold the same repositories\<close>

lemma first_slash:
  assumes "CHR ''/'' \<in> set n"
  obtains p r where "n = p @ CHR ''/'' # r" "CHR ''/'' \<notin> set p"
  using in_set_conv_decomp_first[THEN iffD1, OF assms] that by blast

lemma slash_unique:
  "CHR ''/'' \<notin> set p \<Longrightarrow> CHR ''/'' \<notin> set p' \<Longrightarrow>
    p @ CHR ''/'' # r = p' @ CHR ''/'' # r' \<longleftrightarrow> p = p' \<and> r = r'"
  using Cut_append[of "CHR ''/''" p r] Cut_append[of "CHR ''/''" p' r'] by (metis Pair_inject option.inject)

lemma Index_slash [simp]: "CHR ''/'' \<notin> set p \<Longrightarrow> Index (p @ CHR ''/'' # r) ''/'' = int (length p)"
  by (simp add: Index_def index_opt_byte_append)

lemma Index_no_slash [simp]: "CHR ''/'' \<notin> set n \<Longrightarrow> Index n ''/'' = -1"
  by (simp add: Index_def index_opt_byte_None[THEN iffD2])

lemma nat_int_plus_one [simp]: "nat (int n + 1) = Suc n"
  by simp

lemma add_parent_slash:
  "CHR ''/'' \<notin> set p \<Longrightarrow> add_parent repos ps (p @ CHR ''/'' # r) =
    Inr (ps(p \<mapsto> (case ps p of None \<Rightarrow> Map.empty | Some m \<Rightarrow> m)(r \<mapsto> repo_at repos (p @ CHR ''/'' # r))))"
  by (simp add: add_parent_def go_slice_def)

lemma add_parent_no_slash: "CHR ''/'' \<notin> set n \<Longrightarrow> add_parent repos ps n = Inl (Panic SliceOutOfRange)"
  by (simp add: add_parent_def go_slice_def)

definition in_parents :: "parents \<Rightarrow> string \<Rightarrow> string \<Rightarrow> RepoConfig option" where
  "in_parents ps p r = Option.bind (ps p) (\<lambda>m. m r)"

lemma parents_loop_lookup:
  assumes "CHR ''/'' \<notin> set p" "parents_loop repos ps ns = (Inr ps' :: ('e, parents) res)"
  shows "in_parents ps' p r =
    (if p @ CHR ''/'' # r \<in> set ns then Some (repo_at repos (p @ CHR ''/'' # r)) else in_parents ps p r)"
  using assms(2)
proof (induction ns arbitrary: ps)
  case (Cons n ns)
  obtain ps1 where ps1: "add_parent repos ps n = (Inr ps1 :: ('e, parents) res)"
      "parents_loop repos ps1 ns = (Inr ps' :: ('e, parents) res)"
    using Cons.prems by (auto simp: res_simps)
  then have "CHR ''/'' \<in> set n"
    using add_parent_no_slash[of n repos ps, where 'a = 'e] by fastforce
  then obtain q t where n: "n = q @ CHR ''/'' # t" "CHR ''/'' \<notin> set q" by (rule first_slash)
  have "in_parents ps1 p r =
      (if p @ CHR ''/'' # r = n then Some (repo_at repos (p @ CHR ''/'' # r)) else in_parents ps p r)"
    using ps1(1) n slash_unique[OF assms(1) n(2), of r t]
    by (auto simp: add_parent_slash in_parents_def split: option.splits)
  then show ?case using Cons.IH[OF ps1(2)] by auto
qed simp

lemma parents_loop_panics: "is_panic (parents_loop repos ps ns) \<longleftrightarrow> (\<exists>n\<in>set ns. CHR ''/'' \<notin> set n)"
proof (induction ns arbitrary: ps)
  case (Cons n ns)
  show ?case
  proof (cases "CHR ''/'' \<in> set n")
    case True
    then obtain p r where "n = p @ CHR ''/'' # r" "CHR ''/'' \<notin> set p" by (rule first_slash)
    then show ?thesis using Cons.IH True by (auto simp: add_parent_slash res_simps)
  next
    case False
    then show ?thesis by (simp add: add_parent_no_slash)
  qed
qed simp

lemma find_append: "find P (xs @ ys) = (case find P xs of None \<Rightarrow> find P ys | Some x \<Rightarrow> Some x)"
  by (induction xs) simp_all

lemma parents_loop_no_error: "parents_loop repos ps ns \<noteq> Inl (Error e)"
  by (induction ns arbitrary: ps) (auto simp: add_parent_def Let_def res_simps)

lemma map_of_load: "map_of (fold (\<lambda>r m. AList.update (rc_Name r) r m) rs m) n =
    (case find (\<lambda>r. rc_Name r = n) (rev rs) of None \<Rightarrow> map_of m n | Some r \<Rightarrow> Some r)"
proof (induction rs arbitrary: m)
  case (Cons r rs)
  show ?case using Cons.IH by (simp add: find_append update_conv' split: option.splits)
qed simp

lemma load_repos_find: "map_of (fst (load_repos rs)) n = find (\<lambda>r. rc_Name r = n) (rev rs)"
  by (simp add: load_repos_def map_of_load split: option.splits)

text \<open>Under a parent and a name that a URL can carry both maps have the same repository.\<close>

lemma buildReposAndParents_agrees:
  assumes "buildReposAndParents (fst (load_repos rs)) names = Inr ps"
    and "mset names = mset (snd (load_repos rs))" "CHR ''/'' \<notin> set p"
  shows "in_parents ps p r = map_of (fst (load_repos rs)) (p @ CHR ''/'' # r) \<and>
    in_parents ps p r = find (\<lambda>c. rc_Name c = p @ CHR ''/'' # r) (rev rs)"
proof -
  let ?n = "p @ CHR ''/'' # r"
  have names: "set names = rc_Name ` set rs"
    using mset_eq_setD[OF assms(2)] by (simp add: load_repos_def)
  have "in_parents ps p r = (if ?n \<in> set names then Some (repo_at (fst (load_repos rs)) ?n) else None)"
    using parents_loop_lookup[OF assms(3) assms(1)[unfolded buildReposAndParents_def], of r]
    by (simp add: in_parents_def)
  moreover have "?n \<in> set names \<longleftrightarrow> find (\<lambda>c. rc_Name c = ?n) (rev rs) \<noteq> None"
    by (force simp: names find_None_iff)
  ultimately have "in_parents ps p r = find (\<lambda>c. rc_Name c = ?n) (rev rs)"
    by (auto simp: repo_at_def load_repos_find split: option.splits)
  then show ?thesis by (simp add: load_repos_find)
qed

lemma buildReposAndParents_panics:
  "is_panic (buildReposAndParents repos names) \<longleftrightarrow> list_ex (\<lambda>n. CHR ''/'' \<notin> set n) names"
  by (simp add: buildReposAndParents_def parents_loop_panics list_ex_iff)

section \<open>The name and the path in a URL\<close>

lemma alternative_at_Some:
  "alternative_at alts s = Some n \<Longrightarrow> n \<in> set alts \<and> HasPrefix s (n @ ''/'')"
  unfolding alternative_at_def by (auto simp: find_Some_iff in_set_conv_nth)

lemma alternative_at_None: "alternative_at alts s = None \<longleftrightarrow> (\<forall>n\<in>set alts. \<not> HasPrefix s (n @ ''/''))"
  by (auto simp: alternative_at_def find_None_iff)

lemma HasPrefix_is_prefix: "HasPrefix s p \<longleftrightarrow> prefix p s"
  by (simp add: HasPrefix_iff prefix_def)

lemma regex_match_None: "regex_match alts s = None \<longleftrightarrow> (\<forall>n\<in>set alts. \<not> sublist (n @ ''/'') s)"
proof (induction s)
  case Nil
  show ?case by (simp add: regex_match.simps[of alts "[]"] alternative_at_def HasPrefix_def
        find_None_iff split: option.splits)
next
  case (Cons c s)
  have "sublist (n @ ''/'') (c # s) \<longleftrightarrow> HasPrefix (c # s) (n @ ''/'') \<or> sublist (n @ ''/'') s" for n
    by (simp add: sublist_Cons_right HasPrefix_is_prefix)
  then show ?case
    using Cons.IH alternative_at_None[of alts "c # s"]
    by (auto simp: regex_match.simps[of alts "c # s"] split: option.splits)
qed

text \<open>
  A URL of \<^verbatim>\<open>/view/\<close> is read wherever the name of a repository and a slash occur in it:
  the expression is not anchored, so what stands before the name is dropped.
\<close>

theorem getRepoPathFromURL_reads:
  "(\<exists>repo path. getRepoPathFromURL tail alts url pathPrefix = Inr (repo, path)) \<longleftrightarrow>
   list_ex (\<lambda>n. sublist (n @ ''/'') (tail pathPrefix url)) alts"
  using regex_match_None[of alts "tail pathPrefix url"]
  by (cases "regex_match alts (tail pathPrefix url)") (auto simp: getRepoPathFromURL_def list_ex_iff)

text \<open>The first alternative that matches, where the longer ones come first.\<close>

lemma find_longest:
  assumes "sorted_wrt (\<lambda>a b. length b \<le> length a) alts" "n \<in> set alts" "P n"
    and "\<forall>m\<in>set alts. P m \<longrightarrow> length m < length n \<or> m = n"
  shows "find P alts = Some n"
  using assms
proof (induction alts)
  case (Cons a alts)
  then show ?case by (cases "P a") (auto simp: not_less[symmetric])
qed simp

lemma prefix_same_length:
  assumes "HasPrefix s (m @ ''/'')" "HasPrefix s (n @ ''/'')" "length m = length n"
  shows "m = n"
proof -
  have "m @ ''/'' = take (Suc (length m)) s" "n @ ''/'' = take (Suc (length n)) s"
    using assms(1,2) by (simp_all add: HasPrefix_def)
  then show ?thesis using assms(3) by (metis append_same_eq)
qed

text \<open>
  The URL of a file is read back: the name of a repository, a slash and a path give that
  repository and that path, where no longer name fits as well, whatever the sort makes of
  names of one length.
\<close>

theorem getRepoPathFromURL_longest:
  assumes "fst (buildRepoRegex srt names) = Inr alts" "mset (srt names) = mset names"
    and "sorted_wrt (\<lambda>a b. length b \<le> length a) (srt names)"
    and "n \<in> set names" "tail pathPrefix url = n @ CHR ''/'' # path" "NL \<notin> set path"
    and "\<forall>m\<in>set names. HasPrefix (n @ CHR ''/'' # path) (m @ ''/'') \<longrightarrow> length m \<le> length n"
  shows "getRepoPathFromURL tail alts url pathPrefix = Inr (n, path)"
proof -
  let ?s = "n @ CHR ''/'' # path"
  have set: "set (srt names) = set names" using assms(2) by (rule mset_eq_setD)
  then have "srt names \<noteq> []" using assms(4) by auto
  then have alts: "alts = srt names"
    using assms(1) by (auto simp: buildRepoRegex_def Let_def split: if_splits)
  have here: "HasPrefix ?s (n @ ''/'')" by (simp add: HasPrefix_iff)
  have "length m < length n \<or> m = n" if "m \<in> set alts" "HasPrefix ?s (m @ ''/'')" for m
  proof -
    have "length m \<le> length n" using assms(7) that alts set by simp
    then show ?thesis using prefix_same_length[OF that(2) here] by linarith
  qed
  then have "alternative_at alts ?s = Some n"
    unfolding alternative_at_def
    using assms(3,4) alts set here by (intro find_longest) simp_all
  moreover have "takeWhile (\<lambda>c. c \<noteq> NL) path = path"
    using assms(6) by (subst takeWhile_eq_all_conv) blast
  ultimately show ?thesis
    by (simp add: getRepoPathFromURL_def assms(5) regex_match.simps[of alts ?s])
qed

lemma getRepoPathFromURL_longest_witness:
  "getRepoPathFromURL (\<lambda>p u. drop (length p) u) [''a/b/c'', ''a/b'', ''x/y''] ''/view/a/b/c/main.go'' ''/view/'' =
    Inr (''a/b/c'', ''main.go'')"
proof -
  have "list_all utf8_valid [''a/b/c'', ''a/b'', ''x/y'']" by (simp add: utf8_valid.simps)
  then show ?thesis
    by (intro getRepoPathFromURL_longest[where srt = "\<lambda>ns. rev (sort_key length ns)" and
          names = "[''x/y'', ''a/b'', ''a/b/c'']"])
       (auto simp: buildRepoRegex_def HasPrefix_def Let_def)
qed

section \<open>Reading a revision and a path\<close>

text \<open>
  A revision and a path, joined by a colon, are read back, unless the path has a colon of
  its own: then both are lost, and the page shows the root of \<^verbatim>\<open>HEAD\<close>.
\<close>

theorem splitRevPath_reads:
  assumes "CHR '':'' \<notin> set rv"
  shows "splitRevPath (rv @ CHR '':'' # path) = (if CHR '':'' \<in> set path then (''HEAD'', []) else (rv, path))"
proof -
  have "split_on CHR '':'' (rv @ CHR '':'' # path) = rv # split_on CHR '':'' path"
    using assms by (simp add: split_on_append)
  moreover have "length (split_on CHR '':'' path) = Suc (count_list path CHR '':'')" by (rule length_split_on)
  ultimately show ?thesis
    by (auto simp: splitRevPath_def Let_def split_on_no_sep count_list_0_iff)
qed

lemma splitRevPath_reads_witness:
  "splitRevPath ''main:a.go'' = (''main'', ''a.go'') \<and> splitRevPath ''main:a:b.go'' = (''HEAD'', [])"
  using splitRevPath_reads[of "''main''" "''a.go''"] splitRevPath_reads[of "''main''" "''a:b.go''"] by simp

end
