(* ===== verification/GitFiles.thy ===== *)
theory GitFiles
  imports GoPaths Config
begin

text \<open>
  Links to files, breadcrumbs, the entries of a git tree object and the directory listing of
  \<^verbatim>\<open>server/fileviewer/fileview.go\<close>. What git prints is a parameter.
\<close>

section \<open>Links\<close>

record breadCrumbEntry =
  bce_Name :: string
  bce_Path :: string

record directoryListEntry =
  dle_Name :: string
  dle_Path :: string
  dle_IsDir :: bool
  dle_SymlinkTarget :: string

definition viewUrl :: "string \<Rightarrow> string \<Rightarrow> bool \<Rightarrow> string" where
  "viewUrl repo path isDir =
     (let entryType = (if isDir then ''tree'' else ''blob'')
      in ''/delve/'' @ repo @ ''/'' @ entryType @ ''/'' @ ''HEAD/'' @ path)"

definition getFileUrl :: "string \<Rightarrow> string \<Rightarrow> string \<Rightarrow> string \<Rightarrow> bool \<Rightarrow> bool \<Rightarrow> string" where
  "getFileUrl repo pathFromRoot name commitHash isDir useViewUrl =
     (let fullPath = path_Join [pathFromRoot, path_Clean name] in
      if useViewUrl then
        (let fileUrl = viewUrl repo fullPath isDir in if isDir then fileUrl @ ''/'' else fileUrl)
      else ''/'' @ repo @ ''/+/'' @ commitHash @ '':'' @ fullPath)"

definition migrationUrl :: "string \<Rightarrow> string \<Rightarrow> string \<Rightarrow> string" where
  "migrationUrl repo path revision = ''/experimental/'' @ repo @ ''/+/'' @ revision @ '':'' @ path"

definition getPathSegments :: "string list \<Rightarrow> RepoConfig \<Rightarrow> breadCrumbEntry list" where
  "getPathSegments pathSplits repo =
     map (\<lambda>i. let name = pathSplits ! i;
                  parentPath = path_Clean (join ''/'' (take i pathSplits))
              in \<lparr>bce_Name = name,
                  bce_Path = getFileUrl (rc_Name repo) parentPath name [] True False\<rparr>)
       [0..<length pathSplits]"

section \<open>Tree objects\<close>

record gitTreeEntry =
  te_Mode :: string
  te_ObjectType :: string
  te_ObjectId :: string
  te_ObjectName :: string

text \<open>\<^verbatim>\<open>gitParseTreeEntry\<close> indexes the fields without looking how many there are.\<close>

definition gitParseTreeEntry :: "string \<Rightarrow> ('e, gitTreeEntry) res" where
  "gitParseTreeEntry line =
     (let dataAndPath = splitn_on 2 TAB line;
          dataFields = split_on CHR '' '' (dataAndPath ! 0)
      in bind_res (go_index dataFields 0) (\<lambda>mode.
         bind_res (go_index dataFields 1) (\<lambda>typ.
         bind_res (go_index dataFields 2) (\<lambda>oid.
         bind_res (go_index dataAndPath 1) (\<lambda>name.
           Inr \<lparr>te_Mode = mode, te_ObjectType = typ, te_ObjectId = oid,
                te_ObjectName = name\<rparr>)))))"

datatype git_error = GitFailed string

definition gitListDir ::
    "(string list \<Rightarrow> string + string) \<Rightarrow> string \<Rightarrow> string \<Rightarrow> (git_error, gitTreeEntry list) res" where
  "gitListDir git obj repoPath =
     (case git [''-C'', repoPath, ''cat-file'', ''-p'', obj] of
        Inl err \<Rightarrow> Inl (Error (GitFailed err))
      | Inr out \<Rightarrow>
          bind_res (go_slice (split_on NL out) 0 (int (length (split_on NL out)) - 1))
            (\<lambda>lines. map_res gitParseTreeEntry lines))"

definition gitCatBlob ::
    "(string list \<Rightarrow> string + string) \<Rightarrow> string \<Rightarrow> string \<Rightarrow> (git_error, string) res" where
  "gitCatBlob git obj repoPath =
     (case git [''-C'', repoPath, ''cat-file'', ''blob'', obj] of
        Inl err \<Rightarrow> Inl (Error (GitFailed err))
      | Inr out \<Rightarrow> Inr out)"

definition buildDirectoryListEntry ::
    "(string list \<Rightarrow> string + string) \<Rightarrow> gitTreeEntry \<Rightarrow> string \<Rightarrow> string \<Rightarrow> string \<Rightarrow> string \<Rightarrow> bool
     \<Rightarrow> directoryListEntry" where
  "buildDirectoryListEntry git treeEntry pathFromRoot repoName repoPath commitHash useViewUrl =
     (let isTree = (te_ObjectType treeEntry = ''tree'') in
      if te_Mode treeEntry = ''120000'' then
        \<lparr>dle_Name = te_ObjectName treeEntry, dle_Path = [], dle_IsDir = isTree,
         dle_SymlinkTarget = (case gitCatBlob git (te_ObjectId treeEntry) repoPath of
            Inr resolvedPath \<Rightarrow> resolvedPath | Inl _ \<Rightarrow> [])\<rparr>
      else
        \<lparr>dle_Name = te_ObjectName treeEntry,
         dle_Path = getFileUrl repoName pathFromRoot (te_ObjectName treeEntry) commitHash isTree
           useViewUrl,
         dle_IsDir = isTree, dle_SymlinkTarget = []\<rparr>)"

text \<open>\<^verbatim>\<open>DirListingSort.Less\<close>: directories first, then by name, bytewise.\<close>

definition dir_listing_less :: "directoryListEntry \<Rightarrow> directoryListEntry \<Rightarrow> bool" where
  "dir_listing_less a b =
     (if dle_IsDir a \<noteq> dle_IsDir b then dle_IsDir a else bytes_less (dle_Name a) (dle_Name b))"

section \<open>The order of a listing\<close>

interpretation listing: less_order dir_listing_less
  by unfold_locales
    (auto simp: dir_listing_less_def dest: bytes_less_asym bytes_not_less_trans split: if_splits)

end
