(* ===== verification/FileView.thy ===== *)
theory FileView
  imports GitFiles GoUrl
begin

text \<open>
  The data of a file page, \<^verbatim>\<open>BuildFileData\<close> and \<^verbatim>\<open>BuildFileDataForZoektFilePreview\<close> of
  \<^verbatim>\<open>server/fileviewer/fileview.go\<close>, with the small git calls they make: the object at a path,
  its language, the listing of a directory and its README, the breadcrumbs and the links.
  git is a parameter.
\<close>

section \<open>Languages\<close>

definition filenameToLangMap :: "(string \<times> string) list" where
  "filenameToLangMap =
   [(''BUILD'', ''python''), (''BUILD.bazel'', ''python''), (''WORKSPACE'', ''python'')]"

definition extToLangMap :: "(string \<times> string) list" where
  "extToLangMap =
   [(''.adoc'', ''AsciiDoc''), (''.asc'', ''AsciiDoc''), (''.asciidoc'', ''AsciiDoc''),
    (''.AppleScript'', ''applescript''), (''.bzl'', ''python''), (''.c'', ''c''),
    (''.coffee'', ''coffeescript''), (''.cpp'', ''cpp''), (''.css'', ''css''), (''.go'', ''go''),
    (''.h'', ''cpp''), (''.hs'', ''haskell''), (''.html'', ''html''), (''.java'', ''java''),
    (''.js'', ''javascript''), (''.json'', ''json''), (''.jsx'', ''jsx''),
    (''.m'', ''objectivec''), (''.markdown'', ''markdown''), (''.md'', ''markdown''),
    (''.mdown'', ''markdown''), (''.mkdn'', ''markdown''), (''.mediawiki'', ''markdown''),
    (''.nix'', ''nix''), (''.php'', ''php''), (''.pl'', ''perl''), (''.proto'', ''go''),
    (''.py'', ''python''), (''.pyst'', ''python''), (''.rb'', ''ruby''),
    (''.rdoc'', ''markdown''), (''.rs'', ''rust''), (''.scala'', ''scala''),
    (''.scpt'', ''applescript''), (''.scss'', ''scss''), (''.sh'', ''bash''),
    (''.sky'', ''python''), (''.sql'', ''sql''), (''.swift'', ''swift''),
    (''.textile'', ''markdown''), (''.ts'', ''typescript''), (''.tsx'', ''tsx''),
    (''.wiki'', ''markdown''), (''.xml'', ''xml''), (''.yaml'', ''yaml''), (''.yml'', ''yaml'')]"

definition language_of :: "string \<Rightarrow> string" where
  "language_of cleanPath =
     (let language = map_string (map_of filenameToLangMap) (path_Base cleanPath)
      in if language = [] then map_string (map_of extToLangMap) (path_Ext cleanPath) else language)"

section \<open>READMEs\<close>

text \<open>The extensions as \<^verbatim>\<open>buildReadmeRegex\<close> orders them, the longest first.\<close>

definition supportedReadmeExtensions :: "string list" where
  "supportedReadmeExtensions =
     [''mediawiki'', ''markdown'', ''asciidoc'', ''textile'', ''creole'', ''mdown'', ''mkdn'',
      ''rdoc'', ''wiki'', ''adoc'', ''org'', ''rst'', ''asc'', ''pod'', ''md'']"

definition ascii_lower :: "string \<Rightarrow> string" where
  "ascii_lower s = map (\<lambda>c. if 65 \<le> byte c \<and> byte c \<le> 90 then char_of (byte c + 32) else c) s"

text \<open>
  \<^verbatim>\<open>((?i)readme)\.?(ext|...)\<close>, tried at each position in turn. The result is the whole match
  and the extension.
\<close>

definition readme_at :: "string \<Rightarrow> (string \<times> string) option" where
  "readme_at s =
     (if ascii_lower (take 6 s) = ''readme'' then
        (let dot = (if HasPrefix (drop 6 s) ''.'' then ''.'' else []);
             rest = drop (6 + length dot) s
         in map_option (\<lambda>ext. (take 6 s @ dot @ ext, ext))
              (find (\<lambda>ext. HasPrefix rest ext) supportedReadmeExtensions))
      else None)"

fun supportedReadmeRegex :: "string \<Rightarrow> (string \<times> string) option" where
  "supportedReadmeRegex [] = readme_at []"
| "supportedReadmeRegex (c # s) =
     (case readme_at (c # s) of Some m \<Rightarrow> Some m | None \<Rightarrow> supportedReadmeRegex s)"

record readme =
  rm_Path :: string
  rm_Lang :: string
  rm_Name :: string

definition no_readme :: readme where
  "no_readme = \<lparr>rm_Path = [], rm_Lang = [], rm_Name = []\<rparr>"

text \<open>One entry of the loop; \<open>first\<close> tells whether a README already found is kept.\<close>

definition readme_step :: "bool \<Rightarrow> string \<Rightarrow> readme \<Rightarrow> string \<Rightarrow> readme" where
  "readme_step keepFirst obj rm name =
     (if keepFirst \<and> rm_Path rm \<noteq> [] then rm
      else if ascii_lower name = ''readme'' then
        \<lparr>rm_Path = obj @ name, rm_Lang = ''md'', rm_Name = name\<rparr>
      else case supportedReadmeRegex name of
          None \<Rightarrow> rm
        | Some (m, ext) \<Rightarrow> \<lparr>rm_Path = obj @ m, rm_Lang = ext, rm_Name = m\<rparr>)"

section \<open>Pages\<close>

record SourceFileContent =
  sf_Content :: string
  sf_LineCount :: nat
  sf_Language :: string
  sf_FileName :: string
  sf_FilePath :: string
  sf_Invalid :: bool

record directoryContent =
  dc_Entries :: "directoryListEntry list"
  dc_ReadmeContent :: "SourceFileContent option"

record FileViewerContext =
  fc_PathSegments :: "breadCrumbEntry list"
  fc_Repo :: RepoConfig
  fc_Commit :: string
  fc_CommitHash :: string
  fc_ShortCommitHash :: string
  fc_DirContent :: "directoryContent option"
  fc_FileContent :: "SourceFileContent option"
  fc_ExternalDomain :: string
  fc_Permalink :: string
  fc_Headlink :: string
  fc_FilePath :: string
  fc_FileName :: string
  fc_MigrationUrl :: string

type_synonym git = "string list \<Rightarrow> string + string"

definition git_res :: "string + string \<Rightarrow> (git_error, string) res" where
  "git_res r = (case r of Inl err \<Rightarrow> Inl (Error (GitFailed err)) | Inr out \<Rightarrow> Inr out)"

definition gitCommitHash :: "git \<Rightarrow> string \<Rightarrow> string \<Rightarrow> (git_error, string) res" where
  "gitCommitHash git ref repoPath = git_res (git [''-C'', repoPath, ''rev-parse'', ref])"

definition gitObjectType :: "git \<Rightarrow> string \<Rightarrow> string \<Rightarrow> (git_error, string) res" where
  "gitObjectType git obj repoPath =
     bind_res (git_res (git [''-C'', repoPath, ''cat-file'', ''-t'', obj])) (\<lambda>out. Inr (TrimSpace out))"

definition GitRevParseAbbrev :: "git \<Rightarrow> string \<Rightarrow> string \<Rightarrow> (git_error, string) res" where
  "GitRevParseAbbrev git revision repoPath =
     bind_res (git_res (git [''-C'', repoPath, ''rev-parse'', ''--abbrev-ref'', revision])) (\<lambda>out. Inr (TrimSpace out))"

definition GitGetLastRevToTouchPath :: "git \<Rightarrow> string \<Rightarrow> string \<Rightarrow> string \<Rightarrow> (git_error, string) res" where
  "GitGetLastRevToTouchPath git relativePath repoPath repoRev =
     bind_res (git_res (git [''-C'', repoPath, ''rev-list'', ''-1'', repoRev, ''--'', relativePath]))
       (\<lambda>out. Inr (TrimSpace out))"

text \<open>The hash of the commit, or the name as it is where git does not know it.\<close>

definition resolve_commit :: "git \<Rightarrow> string \<Rightarrow> string \<Rightarrow> (git_error, string) res" where
  "resolve_commit git commit repoPath =
     (case gitCommitHash git commit repoPath of
        Inr out \<Rightarrow> go_slice out 0 (Index out [NL])
      | Inl f \<Rightarrow> Inr commit)"

definition clean_path :: "string \<Rightarrow> string" where
  "clean_path relativePath = (let p = path_Clean relativePath in if p = ''.'' then [] else p)"

definition read_readme :: "git \<Rightarrow> string \<Rightarrow> string \<Rightarrow> readme \<Rightarrow> SourceFileContent option" where
  "read_readme git repoPath relativePath rm =
     (if rm_Path rm = [] then None
      else case gitCatBlob git (rm_Path rm) repoPath of
          Inl _ \<Rightarrow> None
        | Inr content \<Rightarrow> Some \<lparr>sf_Content = content, sf_LineCount = count_list content NL,
            sf_Language = map_string (map_of extToLangMap) (CHR ''.'' # rm_Lang rm),
            sf_FileName = rm_Name rm, sf_FilePath = relativePath,
            sf_Invalid = False\<rparr>)"

text \<open>
  The content at an object: a directory, a file, or neither where the object is of another
  type. \<open>arr\<close> is the freedom of \<^verbatim>\<open>sort.Sort\<close>.
\<close>

definition object_content ::
    "(directoryListEntry list \<Rightarrow> directoryListEntry list) \<Rightarrow> git \<Rightarrow> bool \<Rightarrow> bool \<Rightarrow> string \<Rightarrow> string
     \<Rightarrow> string \<Rightarrow> string \<Rightarrow> (git_error, SourceFileContent option \<times> directoryContent option) res" where
  "object_content arr git useViewUrl keepFirst relativePath repoPath repoName commitHash =
     (let cleanPath = clean_path relativePath; obj = commitHash @ CHR '':'' # cleanPath in
      bind_res (gitObjectType git obj repoPath) (\<lambda>objectType.
        if objectType = ''tree'' then
          bind_res (gitListDir git obj repoPath) (\<lambda>treeEntries.
            let dirEntries = map (\<lambda>te. buildDirectoryListEntry git te cleanPath repoName repoPath
                    commitHash useViewUrl) treeEntries;
                rm = foldl (readme_step keepFirst obj) no_readme (map dle_Name dirEntries)
            in Inr (None, Some \<lparr>dc_Entries = sort_slice arr dir_listing_less dirEntries,
                 dc_ReadmeContent = read_readme git repoPath relativePath rm\<rparr>))
        else if objectType = ''blob'' then
          bind_res (gitCatBlob git obj repoPath) (\<lambda>content.
            Inr (Some \<lparr>sf_Content = content, sf_LineCount = 0, sf_Language = language_of cleanPath,
                  sf_FileName = path_Base cleanPath, sf_FilePath = relativePath,
                  sf_Invalid = False\<rparr>, None))
        else Inr (None, None)))"

definition BuildFileDataForZoektFilePreview ::
    "(directoryListEntry list \<Rightarrow> directoryListEntry list) \<Rightarrow> git \<Rightarrow> string \<Rightarrow> string \<Rightarrow> string \<Rightarrow> string
     \<Rightarrow> (git_error, SourceFileContent option \<times> directoryContent option) res" where
  "BuildFileDataForZoektFilePreview arr git relativePath repoPath repoName commit =
     bind_res (resolve_commit git commit repoPath)
       (object_content arr git False False relativePath repoPath repoName)"

definition getFileNameAndPathFromContent ::
    "SourceFileContent option \<Rightarrow> directoryContent option \<Rightarrow> (git_error, string \<times> string) res" where
  "getFileNameAndPathFromContent fc dc =
     (case fc of
        Some f \<Rightarrow> Inr (sf_FileName f, sf_FilePath f)
      | None \<Rightarrow>
          (case dc of
             None \<Rightarrow> Inl (Panic NilDereference)
           | Some d \<Rightarrow>
               (case dc_ReadmeContent d of
                  Some r \<Rightarrow> Inr (sf_FileName r, sf_FilePath r)
                | None \<Rightarrow> Inr ([], []))))"

definition page_links ::
    "string \<Rightarrow> string \<Rightarrow> directoryContent option \<Rightarrow> breadCrumbEntry list \<Rightarrow> (git_error, string \<times> string) res" where
  "page_links commitHash commit dirContent segments =
     (if \<not> HasPrefix commitHash commit then
        bind_res (go_slice commitHash 0 16) (\<lambda>h. Inr (''?commit='' @ h, []))
      else if dirContent \<noteq> None then Inr ([], ''.'')
      else bind_res (go_index segments (int (length segments) - 1)) (\<lambda>s. Inr ([], bce_Name s)))"

text \<open>\<^verbatim>\<open>external viewer\<close> only where the pattern does not parse: a missing one has no host name.\<close>

definition external_domain :: "RepoConfig \<Rightarrow> string" where
  "external_domain repo =
     (case url_Hostname (map_string (rc_Metadata repo) ''url_pattern'') of
        None \<Rightarrow> ''external viewer''
      | Some host \<Rightarrow> host)"

definition BuildFileData ::
    "(directoryListEntry list \<Rightarrow> directoryListEntry list) \<Rightarrow> git \<Rightarrow> string \<Rightarrow> RepoConfig \<Rightarrow> string
     \<Rightarrow> (git_error, FileViewerContext) res" where
  "BuildFileData arr git relativePath repo commit =
     bind_res (resolve_commit git commit (rc_Path repo)) (\<lambda>commitHash.
     bind_res (object_content arr git True True relativePath (rc_Path repo) (rc_Name repo) commitHash)
       (\<lambda>(fileContent, dirContent).
         let segments = getPathSegments (split_on CHR ''/'' (clean_path relativePath)) repo in
         bind_res (page_links commitHash commit dirContent segments) (\<lambda>(permalink, headlink).
         bind_res (getFileNameAndPathFromContent fileContent dirContent) (\<lambda>(name, p).
         bind_res (go_slice commitHash 0 8) (\<lambda>short.
           Inr \<lparr>fc_PathSegments = segments, fc_Repo = repo, fc_Commit = commit,
             fc_CommitHash = commitHash, fc_ShortCommitHash = short, fc_DirContent = dirContent,
             fc_FileContent = fileContent, fc_ExternalDomain = external_domain repo,
             fc_Permalink = permalink, fc_Headlink = headlink,
             fc_FilePath = p, fc_FileName = name,
             fc_MigrationUrl = migrationUrl (rc_Name repo) (clean_path relativePath) commit\<rparr>)))))"

section \<open>What git prints\<close>

definition entry_fine :: "gitTreeEntry \<Rightarrow> bool" where
  "entry_fine te \<longleftrightarrow>
     list_all (\<lambda>s. CHR '' '' \<notin> set s \<and> TAB \<notin> set s \<and> NL \<notin> set s)
       [te_Mode te, te_ObjectType te, te_ObjectId te] \<and> NL \<notin> set (te_ObjectName te)"

definition entry_line :: "gitTreeEntry \<Rightarrow> string" where
  "entry_line te = te_Mode te @ CHR '' '' # te_ObjectType te @ CHR '' '' # te_ObjectId te @ TAB # te_ObjectName te"

lemma gitParseTreeEntry_line: "entry_fine te \<Longrightarrow> gitParseTreeEntry (entry_line te) = Inr te"
proof -
  assume te: "entry_fine te"
  let ?front = "te_Mode te @ CHR '' '' # te_ObjectType te @ CHR '' '' # te_ObjectId te"
  have "Cut TAB (?front @ TAB # te_ObjectName te) = Some (?front, te_ObjectName te)"
    using te by (intro Cut_append) (auto simp: entry_fine_def)
  then have "splitn_on 2 TAB (?front @ TAB # te_ObjectName te) = [?front, te_ObjectName te]"
    by (simp only: numeral_2_eq_2 splitn_on.simps(3) option.simps prod.simps splitn_on.simps(2))
  moreover have "split_on CHR '' '' ?front = [te_Mode te, te_ObjectType te, te_ObjectId te]"
    using te by (simp add: entry_fine_def split_on_append split_on_no_sep)
  ultimately show ?thesis
    by (simp add: gitParseTreeEntry_def entry_line_def)
qed

definition tree_printed :: "gitTreeEntry list \<Rightarrow> string" where
  "tree_printed tes = terminated NL (map entry_line tes)"

lemma gitListDir_printed:
  assumes "git [''-C'', repoPath, ''cat-file'', ''-p'', obj] = Inr (tree_printed tes)"
    and "list_all entry_fine tes"
  shows "gitListDir git obj repoPath = Inr tes"
proof -
  have "NL \<notin> set (entry_line te)" if "entry_fine te" for te
    using that by (auto simp: entry_fine_def entry_line_def)
  then have "split_on NL (tree_printed tes) = map entry_line tes @ [[]]"
    unfolding tree_printed_def using assms(2) split_on_terminated[of NL "map entry_line tes" "[]"]
    by (auto simp: list_all_iff)
  moreover have "map_res gitParseTreeEntry (map entry_line tes) = Inr tes"
    using assms(2) by (induction tes) (simp_all add: gitParseTreeEntry_line)
  ultimately show ?thesis by (simp add: gitListDir_def assms(1))
qed

text \<open>
  What the file pages rely on: git resolves a revision to a line with a full hash or fails,
  and lists a tree object in its own format.
\<close>

definition git_sane :: "git \<Rightarrow> string \<Rightarrow> bool" where
  "git_sane git repoPath \<longleftrightarrow>
     (\<forall>ref out. git [''-C'', repoPath, ''rev-parse'', ref] = Inr out \<longrightarrow>
        16 \<le> Index out [NL]) \<and>
     (\<forall>obj out. git [''-C'', repoPath, ''cat-file'', ''-p'', obj] = Inr out \<longrightarrow>
        (\<exists>tes. out = tree_printed tes \<and> list_all entry_fine tes))"

lemma Index_bounds: "Index s sub \<le> int (length s)"
proof -
  have "i \<le> length s" if "index_opt s sub = Some i" for i
    using that by (induction s arbitrary: i) (auto split: if_splits)
  then show ?thesis by (auto simp: Index_def split: option.splits)
qed

lemma resolve_commit_cases:
  assumes "git_sane git repoPath"
  shows "\<exists>h. resolve_commit git commit repoPath = Inr h \<and> (h = commit \<or> 16 \<le> length h)"
proof (cases "git [''-C'', repoPath, ''rev-parse'', commit]")
  case (Inr out)
  then have i: "16 \<le> Index out [NL]" using assms by (simp add: git_sane_def)
  then show ?thesis
    using Index_bounds[of out "[NL]"]
    by (simp add: resolve_commit_def gitCommitHash_def git_res_def Inr le_nat_iff)
qed (simp add: resolve_commit_def gitCommitHash_def git_res_def)

lemma git_res_no_panic [simp]: "git_res r \<noteq> Inl (Panic p)"
  by (simp add: git_res_def split: sum.split)

lemma object_content_no_panic:
  assumes "git_sane git repoPath"
  shows "object_content arr git useViewUrl keepFirst relativePath repoPath repoName commitHash \<noteq> Inl (Panic p)"
proof -
  have "gitListDir git obj repoPath \<noteq> Inl (Panic p)" for obj
  proof (cases "git [''-C'', repoPath, ''cat-file'', ''-p'', obj]")
    case (Inr out)
    then obtain tes where "out = tree_printed tes" "list_all entry_fine tes"
      using assms unfolding git_sane_def by blast
    then show ?thesis using gitListDir_printed[of git repoPath obj tes] Inr by simp
  qed (simp add: gitListDir_def)
  moreover have "gitCatBlob git obj repoPath \<noteq> Inl (Panic p)" for obj
    by (simp add: gitCatBlob_def split: sum.split)
  ultimately show ?thesis
    by (auto simp: object_content_def Let_def res_simps gitObjectType_def)
qed

section \<open>Properties\<close>

lemma BuildFileData_safe:
  assumes "git_sane git (rc_Path repo)" "8 \<le> length commit"
    and "\<forall>obj typ. gitObjectType git obj (rc_Path repo) = Inr typ \<longrightarrow> typ = ''tree'' \<or> typ = ''blob''"
  shows "\<not> is_panic (BuildFileData arr git relativePath repo commit)"
proof -
  obtain h where h: "resolve_commit git commit (rc_Path repo) = Inr h" "h = commit \<or> 16 \<le> length h"
    using resolve_commit_cases[OF assms(1)] by blast
  have segs: "getPathSegments (split_on c p) repo \<noteq> []" for c p
  proof -
    have "0 < length (split_on c p)" by simp
    then show ?thesis by (simp add: getPathSegments_def)
  qed
  have self: "HasPrefix s s" for s :: string using HasPrefix_append[of s "[]"] by simp
  have links: "\<not> is_panic (page_links h commit dc (getPathSegments (split_on c p) repo))" for dc c p
    using h(2) segs[of c p]
    by (auto simp: page_links_def res_simps is_panic_bind self dest: less_imp_le)
  let ?content = "object_content arr git True True relativePath (rc_Path repo) (rc_Name repo) h"
  show ?thesis
  proof (cases ?content)
    case (Inl f)
    then show ?thesis
      using object_content_no_panic[OF assms(1)] by (cases f) (auto simp: BuildFileData_def h)
  next
    case (Inr c)
    obtain fc dc where c: "c = (fc, dc)" by (cases c)
    have "fc \<noteq> None \<or> dc \<noteq> None"
      using Inr c assms(3) unfolding object_content_def Let_def
      by (auto simp: res_simps split: if_splits)
    then have "\<not> is_panic (getFileNameAndPathFromContent fc dc)"
      by (auto simp: getFileNameAndPathFromContent_def split: option.splits)
    moreover have "8 \<le> length h" using h(2) assms(2) by auto
    ultimately show ?thesis
      using links by (auto simp: BuildFileData_def h Inr c is_panic_bind Let_def)
  qed
qed

text \<open>Every page has a breadcrumb.\<close>

lemma BuildFileData_segments:
  "BuildFileData arr git relativePath repo commit = Inr ctx \<Longrightarrow> fc_PathSegments ctx \<noteq> []"
  by (auto simp: BuildFileData_def Let_def res_simps getPathSegments_def)

text \<open>
  With a git that resolves revisions to full hashes and lists trees in its format, a
  file page never panics on a path that names a file or a directory, whatever the path, the
  revision (of at least eight characters where git does not know it) and the content are.
\<close>

theorem BuildFileData_no_panic:
  assumes "git_sane git (rc_Path repo)" "8 \<le> length commit"
    and "\<forall>obj typ. gitObjectType git obj (rc_Path repo) = Inr typ \<longrightarrow> typ = ''tree'' \<or> typ = ''blob''"
  shows "\<not> is_panic (BuildFileData arr git relativePath repo commit)"
  using assms by (rule BuildFileData_safe)

lemma TrimSpace_tree: "TrimSpace (''tree'' @ [NL]) = ''tree''"
  by (rule TrimSpace_newline) (simp_all add: graphic_def)

definition hash20 :: string where "hash20 = ''0123456789abcdef0123''"

text \<open>A small repository: the directory \<open>d\<close> with a README and a subdirectory.\<close>

definition some_entries :: "gitTreeEntry list" where
  "some_entries =
     [\<lparr>te_Mode = ''100644'', te_ObjectType = ''blob'', te_ObjectId = ''a1'', te_ObjectName = ''README.md''\<rparr>,
      \<lparr>te_Mode = ''040000'', te_ObjectType = ''tree'', te_ObjectId = ''a2'', te_ObjectName = ''src''\<rparr>]"

definition some_git :: git where
  "some_git args =
     (if take 1 (drop 2 args) = [''rev-parse''] then Inr (hash20 @ [NL])
      else if drop 2 args = [''cat-file'', ''-t'', hash20 @ '':d''] then Inr (''tree'' @ [NL])
      else if drop 2 args = [''cat-file'', ''-p'', hash20 @ '':d''] then Inr (tree_printed some_entries)
      else if drop 2 args = [''cat-file'', ''blob'', hash20 @ '':d/README.md''] then Inr ''hello''
      else Inl ''bad object'')"

definition some_repo :: RepoConfig where
  "some_repo = \<lparr>rc_Path = ''/r'', rc_Name = ''r'', rc_Revisions = [], rc_Metadata = Map.empty,
     rc_WalkSubmodules = False\<rparr>"

lemma some_entries_fine: "list_all entry_fine some_entries"
  by (simp add: some_entries_def entry_fine_def)

lemma some_git_sane: "git_sane some_git ''/r''"
proof -
  have "Index (hash20 @ [NL]) [NL] = 20" by (simp add: hash20_def Index_def)
  then show ?thesis using some_entries_fine by (auto simp: git_sane_def some_git_def)
qed

lemma some_dir: "clean_path ''d'' = ''d''"
  by (simp add: clean_path_def path_Clean_def Let_def)

lemma some_hash:
  "some_git [''-C'', rc_Path some_repo, ''rev-parse'', ''main''] = Inr (hash20 @ [NL])"
  "NL \<notin> set hash20" "16 \<le> length hash20"
  by (simp_all add: some_git_def hash20_def)

lemma some_tree: "gitObjectType some_git (hash20 @ CHR '':'' # ''d'') (rc_Path some_repo) = Inr ''tree''"
  using TrimSpace_tree by (simp add: gitObjectType_def some_git_def git_res_def)

lemma some_listing:
  "some_git [''-C'', rc_Path some_repo, ''cat-file'', ''-p'', hash20 @ CHR '':'' # ''d''] =
    Inr (tree_printed some_entries)"
  by (simp add: some_git_def)

lemma some_git_types: "gitObjectType some_git obj rp = Inr typ \<Longrightarrow> typ = ''tree''"
  using TrimSpace_tree by (auto simp: gitObjectType_def some_git_def git_res_def split: if_splits)

lemma BuildFileData_no_panic_witness:
  "\<not> is_panic (BuildFileData (\<lambda>xs. xs) some_git ''d'' some_repo ''master-branch'')"
proof (rule BuildFileData_no_panic)
  show "git_sane some_git (rc_Path some_repo)" by (simp add: some_repo_def some_git_sane)
  show "\<forall>obj typ. gitObjectType some_git obj (rc_Path some_repo) = Inr typ \<longrightarrow> typ = ''tree'' \<or> typ = ''blob''"
    using some_git_types by blast
qed simp

text \<open>A directory page is built whenever its listing is.\<close>

lemma BuildFileData_listing:
  assumes "resolve_commit git commit (rc_Path repo) = Inr h" "16 \<le> length h"
    and "object_content arr git True True relativePath (rc_Path repo) (rc_Name repo) h = Inr (None, Some dc)"
  shows "\<exists>ctx. BuildFileData arr git relativePath repo commit = Inr ctx \<and>
    fc_DirContent ctx = Some dc \<and> fc_FileContent ctx = None \<and> fc_CommitHash ctx = h"
proof -
  let ?segs = "getPathSegments (split_on CHR ''/'' (clean_path relativePath)) repo"
  obtain a b where l: "page_links h commit (Some dc) ?segs = Inr (a, b)"
    using assms(2) by (cases "HasPrefix h commit") (auto simp: page_links_def)
  obtain n p where n: "getFileNameAndPathFromContent None (Some dc) = Inr (n, p)"
    by (cases "dc_ReadmeContent dc") (auto simp: getFileNameAndPathFromContent_def)
  have "go_slice h 0 8 = (Inr (take 8 h) :: (git_error, string) res)" using assms(2) by simp
  then show ?thesis by (simp add: BuildFileData_def assms(1,3) Let_def l n)
qed

text \<open>The page of a directory, with what it is built from.\<close>

definition tree_content ::
    "(directoryListEntry list \<Rightarrow> directoryListEntry list) \<Rightarrow> git \<Rightarrow> string \<Rightarrow> RepoConfig \<Rightarrow> string
     \<Rightarrow> gitTreeEntry list \<Rightarrow> directoryContent" where
  "tree_content arr git relativePath repo h tes =
     (let d = clean_path relativePath;
          entries = map (\<lambda>te. buildDirectoryListEntry git te d (rc_Name repo) (rc_Path repo) h True) tes
      in \<lparr>dc_Entries = sort_slice arr dir_listing_less entries,
          dc_ReadmeContent = read_readme git (rc_Path repo) relativePath
            (foldl (readme_step True (h @ CHR '':'' # d)) no_readme (map dle_Name entries))\<rparr>)"

lemma BuildFileData_tree:
  assumes "clean_path relativePath = d"
    and "git [''-C'', rc_Path repo, ''rev-parse'', commit] = Inr (h @ [NL])" "NL \<notin> set h" "16 \<le> length h"
    and "gitObjectType git (h @ CHR '':'' # d) (rc_Path repo) = Inr ''tree''"
    and "git [''-C'', rc_Path repo, ''cat-file'', ''-p'', h @ CHR '':'' # d] = Inr (tree_printed tes)"
    and "list_all entry_fine tes"
  shows "\<exists>ctx. BuildFileData arr git relativePath repo commit = Inr ctx \<and>
    fc_DirContent ctx = Some (tree_content arr git relativePath repo h tes) \<and>
    fc_FileContent ctx = None \<and> fc_CommitHash ctx = h"
proof -
  have "Index (h @ [NL]) [NL] = int (length h)"
    using assms(3) index_opt_byte_append[of NL h "[]"] by (simp add: Index_def)
  then have "resolve_commit git commit (rc_Path repo) = Inr h"
    by (simp add: resolve_commit_def gitCommitHash_def git_res_def assms(2))
  moreover have "object_content arr git True True relativePath (rc_Path repo) (rc_Name repo) h =
      Inr (None, Some (tree_content arr git relativePath repo h tes))"
    by (simp add: object_content_def tree_content_def assms(1,5)
        gitListDir_printed[of git "rc_Path repo" "h @ CHR '':'' # d" tes, OF assms(6,7)] Let_def del: map_map)
  ultimately show ?thesis using assms(4) by (intro BuildFileData_listing) simp_all
qed



text \<open>
  A path that names neither a file nor a directory, such as a submodule, makes the page
  panic.
\<close>

theorem BuildFileData_submodule_panics:
  assumes "resolve_commit git commit (rc_Path repo) = Inr h" "16 \<le> length h"
    and "gitObjectType git (h @ CHR '':'' # clean_path relativePath) (rc_Path repo) = Inr kind"
    and "kind \<noteq> ''tree''" "kind \<noteq> ''blob''"
  shows "is_panic (BuildFileData arr git relativePath repo commit)"
proof -
  have "object_content arr git True True relativePath (rc_Path repo) (rc_Name repo) h = Inr (None, None)"
    using assms(3-5) by (simp add: object_content_def Let_def)
  then show ?thesis
    by (auto simp: BuildFileData_def assms(1) is_panic_bind Let_def getFileNameAndPathFromContent_def
        page_links_def assms(2) go_slice_def go_index_def split: if_splits)
qed

lemma BuildFileData_submodule_panics_witness:
  "is_panic (BuildFileData (\<lambda>xs. xs)
     (\<lambda>args. if take 1 (drop 2 args) = [''rev-parse''] then Inr (hash20 @ [NL]) else Inr ''commit'')
     ''sub'' some_repo ''main'')"
proof (rule BuildFileData_submodule_panics[where h = hash20 and kind = "''commit''"])
  have "Index (hash20 @ [NL]) [NL] = 20" by (simp add: hash20_def Index_def)
  then show "resolve_commit (\<lambda>args. if take 1 (drop 2 args) = [''rev-parse''] then Inr (hash20 @ [NL]) else Inr ''commit'')
      ''main'' (rc_Path some_repo) = Inr hash20"
    by (simp add: resolve_commit_def gitCommitHash_def git_res_def hash20_def)
  have "TrimSpace ''commit'' = ''commit''" by (rule TrimSpace_graphic) (simp_all add: graphic_def)
  then show "gitObjectType (\<lambda>args. if take 1 (drop 2 args) = [''rev-parse''] then Inr (hash20 @ [NL]) else Inr ''commit'')
      (hash20 @ CHR '':'' # clean_path ''sub'') (rc_Path some_repo) = Inr ''commit''"
    by (simp add: gitObjectType_def git_res_def)
qed (simp_all add: hash20_def)

lemma readme_at_first:
  assumes "readme_at s = Some (m, ext)"
  shows "ascii_lower (take 1 m) = ''r''"
proof -
  have "ascii_lower (take 6 s) = ''readme''" "take 6 s = take 6 m"
    using assms by (auto simp: readme_at_def Let_def ascii_lower_def split: if_splits)
  then show ?thesis by (cases m) (auto simp: ascii_lower_def)
qed

lemma supportedReadmeRegex_first:
  "supportedReadmeRegex s = Some (m, ext) \<Longrightarrow> ascii_lower (take 1 m) = ''r''"
  by (induction s) (auto dest: readme_at_first split: option.splits)

definition beside :: "string \<Rightarrow> readme \<Rightarrow> bool" where
  "beside obj rm \<longleftrightarrow> rm_Path rm = [] \<or> (\<exists>x. rm_Path rm = obj @ x \<and> ascii_lower (take 1 x) = ''r'')"

lemma readme_step_beside:
  assumes "beside obj rm"
  shows "beside obj (readme_step keep obj rm name)"
proof -
  have "ascii_lower (take 1 name) = ''r''" if "ascii_lower name = ''readme''"
    using arg_cong[OF that, of "take 1"] by (simp add: ascii_lower_def take_map)
  then show ?thesis
    using assms supportedReadmeRegex_first[of name]
    by (auto simp: readme_step_def beside_def simp del: supportedReadmeRegex.simps split: option.split)
qed

lemma readme_fold_beside: "beside obj rm \<Longrightarrow> beside obj (foldl (readme_step keep obj) rm names)"
  by (induction names arbitrary: rm) (simp_all add: readme_step_beside)

lemma read_readme_missing:
  assumes "beside obj rm" "\<And>x. ascii_lower (take 1 x) = ''r'' \<Longrightarrow> \<exists>err. git [''-C'', rp, ''cat-file'', ''blob'', obj @ x] = Inl err"
  shows "read_readme git rp relativePath rm = None"
proof (cases "rm_Path rm = []")
  case False
  then obtain x where x: "rm_Path rm = obj @ x" "ascii_lower (take 1 x) = ''r''"
    using assms(1) by (auto simp: beside_def)
  then obtain err where "git [''-C'', rp, ''cat-file'', ''blob'', obj @ x] = Inl err" using assms(2) by blast
  then show ?thesis using x by (simp add: read_readme_def gitCatBlob_def)
qed (simp add: read_readme_def)

text \<open>
  The README of a directory below the root is not shown: it is asked for at the path of
  the directory with the name appended without a slash, where there is no object.
\<close>

theorem BuildFileData_readme_lost:
  assumes "clean_path relativePath = d"
    and "git [''-C'', rc_Path repo, ''rev-parse'', commit] = Inr (h @ [NL])" "NL \<notin> set h" "16 \<le> length h"
    and "gitObjectType git (h @ CHR '':'' # d) (rc_Path repo) = Inr ''tree''"
    and "git [''-C'', rc_Path repo, ''cat-file'', ''-p'', h @ CHR '':'' # d] = Inr (tree_printed tes)"
    and "list_all entry_fine tes"
    and "\<And>x. ascii_lower (take 1 x) = ''r'' \<Longrightarrow>
      \<exists>err. git [''-C'', rc_Path repo, ''cat-file'', ''blob'', h @ CHR '':'' # d @ x] = Inl err"
  shows "\<exists>ctx dc. BuildFileData arr git relativePath repo commit = Inr ctx \<and>
    fc_DirContent ctx = Some dc \<and> dc_ReadmeContent dc = None"
proof -
  have "beside (h @ CHR '':'' # d) (foldl (readme_step True (h @ CHR '':'' # d)) no_readme names)" for names
    by (rule readme_fold_beside) (simp add: beside_def no_readme_def)
  then have "read_readme git (rc_Path repo) relativePath
      (foldl (readme_step True (h @ CHR '':'' # d)) no_readme names) = None" for names
    by (rule read_readme_missing) (use assms(8) in simp)
  then have "dc_ReadmeContent (tree_content arr git relativePath repo h tes) = None"
    by (simp add: tree_content_def assms(1) Let_def)
  then show ?thesis using BuildFileData_tree[OF assms(1-7), of arr] by auto
qed

lemma BuildFileData_readme_lost_witness:
  "te_ObjectName (some_entries ! 0) = ''README.md'' \<and>
   gitCatBlob some_git (hash20 @ '':d/README.md'') (rc_Path some_repo) = Inr ''hello'' \<and>
   (\<exists>ctx dc. BuildFileData rev some_git ''d'' some_repo ''main'' = Inr ctx \<and>
     fc_DirContent ctx = Some dc \<and> dc_ReadmeContent dc = None)"
proof -
  have "\<exists>err. some_git [''-C'', rc_Path some_repo, ''cat-file'', ''blob'', hash20 @ CHR '':'' # ''d'' @ x] = Inl err"
    if "ascii_lower (take 1 x) = ''r''" for x
    using that by (cases x) (auto simp: some_git_def ascii_lower_def)
  then have "\<exists>ctx dc. BuildFileData rev some_git ''d'' some_repo ''main'' = Inr ctx \<and>
      fc_DirContent ctx = Some dc \<and> dc_ReadmeContent dc = None"
    using BuildFileData_readme_lost[OF some_dir some_hash some_tree some_listing some_entries_fine, of rev] by blast
  moreover have "gitCatBlob some_git (hash20 @ '':d/README.md'') (rc_Path some_repo) = Inr ''hello''"
    by (simp add: gitCatBlob_def some_git_def)
  ultimately show ?thesis by (simp add: some_entries_def)
qed

end
