(* ===== verification/GitBlame.thy ===== *)
theory GitBlame
  imports GoRegexp GitFiles
begin

text \<open>
  The blame parser of \<^verbatim>\<open>server/fileviewer/fileview.go\<close>. Its inner loop reads lines until it
  has seen as many code lines as the chunk's header announces and does not look whether the
  scanner is at its end, so it may run forever: both loops are partial functions, and not
  returning is the value \<open>None\<close>. A chunk is shared by pointer between the two maps; since a
  commit's chunk is never replaced, the commit hash stands for the pointer.
\<close>

section \<open>Data\<close>

record LineRange =
  lr_StartLine :: int
  lr_EndLine :: int

record BlameChunk =
  bc_CommitHash :: string
  bc_ShortHash :: string
  bc_CommitLink :: string
  bc_PrevCommitHash :: string
  bc_AuthorName :: string
  bc_AuthorEmail :: string
  bc_AuthorTime :: int
  bc_CommitterName :: string
  bc_CommitterEmail :: string
  bc_CommitterTime :: int
  bc_CommitSummary :: string
  bc_Filename :: string
  bc_PreviousFilename :: string
  bc_PreviousCommitHash :: string
  bc_LineRanges :: "LineRange list"
  bc_alreadyFilled :: bool

record BlameResult =
  br_Path :: string
  br_Commit :: string
  br_LinesToBlameChunk :: "int \<rightharpoonup> string"
  br_BlameChunks :: "BlameChunk list"
  br_LineNumsToBlameIdx :: "int \<rightharpoonup> int"

datatype blame_error =
    UnexpectedLine string
  | BadCount num_error
  | BlameFailed string

text \<open>The two maps; the first keeps its chunks in the order they were created.\<close>

record blame_state =
  bst_chunks :: "(string \<times> BlameChunk) list"
  bst_lines :: "int \<rightharpoonup> string"

section \<open>Lines\<close>

text \<open>\<^verbatim>\<open>\A([0-9a-f]{40})\s(\d+)\s(\d+)\s(\d+)\z\<close> and \<^verbatim>\<open>\A[0-9a-f]{40}\s\d+\s(\d+)\z\<close>\<close>

definition BlameChunkHeader :: "string \<Rightarrow> (string \<times> string \<times> string \<times> string) option" where
  "BlameChunkHeader s0 =
     Option.bind (match_hex 40 s0) (\<lambda>(hash, s1). Option.bind (after_ws s1) (\<lambda>s2.
     Option.bind (match_digits s2) (\<lambda>(d2, s3). Option.bind (after_ws s3) (\<lambda>s4.
     Option.bind (match_digits s4) (\<lambda>(d3, s5). Option.bind (after_ws s5) (\<lambda>s6.
     Option.bind (match_digits s6) (\<lambda>(d4, s7).
       if s7 = [] then Some (hash, d2, d3, d4) else None)))))))"

definition LineInChunkHeader :: "string \<Rightarrow> string option" where
  "LineInChunkHeader s0 =
     Option.bind (match_hex 40 s0) (\<lambda>(hash, s1). Option.bind (after_ws s1) (\<lambda>s2.
     Option.bind (match_digits s2) (\<lambda>(d1, s3). Option.bind (after_ws s3) (\<lambda>s4.
     Option.bind (match_digits s4) (\<lambda>(d2, s5). if s5 = [] then Some d2 else None)))))"

definition deleteKey :: "string \<Rightarrow> string \<Rightarrow> string" where
  "deleteKey line key = ReplaceFirst line key []"

text \<open>
  The header lines of a commit. \<open>None\<close> is the return in the middle of the chunk that a
  malformed time leads to.
\<close>

definition apply_info :: "BlameChunk \<Rightarrow> string \<Rightarrow> (blame_error, BlameChunk option) res" where
  "apply_info chunk line =
     (if HasPrefix line ''author '' then
        Inr (Some (chunk\<lparr>bc_AuthorName := deleteKey line ''author ''\<rparr>))
      else if HasPrefix line ''author-mail '' then
        Inr (Some (chunk\<lparr>bc_AuthorEmail := deleteKey line ''author-mail ''\<rparr>))
      else if HasPrefix line ''author-time '' then
        (case ParseInt 10 64 (deleteKey line ''author-time '') of
           (timestamp, None) \<Rightarrow> Inr (Some (chunk\<lparr>bc_AuthorTime := timestamp\<rparr>))
         | (timestamp, Some e) \<Rightarrow> Inr None)
      else if HasPrefix line ''committer '' then
        Inr (Some (chunk\<lparr>bc_CommitterName := deleteKey line ''committer ''\<rparr>))
      else if HasPrefix line ''committer-mail '' then
        Inr (Some (chunk\<lparr>bc_CommitterEmail := deleteKey line ''committer-mail ''\<rparr>))
      else if HasPrefix line ''committer-time '' then
        (case ParseInt 10 64 (deleteKey line ''committer-time '') of
           (timestamp, None) \<Rightarrow> Inr (Some (chunk\<lparr>bc_CommitterTime := timestamp\<rparr>))
         | (timestamp, Some e) \<Rightarrow> Inr None)
      else if HasPrefix line ''summary '' then
        Inr (Some (chunk\<lparr>bc_CommitSummary := deleteKey line ''summary ''\<rparr>))
      else if HasPrefix line ''filename '' then
        Inr (Some (chunk\<lparr>bc_Filename := deleteKey line ''filename ''\<rparr>))
      else if HasPrefix line ''previous '' then
        bind_res (go_slice line 0 40) (\<lambda>hash.
        bind_res (go_slice line 41 (int (length line))) (\<lambda>name.
          Inr (Some (chunk\<lparr>bc_PreviousCommitHash := hash, bc_PreviousFilename := name\<rparr>))))
      else Inr (Some chunk))"

text \<open>The first half of the loop's body: line numbers and code lines.\<close>

definition line_step ::
    "BlameChunk \<Rightarrow> (int \<rightharpoonup> string) \<Rightarrow> int \<Rightarrow> int \<Rightarrow> string
     \<Rightarrow> BlameChunk \<times> (int \<rightharpoonup> string) \<times> int \<times> int" where
  "line_step chunk lnos currLineNumber linesInChunk line =
     (case LineInChunkHeader line of
        Some d \<Rightarrow> (chunk, lnos, fst (Atoi d), linesInChunk)
      | None \<Rightarrow>
          if HasPrefix line [TAB]
          then (chunk\<lparr>bc_alreadyFilled := True\<rparr>, lnos(currLineNumber \<mapsto> bc_CommitHash chunk),
                currLineNumber, linesInChunk - 1)
          else (chunk, lnos, currLineNumber, linesInChunk))"

partial_function (option) chunk_loop ::
    "BlameChunk \<Rightarrow> (int \<rightharpoonup> string) \<Rightarrow> int \<Rightarrow> int \<Rightarrow> string list
     \<Rightarrow> (blame_error, BlameChunk \<times> (int \<rightharpoonup> string) \<times> string list) res option" where
  "chunk_loop chunk0 lnos0 curr0 n0 input =
     (if n0 = 0 then Some (Inr (chunk0, lnos0, input))
      else
        let (ok, line, rest) = scan input;
            (chunk, lnos, curr, n) = line_step chunk0 lnos0 curr0 n0 line
        in if bc_alreadyFilled chunk then chunk_loop chunk lnos curr n rest
           else case apply_info chunk line of
               Inl e \<Rightarrow> Some (Inl e)
             | Inr None \<Rightarrow> Some (Inr (chunk, lnos, rest))
             | Inr (Some chunk') \<Rightarrow> chunk_loop chunk' lnos curr n rest)"

section \<open>Chunks\<close>

definition new_chunk :: "string \<Rightarrow> string \<Rightarrow> BlameChunk" where
  "new_chunk repoPath commitHash =
     \<lparr>bc_CommitHash = commitHash, bc_ShortHash = take 8 commitHash,
      bc_CommitLink = ''/delve/'' @ repoPath @ ''/commit/'' @ commitHash, bc_PrevCommitHash = [],
      bc_AuthorName = [], bc_AuthorEmail = [], bc_AuthorTime = 0, bc_CommitterName = [],
      bc_CommitterEmail = [], bc_CommitterTime = 0, bc_CommitSummary = [], bc_Filename = [],
      bc_PreviousFilename = [], bc_PreviousCommitHash = [], bc_LineRanges = [],
      bc_alreadyFilled = False\<rparr>"

fun put_chunk :: "(string \<times> BlameChunk) list \<Rightarrow> string \<Rightarrow> BlameChunk \<Rightarrow> (string \<times> BlameChunk) list" where
  "put_chunk [] h c = [(h, c)]"
| "put_chunk ((h', c') # cs) h c = (if h' = h then (h, c) # cs else (h', c') # put_chunk cs h c)"

text \<open>Go's 64-bit \<^verbatim>\<open>int\<close> arithmetic.\<close>

definition int64 :: "int \<Rightarrow> int" where
  "int64 i = sint (word_of_int i :: 64 word)"

definition add_range :: "BlameChunk \<Rightarrow> int \<Rightarrow> int \<Rightarrow> BlameChunk" where
  "add_range chunk currLineNumber linesInChunk =
     (let endLine = int64 (currLineNumber + (linesInChunk - 1)); ranges = bc_LineRanges chunk in
      if ranges \<noteq> [] \<and> int64 (endLine - 1) = lr_EndLine (last ranges)
      then chunk\<lparr>bc_LineRanges := butlast ranges @ [(last ranges)\<lparr>lr_EndLine := endLine\<rparr>]\<rparr>
      else chunk\<lparr>bc_LineRanges :=
             ranges @ [\<lparr>lr_StartLine = currLineNumber, lr_EndLine = endLine\<rparr>]\<rparr>)"

text \<open>
  \<^verbatim>\<open>processNextChunk\<close>: the flag is \<^verbatim>\<open>moreChunkLeft\<close>, beside it the error; the state and
  the scanner are what the call leaves behind.
\<close>

definition processNextChunk ::
    "string \<Rightarrow> blame_state \<Rightarrow> string list
     \<Rightarrow> (blame_error, bool \<times> blame_error option \<times> blame_state \<times> string list) res option" where
  "processNextChunk repoPath st input =
     (let (moreLeft, headerLine, rest) = scan input in
      if \<not> moreLeft then Some (Inr (False, None, st, rest))
      else case BlameChunkHeader headerLine of
        None \<Rightarrow> Some (Inr (False, Some (UnexpectedLine headerLine), st, rest))
      | Some (commitHash, _, m3, m4) \<Rightarrow>
          let currLineNumber = fst (Atoi m3); (linesInChunk, err) = Atoi m4 in
          (case err of
             Some e \<Rightarrow> Some (Inr (False, Some (BadCount e), st, rest))
           | None \<Rightarrow>
               let chunk = (case map_of (bst_chunks st) commitHash of
                       Some c \<Rightarrow> c | None \<Rightarrow> new_chunk repoPath commitHash);
                   chunk = add_range chunk currLineNumber linesInChunk
               in map_option
                    (\<lambda>r. bind_res r (\<lambda>(chunk', lnos, rest').
                       Inr (True, None,
                            \<lparr>bst_chunks = put_chunk (bst_chunks st) commitHash chunk',
                             bst_lines = lnos\<rparr>, rest')))
                    (chunk_loop chunk (bst_lines st) currLineNumber linesInChunk rest)))"

text \<open>The loop of \<^verbatim>\<open>GitBlameBlob\<close>: it looks at the flag first and at the error after it.\<close>

partial_function (option) blame_loop ::
    "string \<Rightarrow> blame_state \<Rightarrow> string list \<Rightarrow> (blame_error, blame_state) res option" where
  "blame_loop repoPath st input =
     Option.bind (processNextChunk repoPath st input) (\<lambda>r.
       case r of
         Inl e \<Rightarrow> Some (Inl e)
       | Inr (hasMore, err, st', rest) \<Rightarrow>
           if \<not> hasMore then Some (Inr st')
           else case err of
               Some e \<Rightarrow> Some (Inl (Error e))
             | None \<Rightarrow> blame_loop repoPath st' rest)"

text \<open>
  \<^verbatim>\<open>GitBlameBlob\<close>. The command is a parameter that gives the lines its scanner will
  produce; \<open>order\<close> is the order in which the map of chunks is walked.
\<close>

definition blame_args :: "string \<Rightarrow> string \<Rightarrow> string \<Rightarrow> string list" where
  "blame_args repoPath cleanPath commit =
     [''-C'', repoPath, ''blame'', cleanPath, commit, ''--porcelain'']"

definition GitBlameBlob ::
    "(string list \<Rightarrow> string + string list) \<Rightarrow> (BlameChunk list \<Rightarrow> BlameChunk list) \<Rightarrow> string
     \<Rightarrow> RepoConfig \<Rightarrow> string \<Rightarrow> (blame_error, BlameResult) res option" where
  "GitBlameBlob git order relativePath repo commit =
     (let cleanPath = path_Clean relativePath in
      case git (blame_args (rc_Path repo) cleanPath commit) of
        Inl err \<Rightarrow> Some (Inl (Error (BlameFailed err)))
      | Inr lines \<Rightarrow>
          map_option
            (\<lambda>r. bind_res r (\<lambda>st.
               Inr \<lparr>br_Path = [], br_Commit = [], br_LinesToBlameChunk = bst_lines st,
                    br_BlameChunks = order (map snd (bst_chunks st)),
                    br_LineNumsToBlameIdx = Map.empty\<rparr>))
            (blame_loop (rc_Name repo) \<lparr>bst_chunks = [], bst_lines = Map.empty\<rparr> lines))"

section \<open>Porcelain output\<close>

text \<open>
  What \<^verbatim>\<open>git blame --porcelain\<close> prints: groups of lines of one commit. The header of the
  first line of a group has the size of the group, and the commit's data follow it the
  first time the commit appears.
\<close>

record commit_info =
  ci_author :: string
  ci_author_mail :: string
  ci_author_time :: int
  ci_author_tz :: string
  ci_committer :: string
  ci_committer_mail :: string
  ci_committer_time :: int
  ci_committer_tz :: string
  ci_summary :: string
  ci_previous :: "(string \<times> string) option"
  ci_boundary :: bool
  ci_filename :: string

definition info_lines :: "commit_info \<Rightarrow> string list" where
  "info_lines i =
     [''author '' @ ci_author i, ''author-mail '' @ ci_author_mail i,
      ''author-time '' @ string_of_int (ci_author_time i), ''author-tz '' @ ci_author_tz i,
      ''committer '' @ ci_committer i, ''committer-mail '' @ ci_committer_mail i,
      ''committer-time '' @ string_of_int (ci_committer_time i),
      ''committer-tz '' @ ci_committer_tz i, ''summary '' @ ci_summary i]
     @ (case ci_previous i of None \<Rightarrow> [] | Some (h, f) \<Rightarrow> [''previous '' @ h @ '' '' @ f])
     @ (if ci_boundary i then [''boundary''] else [])
     @ [''filename '' @ ci_filename i]"

type_synonym blamed_line = "nat \<times> nat \<times> string"
type_synonym blame_group = "string \<times> commit_info option \<times> blamed_line list"

definition line_header :: "string \<Rightarrow> nat \<Rightarrow> nat \<Rightarrow> string" where
  "line_header h orig final = h @ '' '' @ string_of_nat orig @ '' '' @ string_of_nat final"

definition line_printed :: "string \<Rightarrow> blamed_line \<Rightarrow> string list" where
  "line_printed h = (\<lambda>(orig, final, code). [line_header h orig final, TAB # code])"

fun group_printed :: "blame_group \<Rightarrow> string list" where
  "group_printed (h, i, []) = []"
| "group_printed (h, i, (orig, final, code) # ls) =
     (line_header h orig final @ '' '' @ string_of_nat (Suc (length ls)))
     # (case i of None \<Rightarrow> [] | Some d \<Rightarrow> info_lines d)
     @ (TAB # code) # concat (map (line_printed h) ls)"

definition hash_fine :: "string \<Rightarrow> bool" where
  "hash_fine h \<longleftrightarrow> length h = 40 \<and> list_all is_hex h"

definition info_fine :: "commit_info \<Rightarrow> bool" where
  "info_fine i \<longleftrightarrow> - (2 ^ 63) \<le> ci_author_time i \<and> ci_author_time i < 2 ^ 63 \<and>
     - (2 ^ 63) \<le> ci_committer_time i \<and> ci_committer_time i < 2 ^ 63 \<and>
     (case ci_previous i of None \<Rightarrow> True | Some (h, f) \<Rightarrow> hash_fine h)"

definition lines_fine :: "blamed_line list \<Rightarrow> bool" where
  "lines_fine ls \<longleftrightarrow> length ls < 2 ^ 63 \<and> list_all (\<lambda>(orig, final, code). final < 2 ^ 63) ls"

text \<open>The commits seen so far decide whether a group carries the commit's data.\<close>

fun groups_fine :: "string set \<Rightarrow> blame_group list \<Rightarrow> bool" where
  "groups_fine seen [] \<longleftrightarrow> True"
| "groups_fine seen ((h, i, ls) # gs) \<longleftrightarrow>
     hash_fine h \<and> ls \<noteq> [] \<and> lines_fine ls \<and> (i = None \<longleftrightarrow> h \<in> seen) \<and>
     (case i of None \<Rightarrow> True | Some d \<Rightarrow> info_fine d) \<and> groups_fine (insert h seen) gs"

section \<open>Matching\<close>

lemma is_hex_not_ws: "is_hex c \<Longrightarrow> \<not> is_ws c"
  by (auto simp: is_hex_def is_ws_def is_digit_def)

lemma LineInChunkHeader_nonhex:
  assumes "i < length s" "i < 40" "\<not> is_hex (s ! i)"
  shows "LineInChunkHeader s = None"
proof -
  have "\<not> list_all is_hex (take 40 s)"
    using assms by (auto simp: list_all_length intro!: exI[of _ i])
  then show ?thesis by (simp add: LineInChunkHeader_def match_hex_def)
qed

lemma LineInChunkHeader_line:
  "hash_fine h \<Longrightarrow> LineInChunkHeader (line_header h orig final) = Some (string_of_nat final)"
  using match_digits_nat[of "[]" final]
  by (simp add: LineInChunkHeader_def line_header_def hash_fine_def match_hex_append
      match_digits_nat)

lemma LineInChunkHeader_code: "LineInChunkHeader (TAB # code) = None"
  by (rule LineInChunkHeader_nonhex[of 0]) (simp_all add: is_hex_def)

lemma BlameChunkHeader_line:
  "hash_fine h \<Longrightarrow> BlameChunkHeader (line_header h orig final @ '' '' @ string_of_nat n) =
     Some (h, string_of_nat orig, string_of_nat final, string_of_nat n)"
  using match_digits_nat[of "[]" n]
  by (simp add: BlameChunkHeader_def line_header_def hash_fine_def match_hex_append
      match_digits_nat)

lemma deleteKey_append: "deleteKey (key @ s) key = s"
  by (simp add: deleteKey_def ReplaceFirst_prefix)

text \<open>A line of the commit's data, which is neither a header nor code.\<close>

definition info_key :: "string \<Rightarrow> bool" where
  "info_key s \<longleftrightarrow> LineInChunkHeader s = None \<and> \<not> HasPrefix s [TAB]"

lemma info_keys [simp]:
  "info_key (''author '' @ s)" "info_key (''author-mail '' @ s)" "info_key (''author-time '' @ s)"
  "info_key (''author-tz '' @ s)" "info_key (''committer '' @ s)" "info_key (''committer-mail '' @ s)"
  "info_key (''committer-time '' @ s)" "info_key (''committer-tz '' @ s)"
  "info_key (''summary '' @ s)" "info_key (''previous '' @ s)" "info_key ''boundary''"
  "info_key (''filename '' @ s)"
  using LineInChunkHeader_nonhex[of 1] LineInChunkHeader_nonhex[of 2]
  by (simp_all add: info_key_def is_hex_def is_digit_def)

lemma chunk_loop_info:
  assumes "info_key line" "\<not> bc_alreadyFilled c" "n \<noteq> 0" "apply_info c line = Inr (Some c')"
  shows "chunk_loop c m k n (line # rest) = chunk_loop c' m k n rest"
  using assms by (subst chunk_loop.simps) (simp add: line_step_def info_key_def)

lemma chunk_loop_code:
  assumes "n \<noteq> 0"
  shows "chunk_loop c m k n ((TAB # code) # rest) =
    chunk_loop (c\<lparr>bc_alreadyFilled := True\<rparr>) (m(k \<mapsto> bc_CommitHash c)) k (n - 1) rest"
  using assms by (subst chunk_loop.simps) (simp add: line_step_def LineInChunkHeader_code)

lemma chunk_loop_header:
  assumes "n \<noteq> 0" "bc_alreadyFilled c" "hash_fine h" "final < 2 ^ 63"
  shows "chunk_loop c m k n (line_header h orig final # rest) = chunk_loop c m (int final) n rest"
  using assms by (subst chunk_loop.simps)
    (simp add: line_step_def LineInChunkHeader_line Atoi_string_of_nat)

lemma chunk_loop_done [simp]: "chunk_loop c m k 0 rest = Some (Inr (c, m, rest))"
  by (subst chunk_loop.simps) simp

section \<open>One group\<close>

fun apply_infos :: "BlameChunk \<Rightarrow> string list \<Rightarrow> BlameChunk option" where
  "apply_infos c [] = Some c"
| "apply_infos c (l # ls) =
     (case apply_info c l of Inr (Some c') \<Rightarrow> apply_infos c' ls | _ \<Rightarrow> None)"

lemma apply_info_keeps:
  "apply_info c l = Inr (Some c') \<Longrightarrow>
     bc_alreadyFilled c' = bc_alreadyFilled c \<and> bc_CommitHash c' = bc_CommitHash c"
  by (auto simp: apply_info_def res_simps split: if_splits prod.splits option.splits)

lemma chunk_loop_infos:
  assumes "list_all info_key ls" "\<not> bc_alreadyFilled c" "n \<noteq> 0" "apply_infos c ls = Some c'"
  shows "chunk_loop c m k n (ls @ rest) = chunk_loop c' m k n rest \<and> \<not> bc_alreadyFilled c'"
  using assms
proof (induction ls arbitrary: c)
  case (Cons l ls)
  then obtain d where d: "apply_info c l = Inr (Some d)" "apply_infos d ls = Some c'"
    by (auto split: sum.splits option.splits)
  with Cons.prems have "chunk_loop c m k n ((l # ls) @ rest) = chunk_loop d m k n (ls @ rest)"
    by (simp add: chunk_loop_info)
  moreover have "\<not> bc_alreadyFilled d" using d(1) Cons.prems(2) by (simp add: apply_info_keeps)
  ultimately show ?case using Cons.IH[of d] Cons.prems d(2) by simp
qed simp

text \<open>What the commit's data put into the chunk.\<close>

definition info_applied :: "BlameChunk \<Rightarrow> commit_info \<Rightarrow> BlameChunk" where
  "info_applied c i =
     (let c = c\<lparr>bc_AuthorName := ci_author i, bc_AuthorEmail := ci_author_mail i,
          bc_AuthorTime := ci_author_time i, bc_CommitterName := ci_committer i,
          bc_CommitterEmail := ci_committer_mail i, bc_CommitterTime := ci_committer_time i,
          bc_CommitSummary := ci_summary i, bc_Filename := ci_filename i\<rparr>
      in case ci_previous i of
           None \<Rightarrow> c
         | Some (h, f) \<Rightarrow> c\<lparr>bc_PreviousCommitHash := ''previous '' @ take 31 h,
             bc_PreviousFilename := drop 32 h @ '' '' @ f\<rparr>)"

lemma apply_info_previous:
  assumes "hash_fine h"
  shows "apply_info c (''previous '' @ h @ '' '' @ f) =
    Inr (Some (c\<lparr>bc_PreviousCommitHash := ''previous '' @ take 31 h,
      bc_PreviousFilename := drop 32 h @ '' '' @ f\<rparr>))"
proof -
  have h: "length h = 40" using assms by (simp add: hash_fine_def)
  then have "take 40 (''previous '' @ h @ '' '' @ f) = ''previous '' @ take 31 h"
    "drop 41 (''previous '' @ h @ '' '' @ f) = drop 32 h @ '' '' @ f" by simp_all
  with h show ?thesis by (simp add: apply_info_def)
qed

lemma apply_infos_lines:
  assumes "info_fine i"
  shows "apply_infos c (info_lines i) = Some (info_applied c i)"
proof -
  have times: "ParseInt 10 64 (string_of_int (ci_author_time i)) = (ci_author_time i, None)"
    "ParseInt 10 64 (string_of_int (ci_committer_time i)) = (ci_committer_time i, None)"
    using assms by (simp_all add: info_fine_def ParseInt_string_of_int)
  show ?thesis
  proof (cases "ci_previous i")
    case None
    with times show ?thesis
      by (simp add: info_lines_def apply_info_def deleteKey_def ReplaceFirst_def info_applied_def)
  next
    case (Some hf)
    obtain h f where hf: "hf = (h, f)" by (cases hf)
    have "hash_fine h" using assms Some hf by (simp add: info_fine_def)
    from apply_info_previous[OF this, simplified] times Some hf show ?thesis
      by (simp add: info_lines_def apply_info_def deleteKey_def ReplaceFirst_def info_applied_def)
  qed
qed

lemma info_lines_keys: "list_all info_key (info_lines i)"
  using info_keys by (simp add: info_lines_def split: option.splits)

lemma filled_same: "bc_alreadyFilled c \<Longrightarrow> c\<lparr>bc_alreadyFilled := True\<rparr> = c"
  by simp

lemma chunk_loop_lines:
  assumes "bc_alreadyFilled c" "hash_fine h" "bc_CommitHash c = h"
    "list_all (\<lambda>(orig, final, code). final < 2 ^ 63) ls"
  shows "chunk_loop c m k (int (length ls)) (concat (map (line_printed h) ls) @ rest) =
    Some (Inr (c, m ++ map_of (rev (map (\<lambda>(orig, final, code). (int final, h)) ls)), rest))"
  using assms(4)
proof (induction ls arbitrary: m k)
  case (Cons l ls)
  obtain orig final code where l: "l = (orig, final, code)" by (cases l)
  have "final < 2 ^ 63" using Cons.prems l by simp
  then have "chunk_loop c m k (int (length (l # ls))) (concat (map (line_printed h) (l # ls)) @ rest)
      = chunk_loop c (m(int final \<mapsto> h)) (int final) (int (length ls))
          (concat (map (line_printed h) ls) @ rest)"
    using assms(1,2,3)
    by (simp add: l line_printed_def chunk_loop_header chunk_loop_code filled_same)
  also have "\<dots> = Some (Inr (c, m(int final \<mapsto> h) ++
      map_of (rev (map (\<lambda>(orig, final, code). (int final, h)) ls)), rest))"
    using Cons by simp
  finally show ?case by (simp add: l map_add_upd_left)
qed simp

lemma add_range_keeps [simp]:
  "bc_alreadyFilled (add_range c k n) = bc_alreadyFilled c"
  "bc_CommitHash (add_range c k n) = bc_CommitHash c"
  by (simp_all add: add_range_def Let_def)

definition owned_lines :: "string \<Rightarrow> blamed_line list \<Rightarrow> (int \<times> string) list" where
  "owned_lines h ls = map (\<lambda>(orig, final, code). (int final, h)) ls"

text \<open>A chunk with what was said about its commit; line ranges are not part of it.\<close>

definition chunk_shows :: "BlameChunk \<Rightarrow> string \<Rightarrow> commit_info \<Rightarrow> bool" where
  "chunk_shows c h i \<longleftrightarrow> bc_alreadyFilled c \<and> bc_CommitHash c = h \<and> bc_ShortHash c = take 8 h \<and>
     bc_AuthorName c = ci_author i \<and> bc_AuthorEmail c = ci_author_mail i \<and>
     bc_AuthorTime c = ci_author_time i \<and> bc_CommitterName c = ci_committer i \<and>
     bc_CommitterEmail c = ci_committer_mail i \<and> bc_CommitterTime c = ci_committer_time i \<and>
     bc_CommitSummary c = ci_summary i \<and> bc_Filename c = ci_filename i \<and>
     (case ci_previous i of None \<Rightarrow> bc_PreviousCommitHash c = []
      | Some (ph, pf) \<Rightarrow> bc_PreviousCommitHash c = ''previous '' @ take 31 ph \<and>
          bc_PreviousFilename c = drop 32 ph @ '' '' @ pf)"

lemma chunk_shows_add_range: "chunk_shows (add_range c k n) h i = chunk_shows c h i"
  by (simp add: chunk_shows_def add_range_def Let_def split: option.splits)

lemma chunk_shows_new:
  "chunk_shows ((info_applied (add_range (new_chunk r h) k n) i)\<lparr>bc_alreadyFilled := True\<rparr>) h i"
  by (simp add: chunk_shows_def info_applied_def add_range_def new_chunk_def Let_def
      split: option.splits prod.splits)

lemma loop_group_new:
  assumes "hash_fine h" "info_fine i" "lines_fine ((orig, final, code) # ls)"
  shows "\<exists>c. chunk_loop (add_range (new_chunk r h) (int final) n) m (int final) (int (Suc (length ls)))
      (info_lines i @ (TAB # code) # concat (map (line_printed h) ls) @ rest) =
      Some (Inr (c, m ++ map_of (rev (owned_lines h ((orig, final, code) # ls))), rest))
    \<and> chunk_shows c h i"
proof -
  let ?start = "add_range (new_chunk r h) (int final) n"
  let ?full = "(info_applied ?start i)\<lparr>bc_alreadyFilled := True\<rparr>"
  have unfilled: "\<not> bc_alreadyFilled ?start"
    unfolding add_range_keeps by (simp add: new_chunk_def)
  from chunk_loop_infos[OF info_lines_keys unfilled _ apply_infos_lines[OF assms(2)],
      of "int (Suc (length ls))" m "int final"]
  have "chunk_loop ?start m (int final) (int (Suc (length ls)))
      (info_lines i @ (TAB # code) # concat (map (line_printed h) ls) @ rest) =
    chunk_loop (info_applied ?start i) m (int final) (int (Suc (length ls)))
      ((TAB # code) # concat (map (line_printed h) ls) @ rest)"
    by simp
  also have "\<dots> = chunk_loop ?full (m(int final \<mapsto> h)) (int final) (int (length ls))
      (concat (map (line_printed h) ls) @ rest)"
    by (simp add: chunk_loop_code info_applied_def new_chunk_def Let_def split: option.splits prod.splits)
  also have "\<dots> = Some (Inr (?full, m(int final \<mapsto> h) ++ map_of (rev (owned_lines h ls)), rest))"
    unfolding owned_lines_def using assms
    by (intro chunk_loop_lines)
      (auto simp: info_applied_def new_chunk_def lines_fine_def Let_def split: option.splits)
  finally show ?thesis
    using chunk_shows_new[of r h "int final" n i]
    by (intro exI[of _ ?full]) (simp add: owned_lines_def map_add_upd_left)
qed

lemma loop_group_old:
  assumes "hash_fine h" "lines_fine ((orig, final, code) # ls)" "chunk_shows c h i"
  shows "chunk_loop c m (int final) (int (Suc (length ls)))
      ((TAB # code) # concat (map (line_printed h) ls) @ rest) =
    Some (Inr (c, m ++ map_of (rev (owned_lines h ((orig, final, code) # ls))), rest))"
proof -
  have c: "bc_alreadyFilled c" "bc_CommitHash c = h" using assms(3) by (simp_all add: chunk_shows_def)
  have "chunk_loop c m (int final) (int (Suc (length ls)))
      ((TAB # code) # concat (map (line_printed h) ls) @ rest) =
    chunk_loop c (m(int final \<mapsto> h)) (int final) (int (length ls))
      (concat (map (line_printed h) ls) @ rest)"
    using c by (simp add: chunk_loop_code filled_same)
  also have "\<dots> = Some (Inr (c, m(int final \<mapsto> h) ++ map_of (rev (owned_lines h ls)), rest))"
    unfolding owned_lines_def using assms c
    by (intro chunk_loop_lines) (auto simp: lines_fine_def)
  finally show ?thesis by (simp add: owned_lines_def map_add_upd_left)
qed

section \<open>All groups\<close>

text \<open>One chunk for every commit seen so far, in order, each with its commit's data.\<close>

definition chunks_inv :: "(string \<times> BlameChunk) list \<Rightarrow> (string \<times> commit_info) list \<Rightarrow> bool" where
  "chunks_inv cs seen \<longleftrightarrow> list_all2 (\<lambda>(h, c) (h', i). h = h' \<and> chunk_shows c h i) cs seen"

definition new_infos :: "blame_group list \<Rightarrow> (string \<times> commit_info) list" where
  "new_infos gs = concat (map (\<lambda>(h, i, ls). case i of None \<Rightarrow> [] | Some d \<Rightarrow> [(h, d)]) gs)"

definition owners :: "blame_group list \<Rightarrow> (int \<times> string) list" where
  "owners gs = concat (map (\<lambda>(h, i, ls). owned_lines h ls) gs)"

lemma put_chunk_new:
  "chunks_inv cs seen \<Longrightarrow> h \<notin> fst ` set seen \<Longrightarrow>
     put_chunk cs h c = cs @ [(h, c)] \<and> map_of cs h = None"
  unfolding chunks_inv_def by (induction rule: list_all2_induct) auto

lemma put_chunk_old:
  "chunks_inv cs seen \<Longrightarrow> h \<in> fst ` set seen \<Longrightarrow>
     \<exists>c i. map_of cs h = Some c \<and> chunk_shows c h i \<and>
       (\<forall>c'. chunk_shows c' h i \<longrightarrow> chunks_inv (put_chunk cs h c') seen)"
  unfolding chunks_inv_def
proof (induction rule: list_all2_induct)
  case (Cons x xs y ys)
  obtain k c i where xy: "x = (k, c)" "y = (k, i)" "chunk_shows c k i" using Cons.hyps(1) by auto
  show ?case
  proof (cases "k = h")
    case True
    with Cons.hyps xy show ?thesis by auto
  next
    case False
    with Cons.prems xy have "h \<in> fst ` set ys" by auto
    with Cons.IH False xy show ?thesis by auto
  qed
qed simp

lemma processNextChunk_header:
  assumes "hash_fine h" "length ls < 2 ^ 63" "final < 2 ^ 63" "0 < n" "n < 2 ^ 63"
  shows "processNextChunk r st ((line_header h orig final @ '' '' @ string_of_nat n) # rest) =
    map_option (\<lambda>res. bind_res res (\<lambda>(chunk', lnos, rest').
        Inr (True, None, \<lparr>bst_chunks = put_chunk (bst_chunks st) h chunk', bst_lines = lnos\<rparr>, rest')))
      (chunk_loop
        (add_range (case map_of (bst_chunks st) h of Some c \<Rightarrow> c | None \<Rightarrow> new_chunk r h)
          (int final) (int n))
        (bst_lines st) (int final) (int n) rest)"
  using BlameChunkHeader_line[OF assms(1), of orig final n] assms
  by (simp add: processNextChunk_def Atoi_string_of_nat Let_def)

lemma processNextChunk_group:
  assumes "chunks_inv cs seen" "groups_fine (fst ` set seen) ((h, i, ls) # gs)"
  shows "\<exists>cs'. processNextChunk r \<lparr>bst_chunks = cs, bst_lines = m\<rparr> (group_printed (h, i, ls) @ rest) =
      Some (Inr (True, None, \<lparr>bst_chunks = cs',
        bst_lines = m ++ map_of (rev (owned_lines h ls))\<rparr>, rest))
    \<and> chunks_inv cs' (seen @ new_infos [(h, i, ls)])"
proof -
  obtain orig final code ls' where ls: "ls = (orig, final, code) # ls'"
    using assms(2) by (cases ls) auto
  have fine: "hash_fine h" "lines_fine ((orig, final, code) # ls')"
    using assms(2) ls by simp_all
  let ?n = "int (Suc (length ls'))"
  have step: "processNextChunk r \<lparr>bst_chunks = cs, bst_lines = m\<rparr> (group_printed (h, i, ls) @ rest) =
      map_option (\<lambda>res. bind_res res (\<lambda>(chunk', lnos, rest').
          Inr (True, None, \<lparr>bst_chunks = put_chunk cs h chunk', bst_lines = lnos\<rparr>, rest')))
        (chunk_loop (add_range (case map_of cs h of Some c \<Rightarrow> c | None \<Rightarrow> new_chunk r h) (int final) ?n)
          m (int final) ?n ((case i of None \<Rightarrow> [] | Some d \<Rightarrow> info_lines d)
            @ (TAB # code) # concat (map (line_printed h) ls') @ rest))"
    using processNextChunk_header[OF fine(1), of ls' final "Suc (length ls')"] fine(2)
    by (simp add: ls lines_fine_def del: of_nat_Suc)
  show ?thesis
  proof (cases i)
    case None
    with assms(2) have "h \<in> fst ` set seen" by simp
    from put_chunk_old[OF assms(1) this] obtain c d where c: "map_of cs h = Some c"
      "chunk_shows c h d" "\<And>c'. chunk_shows c' h d \<Longrightarrow> chunks_inv (put_chunk cs h c') seen" by blast
    then have shown: "chunk_shows (add_range c (int final) ?n) h d"
      by (simp only: chunk_shows_add_range)
    have "new_infos [(h, i, ls)] = []" using None by (simp add: new_infos_def)
    with step loop_group_old[OF fine shown, of m rest] c(1) c(3)[OF shown] None show ?thesis
      by (simp add: ls del: of_nat_Suc)
  next
    case (Some d)
    with assms(2) have new: "h \<notin> fst ` set seen" and d: "info_fine d" by auto
    obtain c where c: "chunk_loop (add_range (new_chunk r h) (int final) ?n) m (int final) ?n
        (info_lines d @ (TAB # code) # concat (map (line_printed h) ls') @ rest) =
        Some (Inr (c, m ++ map_of (rev (owned_lines h ((orig, final, code) # ls'))), rest))"
      "chunk_shows c h d"
      using loop_group_new[OF fine(1) d fine(2)] by blast
    have "chunks_inv (cs @ [(h, c)]) (seen @ new_infos [(h, i, ls)])"
      using assms(1) c(2) Some by (simp add: chunks_inv_def new_infos_def list_all2_appendI)
    with step c(1) put_chunk_new[OF assms(1) new] Some show ?thesis
      by (simp add: ls del: of_nat_Suc)
  qed
qed

lemma blame_loop_groups:
  assumes "chunks_inv cs seen" "groups_fine (fst ` set seen) gs"
  shows "\<exists>cs'. blame_loop r \<lparr>bst_chunks = cs, bst_lines = m\<rparr> (concat (map group_printed gs) @ rest) =
      blame_loop r \<lparr>bst_chunks = cs', bst_lines = m ++ map_of (rev (owners gs))\<rparr> rest
    \<and> chunks_inv cs' (seen @ new_infos gs)"
  using assms
proof (induction gs arbitrary: cs seen m)
  case Nil
  then show ?case by (auto simp: owners_def new_infos_def)
next
  case (Cons g gs)
  obtain h i ls where g: "g = (h, i, ls)" by (cases g)
  let ?rest = "concat (map group_printed gs) @ rest"
  obtain cs1 where 1: "processNextChunk r \<lparr>bst_chunks = cs, bst_lines = m\<rparr> (group_printed g @ ?rest) =
      Some (Inr (True, None, \<lparr>bst_chunks = cs1,
        bst_lines = m ++ map_of (rev (owned_lines h ls))\<rparr>, ?rest))"
    "chunks_inv cs1 (seen @ new_infos [g])"
    using processNextChunk_group[of cs seen h i ls gs r m ?rest] Cons.prems unfolding g by blast
  have "fst ` set (seen @ new_infos [g]) = insert h (fst ` set seen)"
    using Cons.prems(2) by (auto simp: g new_infos_def split: option.splits)
  then have "groups_fine (fst ` set (seen @ new_infos [g])) gs"
    using Cons.prems(2) by (simp add: g)
  from Cons.IH[OF 1(2) this] obtain cs2 where
    "blame_loop r \<lparr>bst_chunks = cs1, bst_lines = m ++ map_of (rev (owned_lines h ls))\<rparr> ?rest =
      blame_loop r \<lparr>bst_chunks = cs2,
        bst_lines = (m ++ map_of (rev (owned_lines h ls))) ++ map_of (rev (owners gs))\<rparr> rest"
    "chunks_inv cs2 ((seen @ new_infos [g]) @ new_infos gs)" by blast
  with 1(1) show ?case
    by (intro exI[of _ cs2], subst blame_loop.simps) (simp add: g owners_def new_infos_def)
qed

lemma blame_loop_end [simp]: "blame_loop r st [] = Some (Inr st)"
  by (subst blame_loop.simps) (simp add: processNextChunk_def)

section \<open>Properties\<close>

lemma owners_lookup:
  assumes "distinct (map fst (owners gs))"
  shows "map_of (rev (owners gs)) k = Some h \<longleftrightarrow> (k, h) \<in> set (owners gs)"
  using assms by (simp add: map_of_eq_Some_iff rev_map[symmetric])

lemma owned_lines_iff:
  "(k, h) \<in> set (owned_lines h' ls) \<longleftrightarrow>
     h = h' \<and> (\<exists>orig final code. (orig, final, code) \<in> set ls \<and> k = int final)"
  by (induction ls) (auto simp: owned_lines_def)

lemma owners_iff:
  "(k, h) \<in> set (owners gs) \<longleftrightarrow>
     (\<exists>i ls orig final code. (h, i, ls) \<in> set gs \<and> (orig, final, code) \<in> set ls \<and> k = int final)"
proof
  assume "(k, h) \<in> set (owners gs)"
  then obtain h' i ls where "(h', i, ls) \<in> set gs" "(k, h) \<in> set (owned_lines h' ls)"
    by (auto simp: owners_def)
  then show "\<exists>i ls orig final code. (h, i, ls) \<in> set gs \<and> (orig, final, code) \<in> set ls \<and> k = int final"
    unfolding owned_lines_iff by blast
next
  assume "\<exists>i ls orig final code. (h, i, ls) \<in> set gs \<and> (orig, final, code) \<in> set ls \<and> k = int final"
  then obtain i ls where "(h, i, ls) \<in> set gs" "(k, h) \<in> set (owned_lines h ls)"
    unfolding owned_lines_iff by blast
  then show "(k, h) \<in> set (owners gs)" by (force simp: owners_def)
qed

lemma GitBlameBlob_lines:
  assumes "groups_fine {} gs"
    "git (blame_args (rc_Path repo) (path_Clean path) commit) =
      Inr (concat (map group_printed gs))"
  shows "\<exists>cs res. GitBlameBlob git order path repo commit = Some (Inr res) \<and>
    br_LinesToBlameChunk res = map_of (rev (owners gs)) \<and>
    br_BlameChunks res = order (map snd cs) \<and> chunks_inv cs (new_infos gs)"
proof -
  have "chunks_inv [] []" by (simp add: chunks_inv_def)
  with blame_loop_groups[of "[]" "[]" gs "rc_Name repo" Map.empty "[]"] assms show ?thesis
    by (auto simp: GitBlameBlob_def)
qed

text \<open>
  C2. Blame says the truth about every line: for porcelain output whose groups have a
  commit's data exactly where the commit appears first and which names every final line
  once, \<^verbatim>\<open>GitBlameBlob\<close> returns, and the line map sends a line number to a commit exactly
  when the output has that line in a group of that commit.
\<close>

theorem GitBlameBlob_line_owner:
  assumes "groups_fine {} gs" "distinct (map fst (owners gs))"
    "git (blame_args (rc_Path repo) (path_Clean path) commit) =
      Inr (concat (map group_printed gs))"
  shows "\<exists>res. GitBlameBlob git order path repo commit = Some (Inr res) \<and>
    (\<forall>lno h. br_LinesToBlameChunk res lno = Some h \<longleftrightarrow>
       (\<exists>i ls orig final code. (h, i, ls) \<in> set gs \<and> (orig, final, code) \<in> set ls
          \<and> lno = int final))"
proof -
  obtain res where "GitBlameBlob git order path repo commit = Some (Inr res)"
    "br_LinesToBlameChunk res = map_of (rev (owners gs))"
    using GitBlameBlob_lines[of gs git repo path commit order, OF assms(1,3)] by blast
  then show ?thesis
    by (intro exI[of _ res]) (simp add: owners_lookup[OF assms(2)] owners_iff)
qed

text \<open>
  There is one chunk for each commit of the output, with its author, committer, times,
  summary and file name. The hash of the previous commit is wrong: the code takes the first
  40 bytes of the line \<^verbatim>\<open>previous <hash> <file>\<close> without dropping the key, so it stores the
  key and 31 digits of the hash, and the rest of the hash in front of the file name.
\<close>

theorem GitBlameBlob_chunks:
  assumes "groups_fine {} gs" "rearranges order"
    "git (blame_args (rc_Path repo) (path_Clean path) commit) =
      Inr (concat (map group_printed gs))"
  shows "\<exists>res cs. GitBlameBlob git order path repo commit = Some (Inr res) \<and>
    mset (br_BlameChunks res) = mset cs \<and>
    list_all2 (\<lambda>c (h, i). bc_CommitHash c = h \<and> bc_AuthorName c = ci_author i \<and>
        bc_AuthorEmail c = ci_author_mail i \<and> bc_AuthorTime c = ci_author_time i \<and>
        bc_CommitterName c = ci_committer i \<and> bc_CommitterTime c = ci_committer_time i \<and>
        bc_CommitSummary c = ci_summary i \<and> bc_Filename c = ci_filename i \<and>
        (\<forall>ph pf. ci_previous i = Some (ph, pf) \<longrightarrow>
           bc_PreviousCommitHash c = ''previous '' @ take 31 ph \<and>
           bc_PreviousFilename c = drop 32 ph @ '' '' @ pf))
      cs (concat (map (\<lambda>(h, i, ls). case i of None \<Rightarrow> [] | Some d \<Rightarrow> [(h, d)]) gs))"
proof -
  obtain cs res where res: "GitBlameBlob git order path repo commit = Some (Inr res)"
    "br_BlameChunks res = order (map snd cs)" and inv: "chunks_inv cs (new_infos gs)"
    using GitBlameBlob_lines[of gs git repo path commit order, OF assms(1,3)] by blast
  have "mset (br_BlameChunks res) = mset (map snd cs)"
    using res(2) assms(2) by (simp add: rearranges_mset)
  moreover have "list_all2 (\<lambda>c (h, i). chunk_shows c h i) (map snd cs) (new_infos gs)"
    using inv by (auto simp: chunks_inv_def list_all2_map1 elim!: list_all2_mono)
  then have "list_all2 (\<lambda>c (h, i). bc_CommitHash c = h \<and> bc_AuthorName c = ci_author i \<and>
        bc_AuthorEmail c = ci_author_mail i \<and> bc_AuthorTime c = ci_author_time i \<and>
        bc_CommitterName c = ci_committer i \<and> bc_CommitterTime c = ci_committer_time i \<and>
        bc_CommitSummary c = ci_summary i \<and> bc_Filename c = ci_filename i \<and>
        (\<forall>ph pf. ci_previous i = Some (ph, pf) \<longrightarrow>
           bc_PreviousCommitHash c = ''previous '' @ take 31 ph \<and>
           bc_PreviousFilename c = drop 32 ph @ '' '' @ pf)) (map snd cs) (new_infos gs)"
    by (rule list_all2_mono) (auto simp: chunk_shows_def)
  ultimately show ?thesis using res(1) unfolding new_infos_def by blast
qed

section \<open>Output that stops early\<close>

text \<open>
  The inner loop leaves only when it has counted as many code lines as announced, unless a
  header line stops it.
\<close>

definition is_code :: "string \<Rightarrow> bool" where
  "is_code l \<longleftrightarrow> LineInChunkHeader l = None \<and> HasPrefix l [TAB]"

definition harmless :: "string \<Rightarrow> bool" where
  "harmless l \<longleftrightarrow> (\<forall>c. \<exists>c'. apply_info c l = Inr (Some c'))"

lemma harmless_Nil: "harmless []"
  by (simp add: harmless_def apply_info_def)

lemma chunk_loop_returns:
  assumes "chunk_loop c m k n input = Some r"
  shows "list_all harmless input \<longrightarrow> 0 \<le> n \<longrightarrow> n \<le> int (length (filter is_code input))"
proof (rule chunk_loop.raw_induct[where P = "\<lambda>c m k n input r. list_all harmless input \<longrightarrow>
      0 \<le> n \<longrightarrow> n \<le> int (length (filter is_code input))", OF _ assms], intro impI)
  fix loop :: "BlameChunk \<Rightarrow> (int \<rightharpoonup> string) \<Rightarrow> int \<Rightarrow> int \<Rightarrow> string list
      \<Rightarrow> (blame_error, BlameChunk \<times> (int \<rightharpoonup> string) \<times> string list) res option"
    and c m k n input r
  assume IH: "\<And>c m k n input r. loop c m k n input = Some r \<Longrightarrow>
      list_all harmless input \<longrightarrow> 0 \<le> n \<longrightarrow> n \<le> int (length (filter is_code input))"
    and body: "(if n = 0 then Some (Inr (c, m, input)) else
        let (ok, line, rest) = scan input; (chunk, lnos, curr, n) = line_step c m k n line
        in if bc_alreadyFilled chunk then loop chunk lnos curr n rest
           else case apply_info chunk line of Inl e \<Rightarrow> Some (Inl e)
             | Inr None \<Rightarrow> Some (Inr (chunk, lnos, rest))
             | Inr (Some chunk') \<Rightarrow> loop chunk' lnos curr n rest) = Some r"
    and harmless: "list_all harmless input" and "0 \<le> n"
  show "n \<le> int (length (filter is_code input))"
  proof (cases "n = 0")
    case False
    obtain ok line rest where scan: "scan input = (ok, line, rest)" by (cases "scan input") auto
    obtain c1 m1 k1 n1 where step: "line_step c m k n line = (c1, m1, k1, n1)"
      by (cases "line_step c m k n line") auto
    have code: "n1 = n - (if is_code line then 1 else 0)"
      using step by (auto simp: line_step_def is_code_def split: option.splits if_splits)
    have line: "harmless line" and rest: "list_all harmless rest"
      and count: "length (filter is_code input) =
        (if is_code line then 1 else 0) + length (filter is_code rest)"
      using scan harmless harmless_Nil by (cases input; force simp: is_code_def)+
    obtain c2 where "apply_info c1 line = Inr (Some c2)"
      using line by (auto simp: harmless_def)
    then obtain c3 where "loop c3 m1 k1 n1 rest = Some r"
      using body False scan step by (auto split: if_splits)
    from IH[OF this] show ?thesis using code rest count False \<open>0 \<le> n\<close> by auto
  qed simp
qed

lemma harmless_code: "harmless (TAB # code)"
  by (simp add: harmless_def apply_info_def)

lemma harmless_header:
  assumes "hash_fine h"
  shows "harmless (line_header h orig final)"
proof -
  obtain a b s where h: "h = a # b # s" "is_hex b"
    using assms by (auto simp: hash_fine_def length_Suc_conv numeral_eq_Suc)
  then have "b \<notin> {CHR ''u'', CHR ''o'', CHR ''i'', CHR ''r''}"
    by (auto simp: is_hex_def is_digit_def)
  with h show ?thesis
    by (auto simp: harmless_def apply_info_def line_header_def)
qed

lemma harmless_keys:
  "harmless (''author '' @ s)" "harmless (''author-mail '' @ s)" "harmless (''author-tz '' @ s)"
  "harmless (''committer '' @ s)" "harmless (''committer-mail '' @ s)"
  "harmless (''committer-tz '' @ s)" "harmless (''summary '' @ s)" "harmless ''boundary''"
  "harmless (''filename '' @ s)"
  by (simp_all add: harmless_def apply_info_def)

lemma harmless_times:
  assumes "- (2 ^ 63) \<le> t" "t < 2 ^ 63"
  shows "harmless (''author-time '' @ string_of_int t)" "harmless (''committer-time '' @ string_of_int t)"
  using ParseInt_string_of_int[OF assms]
  by (simp_all add: harmless_def apply_info_def deleteKey_def ReplaceFirst_def)

lemma harmless_previous: "hash_fine h \<Longrightarrow> harmless (''previous '' @ h @ '' '' @ f)"
  using apply_info_previous[of h] unfolding harmless_def by blast

lemma harmless_info:
  assumes "info_fine i"
  shows "list_all harmless (info_lines i)"
proof -
  have r: "- (2 ^ 63) \<le> ci_author_time i" "ci_author_time i < 2 ^ 63"
    "- (2 ^ 63) \<le> ci_committer_time i" "ci_committer_time i < 2 ^ 63"
    using assms by (simp_all add: info_fine_def)
  note harmless_times(1)[OF r(1,2)] harmless_times(2)[OF r(3,4)]
  moreover have "\<forall>h f. ci_previous i = Some (h, f) \<longrightarrow> harmless (''previous '' @ h @ '' '' @ f)"
    using assms by (auto simp: info_fine_def intro: harmless_previous[simplified])
  ultimately show ?thesis
    using harmless_keys by (auto simp: info_lines_def split: option.splits)
qed

lemma is_code_simps [simp]:
  "is_code (TAB # code)"
  "hash_fine h \<Longrightarrow> \<not> is_code (line_header h orig final)"
  "info_key l \<Longrightarrow> \<not> is_code l"
  by (simp_all add: is_code_def LineInChunkHeader_code LineInChunkHeader_line info_key_def)

text \<open>What follows the header of a group.\<close>

definition group_tail :: "string \<Rightarrow> commit_info option \<Rightarrow> string \<Rightarrow> blamed_line list \<Rightarrow> string list" where
  "group_tail h i code ls = (case i of None \<Rightarrow> [] | Some d \<Rightarrow> info_lines d)
     @ (TAB # code) # concat (map (line_printed h) ls)"

lemma group_tail_facts:
  assumes "hash_fine h" "case i of None \<Rightarrow> True | Some d \<Rightarrow> info_fine d"
  shows "list_all harmless (group_tail h i code ls)"
    and "length (filter is_code (group_tail h i code ls)) = Suc (length ls)"
    and "is_code (last (group_tail h i code ls))"
proof -
  have "list_all harmless (case i of None \<Rightarrow> [] | Some d \<Rightarrow> info_lines d)"
    using assms(2) harmless_info by (cases i) auto
  moreover have "list_all harmless (concat (map (line_printed h) ls))"
    using assms(1) harmless_code harmless_header by (induction ls) (auto simp: line_printed_def)
  ultimately show "list_all harmless (group_tail h i code ls)"
    by (simp add: group_tail_def harmless_code)
  have "filter is_code (case i of None \<Rightarrow> [] | Some d \<Rightarrow> info_lines d) = []"
    using info_lines_keys by (auto simp: filter_empty_conv list_all_iff split: option.splits)
  moreover have "length (filter is_code (concat (map (line_printed h) ls))) = length ls"
    using assms(1) by (induction ls) (auto simp: line_printed_def)
  ultimately show "length (filter is_code (group_tail h i code ls)) = Suc (length ls)"
    by (simp add: group_tail_def)
  show "is_code (last (group_tail h i code ls))"
    by (cases ls rule: rev_cases) (auto simp: group_tail_def line_printed_def)
qed

lemma filter_take_last:
  assumes "k < length xs" "P (last xs)"
  shows "length (filter P (take k xs)) < length (filter P xs)"
proof -
  have "last xs \<in> set (drop k xs)" using assms(1) by (metis last_drop last_in_set drop_eq_Nil leD)
  then have "filter P (drop k xs) \<noteq> []" using assms(2) by (auto simp: filter_empty_conv)
  moreover have "filter P xs = filter P (take k xs) @ filter P (drop k xs)"
    by (metis append_take_drop_id filter_append)
  ultimately show ?thesis by simp
qed

lemma groups_fine_last:
  "groups_fine seen (gs @ [(h, i, ls)]) \<Longrightarrow> groups_fine seen gs \<and> hash_fine h \<and> ls \<noteq> [] \<and>
     lines_fine ls \<and> (case i of None \<Rightarrow> True | Some d \<Rightarrow> info_fine d)"
  by (induction seen gs rule: groups_fine.induct) auto

text \<open>
  C38. Blame never comes back when git's output stops inside a group: with any number of
  complete groups followed by a group that lacks at least its last line, the inner loop
  reads the empty line at the end of the scanner for ever.
\<close>

theorem GitBlameBlob_truncated:
  assumes "groups_fine {} (gs @ [(h, i, ls)])" "0 < j" "j < length (group_printed (h, i, ls))"
    "git (blame_args (rc_Path repo) (path_Clean path) commit) =
      Inr (concat (map group_printed gs) @ take j (group_printed (h, i, ls)))"
  shows "GitBlameBlob git order path repo commit = None"
proof -
  note fine = groups_fine_last[OF assms(1)]
  then obtain orig final code ls' where ls: "ls = (orig, final, code) # ls'" by (cases ls) auto
  let ?tail = "group_tail h i code ls'"
  let ?header = "line_header h orig final @ '' '' @ string_of_nat (Suc (length ls'))"
  have printed: "group_printed (h, i, ls) = ?header # ?tail" by (simp add: ls group_tail_def)
  then have cut: "take j (group_printed (h, i, ls)) = ?header # take (j - 1) ?tail"
    using assms(2) by (cases j) auto
  have tail: "list_all harmless ?tail" "length (filter is_code ?tail) = Suc (length ls')"
    "is_code (last ?tail)"
    using group_tail_facts[of h i code ls'] fine by auto
  have "j - 1 < length ?tail" using assms(2,3) printed by simp
  then have few: "length (filter is_code (take (j - 1) ?tail)) < Suc (length ls')"
    using filter_take_last[of "j - 1" ?tail is_code] tail by simp
  have "list_all harmless (take (j - 1) ?tail)"
    using tail(1) by (auto simp: list_all_iff dest: in_set_takeD)
  with few have loops: "chunk_loop c m k (int (Suc (length ls'))) (take (j - 1) ?tail) = None" for c m k
    using chunk_loop_returns[of c m k "int (Suc (length ls'))" "take (j - 1) ?tail"]
    by (cases "chunk_loop c m k (int (Suc (length ls'))) (take (j - 1) ?tail)") auto
  have none: "blame_loop r st (take j (group_printed (h, i, ls))) = None" for r st
    unfolding cut using fine loops
    by (subst blame_loop.simps)
      (simp add: processNextChunk_header[of h ls', simplified] ls lines_fine_def del: of_nat_Suc)
  have "chunks_inv [] []" "groups_fine (fst ` set []) gs" using fine by (simp_all add: chunks_inv_def)
  from blame_loop_groups[OF this, of "rc_Name repo" Map.empty "take j (group_printed (h, i, ls))"] none
  have "blame_loop (rc_Name repo) \<lparr>bst_chunks = [], bst_lines = Map.empty\<rparr>
      (concat (map group_printed gs) @ take j (group_printed (h, i, ls))) = None"
    by auto
  then show ?thesis by (simp add: GitBlameBlob_def assms(4))
qed

text \<open>
  Output that is not porcelain at all is reported as an empty blame: the loop looks at
  the flag \<^verbatim>\<open>hasMore\<close> before the error, and an unreadable header comes with the flag off.
\<close>

theorem GitBlameBlob_swallows_error:
  assumes "BlameChunkHeader l = None"
    "git (blame_args (rc_Path repo) (path_Clean path) commit) = Inr (l # rest)"
  shows "processNextChunk (rc_Name repo) st (l # rest) =
      Some (Inr (False, Some (UnexpectedLine l), st, rest)) \<and>
    GitBlameBlob git order path repo commit = Some (Inr
      \<lparr>br_Path = [], br_Commit = [], br_LinesToBlameChunk = Map.empty, br_BlameChunks = order [],
       br_LineNumsToBlameIdx = Map.empty\<rparr>)"
  using assms by (simp add: GitBlameBlob_def blame_loop.simps processNextChunk_def)

section \<open>A sample output\<close>

definition sample_info :: "string \<Rightarrow> commit_info" where
  "sample_info who = \<lparr>ci_author = who, ci_author_mail = ''<a@b>'', ci_author_time = 7,
     ci_author_tz = ''+0100'', ci_committer = who, ci_committer_mail = ''<a@b>'',
     ci_committer_time = 8, ci_committer_tz = ''+0100'', ci_summary = ''s'',
     ci_previous = Some (replicate 40 CHR ''e'', ''f.c''), ci_boundary = False,
     ci_filename = ''f.c''\<rparr>"

definition sample_groups :: "blame_group list" where
  "sample_groups =
     [(replicate 40 CHR ''a'', Some (sample_info ''A''), [(1, 1, ''x''), (2, 2, ''y'')]),
      (replicate 40 CHR ''b'', Some (sample_info ''B''), [(1, 3, ''z'')]),
      (replicate 40 CHR ''a'', None, [(3, 4, ''w'')])]"

definition sample_repo :: RepoConfig where
  "sample_repo = \<lparr>rc_Path = ''/r'', rc_Name = ''r'', rc_Revisions = [], rc_Metadata = Map.empty,
     rc_WalkSubmodules = False\<rparr>"

lemma sample_fine: "groups_fine {} sample_groups" "distinct (map fst (owners sample_groups))"
  by (simp_all add: sample_groups_def sample_info_def hash_fine_def is_hex_def lines_fine_def
      info_fine_def list_all_iff owners_def owned_lines_def)

abbreviation sample_git :: "string list \<Rightarrow> string + string list" where
  "sample_git \<equiv> \<lambda>args. Inr (concat (map group_printed sample_groups))"

theorem GitBlameBlob_line_owner_witness:
  "\<exists>res. GitBlameBlob sample_git rev ''f.c'' sample_repo ''HEAD'' = Some (Inr res) \<and>
     br_LinesToBlameChunk res 4 = Some (replicate 40 CHR ''a'') \<and>
     br_LinesToBlameChunk res 3 = Some (replicate 40 CHR ''b'')"
proof -
  obtain res where res: "GitBlameBlob sample_git rev ''f.c'' sample_repo ''HEAD'' = Some (Inr res)"
    and own: "\<And>lno h. br_LinesToBlameChunk res lno = Some h \<longleftrightarrow>
      (\<exists>i ls orig final code. (h, i, ls) \<in> set sample_groups \<and> (orig, final, code) \<in> set ls \<and>
        lno = int final)"
    using GitBlameBlob_line_owner[OF sample_fine, of sample_git sample_repo "''f.c''" "''HEAD''" rev]
    by blast
  have "br_LinesToBlameChunk res 4 = Some (replicate 40 CHR ''a'')"
    unfolding own sample_groups_def
    by (rule exI[of _ None], rule exI[of _ "[(3, 4, ''w'')]"], rule exI[of _ 3],
        rule exI[of _ 4], rule exI[of _ "''w''"]) simp
  moreover have "br_LinesToBlameChunk res 3 = Some (replicate 40 CHR ''b'')"
    unfolding own sample_groups_def
    by (rule exI[of _ "Some (sample_info ''B'')"], rule exI[of _ "[(1, 3, ''z'')]"],
        rule exI[of _ 1], rule exI[of _ 3], rule exI[of _ "''z''"]) simp
  ultimately show ?thesis using res by blast
qed

theorem GitBlameBlob_chunks_witness:
  "\<exists>res c. GitBlameBlob sample_git rev ''f.c'' sample_repo ''HEAD'' = Some (Inr res) \<and>
     length (br_BlameChunks res) = 2 \<and> c \<in> set (br_BlameChunks res) \<and>
     bc_CommitHash c = replicate 40 CHR ''b'' \<and> bc_AuthorName c = ''B'' \<and>
     bc_PreviousCommitHash c = ''previous '' @ replicate 31 CHR ''e''"
proof -
  obtain res cs where res: "GitBlameBlob sample_git rev ''f.c'' sample_repo ''HEAD'' = Some (Inr res)"
    and m: "mset (br_BlameChunks res) = mset cs"
    and cs: "list_all2 (\<lambda>c (h, i). bc_CommitHash c = h \<and> bc_AuthorName c = ci_author i \<and>
        bc_AuthorEmail c = ci_author_mail i \<and> bc_AuthorTime c = ci_author_time i \<and>
        bc_CommitterName c = ci_committer i \<and> bc_CommitterTime c = ci_committer_time i \<and>
        bc_CommitSummary c = ci_summary i \<and> bc_Filename c = ci_filename i \<and>
        (\<forall>ph pf. ci_previous i = Some (ph, pf) \<longrightarrow>
           bc_PreviousCommitHash c = ''previous '' @ take 31 ph \<and>
           bc_PreviousFilename c = drop 32 ph @ '' '' @ pf))
      cs (concat (map (\<lambda>(h, i, ls). case i of None \<Rightarrow> [] | Some d \<Rightarrow> [(h, d)]) sample_groups))"
    using GitBlameBlob_chunks[OF sample_fine(1) rearranges_rev, of sample_git sample_repo "''f.c''"
        "''HEAD''"] by blast
  have two: "length cs = 2" using cs by (auto simp: sample_groups_def dest: list_all2_lengthD)
  then obtain c0 c where "cs = [c0, c]" by (auto simp: numeral_2_eq_2 length_Suc_conv)
  with cs have "bc_CommitHash c = replicate 40 CHR ''b'' \<and> bc_AuthorName c = ''B'' \<and>
     bc_PreviousCommitHash c = ''previous '' @ replicate 31 CHR ''e''"
    by (simp add: sample_groups_def sample_info_def)
  moreover have "c \<in> set (br_BlameChunks res)" "length (br_BlameChunks res) = 2"
    using m two \<open>cs = [c0, c]\<close> mset_eq_setD[OF m] mset_eq_length[OF m] by auto
  ultimately show ?thesis using res by blast
qed

theorem GitBlameBlob_truncated_witness:
  "GitBlameBlob (\<lambda>_. Inr (take 1 (group_printed (replicate 40 CHR ''a'', Some (sample_info ''A''),
     [(1, 1, ''x'')])))) rev ''f.c'' sample_repo ''HEAD'' = None"
proof -
  let ?g = "(replicate 40 CHR ''a'', Some (sample_info ''A''), [(1, 1, ''x'')])"
  have "groups_fine {} ([] @ [?g])"
    by (simp add: sample_info_def hash_fine_def is_hex_def lines_fine_def info_fine_def list_all_iff)
  moreover have "(0::nat) < 1" "1 < length (group_printed ?g)" by simp_all
  ultimately show ?thesis by (rule GitBlameBlob_truncated) simp
qed

theorem GitBlameBlob_swallows_error_witness:
  "GitBlameBlob (\<lambda>_. Inr [''fatal: no such path'']) rev ''f.c'' sample_repo ''HEAD'' = Some (Inr
      \<lparr>br_Path = [], br_Commit = [], br_LinesToBlameChunk = Map.empty, br_BlameChunks = [],
       br_LineNumsToBlameIdx = Map.empty\<rparr>)"
proof -
  have "BlameChunkHeader ''fatal: no such path'' = None"
    by (simp add: BlameChunkHeader_def match_hex_def)
  from GitBlameBlob_swallows_error[OF this, of "\<lambda>_. Inr [''fatal: no such path'']" sample_repo
      "''f.c''" "''HEAD''" "[]" "\<lparr>bst_chunks = [], bst_lines = Map.empty\<rparr>" rev]
  show ?thesis by simp
qed

end
