(* ===== verification/GitRefs.thy ===== *)
theory GitRefs
  imports GoPaths
begin

text \<open>
  The branch and tag lists of \<^verbatim>\<open>server/fileviewer/fileview.go\<close>: \<^verbatim>\<open>ListAllBranches\<close>,
  \<^verbatim>\<open>ListAllTags\<close> and \<^verbatim>\<open>ReverseSlice\<close>. What \<^verbatim>\<open>git for-each-ref\<close> prints is a parameter.
\<close>

section \<open>Model\<close>

record GitBranch =
  br_Name :: string
  br_IsHead :: bool
  br_LastActivityDate :: string

record GitTag =
  tag_Name :: string
  tag_IsHead :: bool
  tag_LastActivityDate :: string

datatype refs_error = RefsFailed string

text \<open>\<^verbatim>\<open>ReverseSlice\<close> swaps the ends until the indices meet.\<close>

definition swap_at :: "nat \<Rightarrow> nat \<Rightarrow> 'a list \<Rightarrow> 'a list" where
  "swap_at i j s = s[i := s ! j, j := s ! i]"

function reverse_loop :: "nat \<Rightarrow> int \<Rightarrow> 'a list \<Rightarrow> 'a list" where
  "reverse_loop i j s =
     (if int i < j then reverse_loop (i + 1) (j - 1) (swap_at i (nat j) s) else s)"
  by pat_completeness auto
termination by (relation "measure (\<lambda>(i, j, s). nat (j - int i))") auto

declare reverse_loop.simps [simp del]

definition ReverseSlice :: "'a list \<Rightarrow> 'a list" where
  "ReverseSlice s = reverse_loop 0 (int (length s) - 1) s"

definition refFormat :: string where
  "refFormat = ''%(HEAD)%00%(authordate:human)%00%(refname:short)''"

definition sortFormat :: string where
  "sortFormat = ''authordate''"

definition refs_args :: "string \<Rightarrow> string \<Rightarrow> string list" where
  "refs_args repoPath refs =
     [''-C'', repoPath, ''for-each-ref'', ''--format='' @ refFormat, ''--sort='' @ sortFormat, refs]"

definition parse_branch :: "string \<Rightarrow> (refs_error, GitBranch) res" where
  "parse_branch line =
     (let words = split_on NUL line in
      bind_res (go_index words 0) (\<lambda>w0.
      bind_res (go_index words 2) (\<lambda>w2.
      bind_res (go_index words 1) (\<lambda>w1.
        Inr \<lparr>br_Name = w2, br_IsHead = (w0 = ''*''), br_LastActivityDate = w1\<rparr>))))"

text \<open>The loop keeps the branches read and the index of the last one marked as checked out.\<close>

fun branch_loop ::
    "GitBranch list \<Rightarrow> int \<Rightarrow> string list \<Rightarrow> (refs_error, GitBranch list \<times> int) res" where
  "branch_loop branches headIdx [] = Inr (branches, headIdx)"
| "branch_loop branches headIdx (line # lines) =
     bind_res (parse_branch line) (\<lambda>b.
       branch_loop (branches @ [b]) (if br_IsHead b then int (length branches) else headIdx) lines)"

definition move_to_end :: "int \<Rightarrow> 'a list \<Rightarrow> (refs_error, 'a list) res" where
  "move_to_end headIdx s =
     (if headIdx \<noteq> int (length s) - 1 then
        bind_res (go_index s headIdx) (\<lambda>tmp.
        bind_res (go_slice s 0 headIdx) (\<lambda>pre.
        bind_res (go_slice s (headIdx + 1) (int (length s))) (\<lambda>post.
          Inr (pre @ post @ [tmp]))))
      else Inr s)"

definition ListAllBranches ::
    "(string list \<Rightarrow> string + string) \<Rightarrow> string \<Rightarrow> (refs_error, GitBranch list) res" where
  "ListAllBranches git repoPath =
     (case git (refs_args repoPath ''refs/heads'') of
        Inl err \<Rightarrow> Inl (Error (RefsFailed err))
      | Inr out \<Rightarrow>
          bind_res (branch_loop [] (- 1) (scan_lines out)) (\<lambda>(branches, headIdx).
          bind_res (move_to_end headIdx branches) (\<lambda>bs. Inr (ReverseSlice bs))))"

definition parse_tag :: "string \<Rightarrow> (refs_error, GitTag) res" where
  "parse_tag line =
     (let words = splitn_on 3 NUL line in
      bind_res (go_index words 2) (\<lambda>w2.
      bind_res (go_index words 0) (\<lambda>w0.
      bind_res (go_index words 1) (\<lambda>w1.
        Inr \<lparr>tag_Name = w2, tag_IsHead = (w0 = ''*''), tag_LastActivityDate = w1\<rparr>))))"

definition parseGitListTagsOutput :: "string list \<Rightarrow> (refs_error, GitTag list) res" where
  "parseGitListTagsOutput lines =
     bind_res (map_res parse_tag lines) (\<lambda>tags. Inr (ReverseSlice tags))"

definition ListAllTags ::
    "(string list \<Rightarrow> string + string) \<Rightarrow> string \<Rightarrow> (refs_error, GitTag list) res" where
  "ListAllTags git repoPath =
     (case git (refs_args repoPath ''refs/tags'') of
        Inl err \<Rightarrow> Inl (Error (RefsFailed err))
      | Inr out \<Rightarrow> parseGitListTagsOutput (scan_lines out))"

section \<open>Reversal\<close>

lemma swap_ends:
  "swap_at (length pre) (Suc (length pre + length t)) (pre @ x # t @ y # post) = pre @ y # t @ x # post"
proof -
  have "(pre @ x # t @ y # post) ! length pre = x" by simp
  moreover have "(pre @ x # t @ y # post) ! Suc (length pre + length t) = y"
    by (simp add: nth_append nth_Cons')
  moreover have "(pre @ x # t @ y # post)[length pre := y] = pre @ y # t @ y # post" by simp
  moreover have "(pre @ y # t @ y # post)[Suc (length pre + length t) := x] = pre @ y # t @ x # post"
    by (simp add: list_update_append)
  ultimately show ?thesis by (simp add: swap_at_def)
qed

lemma reverse_loop_correct:
  "reverse_loop (length pre) (int (length pre + length s) - 1) (pre @ s @ post) = pre @ rev s @ post"
proof (induction s arbitrary: pre post rule: length_induct)
  case (1 s)
  consider "s = []" | x where "s = [x]" | x t y where "s = x # t @ [y]"
    by (metis list.exhaust rev_exhaust append_Cons append_Nil)
  then show ?case
  proof cases
    case (3 x t y)
    have "reverse_loop (length pre) (int (length pre + length s) - 1) (pre @ s @ post) =
        reverse_loop (length pre + 1) (int (length pre + length s) - 2)
          (swap_at (length pre) (length pre + length t + 1) (pre @ x # t @ y # post))"
      by (subst reverse_loop.simps) (simp add: 3 nat_add_distrib)
    also have "\<dots> = reverse_loop (length (pre @ [y])) (int (length (pre @ [y]) + length t) - 1)
        ((pre @ [y]) @ t @ (x # post))"
      by (simp add: swap_ends 3)
    also have "\<dots> = (pre @ [y]) @ rev t @ (x # post)"
      using 3 by (intro 1[rule_format]) simp
    finally show ?thesis by (simp add: 3)
  qed (simp_all add: reverse_loop.simps)
qed

lemma ReverseSlice_rev: "ReverseSlice s = rev s"
  using reverse_loop_correct[of "[]" s "[]"] by (simp add: ReverseSlice_def)

section \<open>Branches\<close>

text \<open>A line of \<^verbatim>\<open>git for-each-ref\<close>: the mark, the date and the name.\<close>

definition branch_fine :: "GitBranch \<Rightarrow> bool" where
  "branch_fine b \<longleftrightarrow> NUL \<notin> set (br_Name b) \<and> NL \<notin> set (br_Name b) \<and> br_Name b \<noteq> [] \<and>
     last (br_Name b) \<noteq> CR \<and> NUL \<notin> set (br_LastActivityDate b) \<and> NL \<notin> set (br_LastActivityDate b)"

definition branch_line :: "GitBranch \<Rightarrow> string" where
  "branch_line b = (if br_IsHead b then ''*'' else '' '') @ NUL # br_LastActivityDate b @ NUL # br_Name b"

definition refs_printed :: "GitBranch list \<Rightarrow> string" where
  "refs_printed bs = concat (map (\<lambda>b. branch_line b @ [NL]) bs)"

lemma parse_branch_line: "branch_fine b \<Longrightarrow> parse_branch (branch_line b) = Inr b"
proof -
  assume b: "branch_fine b"
  have "split_on NUL (branch_line b) = [if br_IsHead b then ''*'' else '' '', br_LastActivityDate b, br_Name b]"
    using b unfolding branch_line_def
    by (subst split_on_append) (auto simp: branch_fine_def split_on_append split_on_no_sep)
  then show ?thesis by (simp add: parse_branch_def)
qed

lemma scan_lines_printed:
  assumes "list_all branch_fine bs"
  shows "scan_lines (refs_printed bs) = map branch_line bs"
proof -
  have "refs_printed bs = concat (map (\<lambda>l. l @ [NL]) (map branch_line bs))"
    by (simp add: refs_printed_def comp_def)
  moreover have "NL \<notin> set l \<and> dropCR l = l" if l: "l \<in> set (map branch_line bs)" for l
  proof -
    obtain b where "l = branch_line b" "b \<in> set bs" using l by auto
    moreover from this have "branch_fine b" using assms by (simp add: list_all_iff)
    ultimately have "l = branch_line b" "branch_fine b" by simp_all
    then show ?thesis by (auto simp: branch_line_def branch_fine_def dropCR_def)
  qed
  ultimately show ?thesis using scan_lines_unlines[of "map branch_line bs"] by simp
qed

lemma branch_loop_printed:
  "list_all branch_fine bs \<Longrightarrow> \<forall>b\<in>set bs. \<not> br_IsHead b \<Longrightarrow>
     branch_loop acc h (map branch_line bs @ lines) = branch_loop (acc @ bs) h lines"
  by (induction bs arbitrary: acc) (simp_all add: parse_branch_line)

text \<open>
  The list of branches: the checked-out branch comes first, and then all the others,
  each once, the most recently active one first (git prints them by date, oldest first).
\<close>

theorem ListAllBranches_printed:
  assumes "git (refs_args repoPath ''refs/heads'') = Inr (refs_printed (bs @ h # bs'))"
    and "list_all branch_fine (bs @ h # bs')" "br_IsHead h" "\<forall>b\<in>set (bs @ bs'). \<not> br_IsHead b"
  shows "ListAllBranches git repoPath = Inr (h # rev (bs @ bs'))"
proof -
  let ?all = "bs @ h # bs'"
  have fine: "list_all branch_fine bs" "branch_fine h" "list_all branch_fine bs'" using assms(2) by simp_all
  have "branch_loop [] (- 1) (map branch_line ?all) = Inr (?all, int (length bs))"
    using branch_loop_printed[OF fine(1), of "[]" "-1" "branch_line h # map branch_line bs'"]
      branch_loop_printed[OF fine(3), of "bs @ [h]" "int (length bs)" "[]"] assms(3,4)
    by (simp add: parse_branch_line[OF fine(2)])
  moreover have "move_to_end (int (length bs)) ?all = Inr (bs @ bs' @ [h])"
    by (cases bs') (simp_all add: move_to_end_def nat_add_distrib)
  ultimately show ?thesis
    by (simp add: ListAllBranches_def assms(1) scan_lines_printed[OF assms(2)] ReverseSlice_rev)
qed

definition some_branch :: "string \<Rightarrow> bool \<Rightarrow> GitBranch" where
  "some_branch n isHead = \<lparr>br_Name = n, br_IsHead = isHead, br_LastActivityDate = ''today''\<rparr>"

lemma ListAllBranches_printed_witness:
  "ListAllBranches (\<lambda>args. Inr (refs_printed [some_branch ''a'' False, some_branch ''m'' True, some_branch ''b'' False])) ''/r'' =
     Inr [some_branch ''m'' True, some_branch ''b'' False, some_branch ''a'' False]"
proof -
  have "branch_fine (some_branch n isHead)" if "n = [c]" "c \<notin> {NUL, NL, CR}" for n isHead c
    using that by (auto simp: branch_fine_def some_branch_def)
  then have "list_all branch_fine ([some_branch ''a'' False] @ some_branch ''m'' True # [some_branch ''b'' False])"
    by simp
  then show ?thesis
    using ListAllBranches_printed[of "\<lambda>args. Inr (refs_printed [some_branch ''a'' False, some_branch ''m'' True,
        some_branch ''b'' False])" "''/r''" "[some_branch ''a'' False]" "some_branch ''m'' True" "[some_branch ''b'' False]"]
    by (simp add: some_branch_def)
qed

text \<open>
  A repository whose checked-out branch is not among its branches (a detached head, or a
  branch that does not exist yet) makes the list of branches panic as soon as there is one.
\<close>

theorem ListAllBranches_detached_panics:
  assumes "git (refs_args repoPath ''refs/heads'') = Inr (refs_printed bs)"
    and "list_all branch_fine bs" "\<forall>b\<in>set bs. \<not> br_IsHead b" "bs \<noteq> []"
  shows "ListAllBranches git repoPath = Inl (Panic IndexOutOfRange)"
  using branch_loop_printed[OF assms(2,3), of "[]" "-1" "[]"] assms(4)
  by (simp add: ListAllBranches_def assms(1) scan_lines_printed[OF assms(2)] move_to_end_def go_index_def)

lemma ListAllBranches_detached_panics_witness:
  "ListAllBranches (\<lambda>args. Inr (refs_printed [some_branch ''a'' False])) ''/r'' =
     Inl (Panic IndexOutOfRange)"
  by (rule ListAllBranches_detached_panics[of _ _ "[some_branch ''a'' False]"])
    (simp_all add: branch_fine_def some_branch_def)

end
