(* ===== verification/GitLog.thy ===== *)
theory GitLog
  imports GoRegexp GitFiles
begin

text \<open>
  The commit log of \<^verbatim>\<open>server/fileviewer/fileview.go\<close>: the arguments given to
  \<^verbatim>\<open>git log\<close>, the parser of its NUL-separated output with and without file names, paging,
  and the older regular-expression parser of \<^verbatim>\<open>BuildSimpleGitLogData\<close>.
\<close>

section \<open>Data\<close>

text \<open>A \<^verbatim>\<open>time.Time\<close> of the log is the instant it stands for, in seconds since the epoch.\<close>

record Signature =
  sig_Name :: string
  sig_Email :: string
  sig_Date :: int

type_synonym CommitId = string

definition CommitId_Short :: "CommitId \<Rightarrow> string" where
  "CommitId_Short c = (if 7 \<le> length c then take 7 c else c)"

record GitCommit =
  gc_ID :: CommitId
  gc_Author :: Signature
  gc_Committer :: "Signature option"
  gc_Subject :: string
  gc_Body :: string
  gc_Parents :: "CommitId list"
  gc_Files :: "string list"

record GitLog =
  log_Commits :: "GitCommit list"
  log_MaybeLastPage :: bool

datatype log_error =
    InvalidLogEntry "string list"
  | AuthorTimeError num_error
  | CommitterTimeError num_error
  | UnsafeSpec string
  | GitLogFailed string

section \<open>Parsing\<close>

abbreviation partsPerCommitBasic :: nat where "partsPerCommitBasic \<equiv> 10"
abbreviation partsPerCommitWithFileNames :: nat where "partsPerCommitWithFileNames \<equiv> 11"

definition parseTimeFromLogPart :: "string \<Rightarrow> num_error + int" where
  "parseTimeFromLogPart part =
     (let (t, err) = ParseInt 10 64 part in case err of Some e \<Rightarrow> Inl e | None \<Rightarrow> Inr t)"

text \<open>
  \<^verbatim>\<open>parseCommitFileNames\<close>: the eleventh part holds the names, one per line, and after the
  last newline the hash of the next commit.
\<close>

definition parseCommitFileNames :: "nat \<Rightarrow> string list \<Rightarrow> (log_error, string list \<times> string) res" where
  "parseCommitFileNames partsPerCommit parts =
     (if partsPerCommit = partsPerCommitWithFileNames then
        bind_res (go_index parts 10) (\<lambda>part.
          let fileNameParts = split_on NL (TrimPrefix part [NL])
          in Inr (filter (\<lambda>name. name \<noteq> []) (butlast fileNameParts), last fileNameParts))
      else Inr ([], []))"

definition parse_parents :: "string \<Rightarrow> CommitId list" where
  "parse_parents parentPart = (if parentPart = [] then [] else split_on CHR '' '' parentPart)"

text \<open>The commit and the rest of the log, from the parts; the panic is an index past them.\<close>

definition commit_from_parts ::
    "nat \<Rightarrow> string list \<Rightarrow> (log_error, GitCommit \<times> string) res" where
  "commit_from_parts partsPerCommit parts =
     (case parts of
        p0 # p1 # p2 # p3 # p4 # p5 # p6 # p7 # p8 # p9 # _ \<Rightarrow>
          (case parseTimeFromLogPart p3 of
             Inl e \<Rightarrow> Inl (Error (AuthorTimeError e))
           | Inr authorTime \<Rightarrow>
               (case parseTimeFromLogPart p6 of
                  Inl e \<Rightarrow> Inl (Error (CommitterTimeError e))
                | Inr committerTime \<Rightarrow>
                    bind_res (parseCommitFileNames partsPerCommit parts) (\<lambda>(fileNames, nextCommit).
                      let commit = \<lparr>gc_ID = TrimPrefix p0 [NL],
                            gc_Author = \<lparr>sig_Name = p1, sig_Email = p2, sig_Date = authorTime\<rparr>,
                            gc_Committer = Some \<lparr>sig_Name = p4, sig_Email = p5,
                              sig_Date = committerTime\<rparr>,
                            gc_Subject = p7, gc_Body = p8, gc_Parents = parse_parents p9,
                            gc_Files = fileNames\<rparr>;
                          rest = (if length parts = partsPerCommit + 1
                            then (if nextCommit \<noteq> [] then nextCommit @ NUL # last parts
                                  else last parts)
                            else [])
                      in Inr (commit, rest))))
      | _ \<Rightarrow> Inl (Panic IndexOutOfRange))"

definition parseNextCommitFromLog ::
    "string \<Rightarrow> nat \<Rightarrow> (log_error, GitCommit \<times> string) res" where
  "parseNextCommitFromLog rawLog partsPerCommit =
     (let parts = splitn_on (partsPerCommit + 1) NUL rawLog in
      if length parts < partsPerCommit then Inl (Error (InvalidLogEntry parts))
      else commit_from_parts partsPerCommit parts)"

section \<open>The loop ends\<close>

text \<open>What is left of the log after a commit is shorter than before.\<close>

lemma join_length: "xs \<noteq> [] \<Longrightarrow> length (join [c] xs) + 1 = sum_list (map length xs) + length xs"
  by (induction xs rule: induct_list012) auto

lemma length_TrimPrefix: "length (TrimPrefix s p) \<le> length s"
  by (simp add: TrimPrefix_def)

lemma length_last_split_on: "length (last (split_on c s)) \<le> length s"
proof -
  have "length (last (split_on c s)) \<le> sum_list (map length (split_on c s))"
    by (rule member_le_sum_list) auto
  also have "\<dots> \<le> length s"
    using join_length[of "split_on c s" c] by (simp add: join_split_on length_split_on)
  finally show ?thesis .
qed

lemma parseCommitFileNames_length:
  assumes "parseCommitFileNames n parts = Inr (names, nextc)"
  shows "n \<noteq> 11 \<Longrightarrow> nextc = []"
    and "n = 11 \<Longrightarrow> 10 < length parts \<and> length nextc \<le> length (parts ! 10)"
  using assms length_last_split_on[of NL "TrimPrefix (parts ! 10) [NL]"]
    length_TrimPrefix[of "parts ! 10" "[NL]"]
  by (auto simp: parseCommitFileNames_def go_index_def Let_def split: if_splits)

lemma commit_from_parts_shorter:
  assumes "commit_from_parts n parts = Inr (c, rest)" "n = 10 \<or> n = 11"
    "n \<le> length parts" "length parts \<le> n + 1"
  shows "length rest + 2 \<le> sum_list (map length parts) + length parts"
proof -
  obtain p0 p1 p2 p3 p4 p5 p6 p7 p8 p9 ps names nextc where
    parts: "parts = p0 # p1 # p2 # p3 # p4 # p5 # p6 # p7 # p8 # p9 # ps"
    and names: "parseCommitFileNames n parts = Inr (names, nextc)"
    and rest: "rest = (if length parts = n + 1
      then (if nextc \<noteq> [] then nextc @ NUL # last parts else last parts) else [])"
    using assms(1) by (auto simp: commit_from_parts_def Let_def res_simps
        split: list.splits sum.splits)
  note fn = parseCommitFileNames_length[OF names]
  consider "length parts \<noteq> n + 1" | x where "n = 10" "ps = [x]" | x y where "n = 11" "ps = [x, y]"
    using assms(2,3,4) parts
    by (cases ps; cases "tl ps"; cases "tl (tl ps)") auto
  then show ?thesis
  proof cases
    case (3 x y)
    then have "length nextc \<le> length x" using fn(2) parts by simp
    with 3 show ?thesis using rest parts by (simp split: if_splits)
  qed (use rest parts fn in simp_all)
qed

lemma parseNextCommitFromLog_shorter:
  assumes "parseNextCommitFromLog raw n = Inr (c, rest)" "n = 10 \<or> n = 11"
  shows "length rest < length raw"
proof -
  let ?parts = "splitn_on (n + 1) NUL raw"
  have "length raw + 1 = sum_list (map length ?parts) + length ?parts"
    using join_length[of ?parts NUL] join_splitn_on[of "n + 1" NUL raw]
    by (simp add: splitn_on_neq_Nil)
  moreover have "length rest + 2 \<le> sum_list (map length ?parts) + length ?parts"
    using assms length_splitn_on[of "n + 1" NUL raw]
    by (intro commit_from_parts_shorter[of n ?parts c])
      (auto simp: parseNextCommitFromLog_def Let_def split: if_splits)
  ultimately show ?thesis by simp
qed

text \<open>
  The loop of \<^verbatim>\<open>parseCommitLogOutput\<close>, with the step it repeats: no record once the log is
  empty.
\<close>

definition parts_per_commit :: "bool \<Rightarrow> nat" where
  "parts_per_commit nameOnly =
     (if nameOnly then partsPerCommitWithFileNames else partsPerCommitBasic)"

definition log_step :: "bool \<Rightarrow> string \<Rightarrow> (log_error, GitCommit option \<times> string) res" where
  "log_step nameOnly rawLog =
     (if rawLog = [] then Inr (None, [])
      else bind_res (parseNextCommitFromLog rawLog (parts_per_commit nameOnly))
        (\<lambda>(commit, rest). Inr (Some commit, rest)))"

lemma log_step_shorter: "log_step nm raw = Inr (Some c, rest) \<Longrightarrow> length rest < length raw"
  by (auto simp: log_step_def res_simps parts_per_commit_def split: if_splits
      intro: parseNextCommitFromLog_shorter)

function parseCommitLogOutput :: "bool \<Rightarrow> string \<Rightarrow> (log_error, GitCommit list) res" where
  "parseCommitLogOutput nameOnly rawLog =
     (case log_step nameOnly rawLog of
        Inl e \<Rightarrow> Inl e
      | Inr (None, rest) \<Rightarrow> Inr []
      | Inr (Some commit, rest) \<Rightarrow>
          bind_res (parseCommitLogOutput nameOnly rest) (\<lambda>commits. Inr (commit # commits)))"
  by pat_completeness auto
termination
  by (relation "measure (length \<circ> snd)") (auto dest: log_step_shorter)

declare parseCommitLogOutput.simps [simp del]

section \<open>Logs read back\<close>

text \<open>
  What \<^verbatim>\<open>git log\<close> prints with the format of \<^verbatim>\<open>logFormatWithoutRefs\<close>: ten fields, each
  ended by a NUL; with \<^verbatim>\<open>--name-only\<close> an empty line's newline and one name per line where
  the commit changed files; and a newline between two commits.
\<close>

definition signature_fields :: "Signature \<Rightarrow> string list" where
  "signature_fields s = [sig_Name s, sig_Email s, string_of_int (sig_Date s)]"

definition commit_fields :: "GitCommit \<Rightarrow> string list" where
  "commit_fields c = gc_ID c # signature_fields (gc_Author c)
     @ signature_fields (the (gc_Committer c))
     @ [gc_Subject c, gc_Body c, join '' '' (gc_Parents c)]"

definition commit_entry :: "GitCommit \<Rightarrow> string" where
  "commit_entry c = terminated NUL (commit_fields c)"

definition files_block :: "GitCommit \<Rightarrow> string" where
  "files_block c = (if gc_Files c = [] then [] else NL # terminated NL (gc_Files c))"

definition commit_printed :: "bool \<Rightarrow> GitCommit \<Rightarrow> string" where
  "commit_printed nameOnly c = commit_entry c @ (if nameOnly then files_block c else [])"

definition log_printed :: "bool \<Rightarrow> GitCommit list \<Rightarrow> string" where
  "log_printed nameOnly cs = join [NL] (map (commit_printed nameOnly) cs)"

text \<open>A commit as git can print it: no field holds a NUL, hashes and file names are plain.\<close>

definition int64_range :: "int \<Rightarrow> bool" where
  "int64_range i \<longleftrightarrow> - (2 ^ 63) \<le> i \<and> i < 2 ^ 63"

definition plain_id :: "string \<Rightarrow> bool" where
  "plain_id s \<longleftrightarrow> s \<noteq> [] \<and> NUL \<notin> set s \<and> NL \<notin> set s \<and> CHR '' '' \<notin> set s"

definition signature_fine :: "Signature \<Rightarrow> bool" where
  "signature_fine s \<longleftrightarrow> NUL \<notin> set (sig_Name s) \<and> NUL \<notin> set (sig_Email s) \<and> int64_range (sig_Date s)"

definition commit_fine :: "GitCommit \<Rightarrow> bool" where
  "commit_fine c \<longleftrightarrow> plain_id (gc_ID c) \<and> signature_fine (gc_Author c)
     \<and> (case gc_Committer c of None \<Rightarrow> False | Some s \<Rightarrow> signature_fine s)
     \<and> NUL \<notin> set (gc_Subject c) \<and> NUL \<notin> set (gc_Body c) \<and> list_all plain_id (gc_Parents c)
     \<and> list_all (\<lambda>f. f \<noteq> [] \<and> NUL \<notin> set f \<and> NL \<notin> set f) (gc_Files c)"

definition commit_meaning :: "bool \<Rightarrow> GitCommit \<Rightarrow> GitCommit" where
  "commit_meaning nameOnly c = (if nameOnly then c else c\<lparr>gc_Files := []\<rparr>)"

text \<open>The log between two commits: without file names it still has the newline.\<close>

definition log_state :: "bool \<Rightarrow> GitCommit list \<Rightarrow> string" where
  "log_state nameOnly cs =
     (if nameOnly then log_printed True cs else concat (map (\<lambda>c. NL # commit_entry c) cs))"

lemma string_of_int_avoids: "\<not> is_digit c \<Longrightarrow> c \<noteq> CHR ''-'' \<Longrightarrow> c \<notin> set (string_of_int i)"
  by (simp add: string_of_int_def string_of_nat_avoids)

lemma parseTime_string_of_int: "int64_range i \<Longrightarrow> parseTimeFromLogPart (string_of_int i) = Inr i"
  by (simp add: parseTimeFromLogPart_def int64_range_def ParseInt_string_of_int)

lemma set_join: "set (join sep xs) \<subseteq> set sep \<union> \<Union> (set ` set xs)"
  by (induction xs rule: induct_list012) auto

lemma parse_parents_join: "list_all plain_id ps \<Longrightarrow> parse_parents (join '' '' ps) = ps"
proof (cases ps)
  case (Cons p qs)
  assume "list_all plain_id ps"
  then have "join '' '' ps \<noteq> []"
    using Cons by (cases qs) (auto simp: plain_id_def)
  with \<open>list_all plain_id ps\<close> Cons show ?thesis
    using split_on_join[of ps "CHR '' ''"] by (auto simp: parse_parents_def list_all_iff plain_id_def)
qed (simp add: parse_parents_def)

lemma commit_fields_no_NUL: "commit_fine c \<Longrightarrow> list_all (\<lambda>f. NUL \<notin> set f) (commit_fields c)"
  using set_join[of "'' ''" "gc_Parents c"]
  by (auto simp: commit_fine_def commit_fields_def signature_fields_def signature_fine_def
      plain_id_def string_of_int_avoids list_all_iff split: option.splits)

lemma length_commit_fields [simp]: "length (commit_fields c) = 10"
  by (simp add: commit_fields_def signature_fields_def)

lemma splitn_on_commit_entry:
  assumes "commit_fine c"
  shows "splitn_on (Suc 10 + k) NUL (commit_entry c @ rest) =
    commit_fields c @ splitn_on (Suc k) NUL rest"
  using splitn_on_terminated[OF commit_fields_no_NUL[OF assms], of k rest]
  by (simp add: commit_entry_def)

lemma file_names_block:
  assumes "commit_fine c" "NL \<notin> set nextc"
  shows "split_on NL (TrimPrefix (files_block c @ NL # nextc) [NL]) =
    gc_Files c @ (if gc_Files c = [] then [nextc] else [[], nextc])"
  using assms split_on_terminated[of NL "gc_Files c" "NL # nextc"]
  by (auto simp: files_block_def commit_fine_def TrimPrefix_def split_on_no_sep list_all_iff)

text \<open>Parts that begin with the ten fields of a commit, the first with or without a newline.\<close>

lemma TrimPrefix_id: "NL \<notin> set s \<Longrightarrow> pre = [] \<or> pre = [NL] \<Longrightarrow> TrimPrefix (pre @ s) [NL] = s"
  by (cases s) (auto simp: TrimPrefix_def)

lemma commit_from_parts_fields:
  assumes "commit_fine c" "pre = [] \<or> pre = [NL]"
    and "parts = (pre @ gc_ID c) # tl (commit_fields c) @ ps"
    and "parseCommitFileNames n parts = Inr (names, nextc)"
  shows "commit_from_parts n parts = Inr (c\<lparr>gc_Files := names\<rparr>,
    if length parts = n + 1 then (if nextc \<noteq> [] then nextc @ NUL # last parts else last parts) else [])"
proof -
  obtain s where s: "gc_Committer c = Some s" "signature_fine s"
    using assms(1) by (auto simp: commit_fine_def split: option.splits)
  have parts: "parts = (pre @ gc_ID c) # sig_Name (gc_Author c) # sig_Email (gc_Author c)
      # string_of_int (sig_Date (gc_Author c)) # sig_Name s # sig_Email s
      # string_of_int (sig_Date s) # gc_Subject c # gc_Body c # join '' '' (gc_Parents c) # ps"
    using assms(3) s by (simp add: commit_fields_def signature_fields_def)
  have "TrimPrefix (pre @ gc_ID c) [NL] = gc_ID c"
    using assms(1,2) by (intro TrimPrefix_id) (simp_all add: commit_fine_def plain_id_def)
  moreover have "parse_parents (join '' '' (gc_Parents c)) = gc_Parents c"
    using assms(1) by (simp add: commit_fine_def parse_parents_join)
  moreover have "int64_range (sig_Date (gc_Author c))" "int64_range (sig_Date s)"
    using assms(1) s by (simp_all add: commit_fine_def signature_fine_def)
  ultimately show ?thesis
    using assms(4) unfolding parts
    by (simp add: commit_from_parts_def parseTime_string_of_int s)
qed

lemma commit_entry_neq_Nil [simp]: "commit_entry c \<noteq> []"
  by (simp add: commit_entry_def commit_fields_def)

lemma log_step_basic:
  assumes "commit_fine c" "pre = [] \<or> pre = [NL]"
  shows "log_step False (pre @ commit_entry c @ rest) = Inr (Some (commit_meaning False c), rest)"
proof -
  let ?fs = "(pre @ gc_ID c) # tl (commit_fields c)"
  have entry: "pre @ commit_entry c = terminated NUL ?fs"
    by (simp add: commit_entry_def commit_fields_def)
  have len: "length ?fs = 10" by simp
  have "list_all (\<lambda>f. NUL \<notin> set f) ?fs"
    using commit_fields_no_NUL[OF assms(1)] assms(2) by (auto simp: commit_fields_def)
  from splitn_on_terminated[OF this, of 0 rest]
  have parts: "splitn_on 11 NUL (pre @ commit_entry c @ rest) = ?fs @ [rest]"
    unfolding len entry[symmetric] by simp
  have "commit_from_parts 10 (?fs @ [rest]) = Inr (commit_meaning False c, rest)"
    using commit_from_parts_fields[OF assms, of "?fs @ [rest]" "[rest]" 10 "[]" "[]"]
    by (simp add: parseCommitFileNames_def commit_meaning_def)
  with parts show ?thesis
    by (simp add: log_step_def parts_per_commit_def parseNextCommitFromLog_def)
qed

lemma commit_entry_split:
  "commit_entry c = gc_ID c @ NUL # terminated NUL (tl (commit_fields c))"
  by (simp add: commit_entry_def commit_fields_def)

lemma names_log_split:
  assumes "commit_fine c" "list_all commit_fine cs"
  shows "splitn_on 12 NUL (log_printed True (c # cs)) = commit_fields c @
    (case cs of [] \<Rightarrow> [files_block c]
     | d # ds \<Rightarrow> [files_block c @ NL # gc_ID d,
         drop (length (gc_ID d) + 1) (log_printed True cs)])"
proof (cases cs)
  case Nil
  have "NUL \<notin> set (files_block c)"
    using assms(1) by (auto simp: files_block_def terminated_def commit_fine_def list_all_iff)
  then show ?thesis
    using splitn_on_commit_entry[OF assms(1), of 1 "files_block c"] Nil
    by (simp add: log_printed_def commit_printed_def splitn_on_no_sep)
next
  case (Cons d ds)
  define more where "more = drop (length (gc_ID d) + 1) (log_printed True cs)"
  have d: "log_printed True cs = gc_ID d @ NUL # more"
    using Cons by (cases ds) (simp_all add: more_def log_printed_def commit_printed_def commit_entry_split)
  have "NUL \<notin> set (files_block c @ NL # gc_ID d)"
    using assms Cons
    by (auto simp: files_block_def terminated_def commit_fine_def list_all_iff plain_id_def)
  then have "splitn_on 2 NUL ((files_block c @ NL # gc_ID d) @ NUL # more) =
      [files_block c @ NL # gc_ID d, more]"
    using splitn_on_append[of NUL _ 0] by (simp add: numeral_2_eq_2 del: append_assoc)
  moreover have "log_printed True (c # cs) =
      commit_entry c @ (files_block c @ NL # gc_ID d) @ NUL # more"
    using d Cons by (simp add: log_printed_def commit_printed_def)
  ultimately show ?thesis
    using splitn_on_commit_entry[OF assms(1), of 1] Cons
    by (simp add: more_def numeral_2_eq_2)
qed

lemma parseCommitFileNames_block:
  assumes "commit_fine c" "length fs = 10" "NL \<notin> set nextc"
  shows "parseCommitFileNames 11 (fs @ (files_block c @ NL # nextc) # ps) = Inr (gc_Files c, nextc)"
proof -
  have "filter (\<lambda>name. name \<noteq> []) (gc_Files c) = gc_Files c"
    using assms(1) by (auto simp: commit_fine_def list_all_iff filter_id_conv)
  then show ?thesis
    using assms file_names_block[OF assms(1,3)]
    by (auto simp: parseCommitFileNames_def nth_append butlast_append)
qed

lemma parseCommitFileNames_last:
  assumes "commit_fine c" "length fs = 10"
  shows "parseCommitFileNames 11 (fs @ [files_block c]) = Inr (gc_Files c, [])"
proof -
  have "filter (\<lambda>name. name \<noteq> []) (gc_Files c) = gc_Files c"
    using assms(1) by (auto simp: commit_fine_def list_all_iff filter_id_conv)
  moreover have "split_on NL (TrimPrefix (files_block c) [NL]) = gc_Files c @ [[]]"
    using assms split_on_terminated[of NL "gc_Files c" "[]"]
    by (auto simp: files_block_def commit_fine_def TrimPrefix_def list_all_iff)
  ultimately show ?thesis
    using assms by (auto simp: parseCommitFileNames_def nth_append)
qed

lemma log_step_names:
  assumes "commit_fine c" "list_all commit_fine cs"
  shows "log_step True (log_printed True (c # cs)) = Inr (Some c, log_printed True cs)"
proof -
  note split = names_log_split[OF assms]
  have fields: "commit_fields c = ([] @ gc_ID c) # tl (commit_fields c)"
    by (simp add: commit_fields_def)
  have ne: "log_printed True (c # cs) \<noteq> []"
    by (cases cs) (simp_all add: log_printed_def commit_printed_def)
  show ?thesis
  proof (cases cs)
    case Nil
    let ?parts = "commit_fields c @ [files_block c]"
    have "parseCommitFileNames 11 ?parts = Inr (gc_Files c, [])"
      using assms(1) by (simp add: parseCommitFileNames_last)
    from commit_from_parts_fields[OF assms(1) disjI1[OF refl] _ this, of "[files_block c]"]
    have "commit_from_parts 11 ?parts = Inr (c, [])" using fields by simp
    with Nil split ne show ?thesis
      by (simp add: log_step_def parts_per_commit_def parseNextCommitFromLog_def log_printed_def)
  next
    case (Cons d ds)
    let ?rest = "drop (length (gc_ID d) + 1) (log_printed True cs)"
    let ?ps = "[files_block c @ NL # gc_ID d, ?rest]"
    have d: "NL \<notin> set (gc_ID d)" "gc_ID d \<noteq> []"
      using assms(2) Cons by (simp_all add: commit_fine_def plain_id_def)
    have "log_printed True cs = gc_ID d @ NUL # ?rest"
      using Cons by (cases ds) (simp_all add: log_printed_def commit_printed_def commit_entry_split)
    moreover have "parseCommitFileNames 11 (commit_fields c @ ?ps) = Inr (gc_Files c, gc_ID d)"
      using assms(1) d by (simp add: parseCommitFileNames_block)
    from commit_from_parts_fields[OF assms(1) disjI1[OF refl] _ this, of ?ps]
    have "commit_from_parts 11 (commit_fields c @ ?ps) = Inr (c, gc_ID d @ NUL # ?rest)"
      using fields d by simp
    ultimately show ?thesis
      using Cons split ne
      by (simp add: log_step_def parts_per_commit_def parseNextCommitFromLog_def)
  qed
qed

interpretation commits: record_stream "log_step nameOnly" "parseCommitLogOutput nameOnly"
  "log_state nameOnly" "commit_meaning nameOnly" commit_fine for nameOnly
proof unfold_locales
  show "parseCommitLogOutput nameOnly s = (case log_step nameOnly s of
         Inl e \<Rightarrow> Inl e
       | Inr (None, s') \<Rightarrow> Inr []
       | Inr (Some a, s') \<Rightarrow> bind_res (parseCommitLogOutput nameOnly s') (\<lambda>as. Inr (a # as)))"
    for s by (rule parseCommitLogOutput.simps)
  show "\<exists>s'. log_step nameOnly (log_state nameOnly []) = Inr (None, s')"
    by (simp add: log_step_def log_state_def log_printed_def)
  show "log_step nameOnly (log_state nameOnly (c # cs)) =
      Inr (Some (commit_meaning nameOnly c), log_state nameOnly cs)"
    if "commit_fine c" "list_all commit_fine cs" for c cs
    using that log_step_basic[of c "[NL]"]
    by (cases nameOnly) (simp_all add: log_state_def log_step_names commit_meaning_def)
qed

lemma log_printed_state:
  "log_printed False (c # cs) = commit_entry c @ log_state False cs"
  by (induction cs arbitrary: c) (simp_all add: log_printed_def log_state_def commit_printed_def)

lemma parse_log_printed:
  assumes "list_all commit_fine cs"
  shows "parseCommitLogOutput nameOnly (log_printed nameOnly cs) =
    Inr (map (commit_meaning nameOnly) cs)"
proof (cases "nameOnly \<or> cs = []")
  case True
  then have "log_printed nameOnly cs = log_state nameOnly cs"
    by (auto simp: log_state_def log_printed_def)
  then show ?thesis using commits.read_all_render[OF assms] by simp
next
  case False
  then obtain d ds where cs: "cs = d # ds" "\<not> nameOnly" by (cases cs) auto
  with assms have "log_step False (log_printed False cs) =
      log_step False (log_state False cs)"
    using log_step_basic[of d "[]"] log_step_basic[of d "[NL]"]
    by (simp add: log_printed_state) (simp add: log_state_def)
  then have "parseCommitLogOutput False (log_printed False cs) =
      parseCommitLogOutput False (log_state False cs)"
    by (subst (1 2) parseCommitLogOutput.simps) simp
  then show ?thesis using commits.read_all_render[OF assms] cs by simp
qed

text \<open>
  C4. The log is read back: for commits whose fields hold no NUL, whose hashes are plain
  words and whose times fit in 64 bits, parsing what git prints for them returns the same
  commits in the same order, with the changed files where they were asked for.
\<close>

theorem parseCommitLogOutput_printed:
  assumes "list_all commit_fine cs"
  shows "parseCommitLogOutput nameOnly (log_printed nameOnly cs) =
    Inr (map (commit_meaning nameOnly) cs)"
  using assms by (rule parse_log_printed)

theorem parseCommitLogOutput_printed_witness:
  "let s = \<lparr>sig_Name = ''A B'', sig_Email = ''a@b'', sig_Date = 7\<rparr>;
       c = \<lparr>gc_ID = ''c0ffee'', gc_Author = s, gc_Committer = Some s, gc_Subject = ''x'',
         gc_Body = [CHR ''y'', NL], gc_Parents = [''dead'', ''beef''], gc_Files = [''f/g'', ''h'']\<rparr>;
       d = c\<lparr>gc_ID := ''dead'', gc_Parents := [], gc_Files := []\<rparr>
   in parseCommitLogOutput True (log_printed True [c, d, c]) = Inr [c, d, c]"
proof -
  define s where "s = \<lparr>sig_Name = ''A B'', sig_Email = ''a@b'', sig_Date = 7\<rparr>"
  define c where "c = \<lparr>gc_ID = ''c0ffee'', gc_Author = s, gc_Committer = Some s, gc_Subject = ''x'',
     gc_Body = [CHR ''y'', NL], gc_Parents = [''dead'', ''beef''], gc_Files = [''f/g'', ''h'']\<rparr>"
  define d where "d = c\<lparr>gc_ID := ''dead'', gc_Parents := [], gc_Files := []\<rparr>"
  have "list_all commit_fine [c, d, c]"
    by (simp add: c_def d_def s_def commit_fine_def signature_fine_def plain_id_def int64_range_def)
  from parseCommitLogOutput_printed[OF this, of True] show ?thesis
    by (simp add: commit_meaning_def Let_def c_def d_def s_def)
qed

lemma commit_from_parts_no_panic:
  assumes "n \<le> length parts" "n = 10 \<or> n = 11"
  shows "\<not> is_panic (commit_from_parts n parts)"
proof -
  have "10 \<le> length parts" using assms by auto
  then obtain p0 p1 p2 p3 p4 p5 p6 p7 p8 p9 ps where
    "parts = p0 # p1 # p2 # p3 # p4 # p5 # p6 # p7 # p8 # p9 # ps"
    by (auto simp: Suc_le_length_iff numeral_eq_Suc)
  with assms show ?thesis
    by (auto simp: commit_from_parts_def parseCommitFileNames_def Let_def res_simps
        split: sum.splits)
qed

text \<open>
  Whatever git prints, parsing the log ends without a panic: it returns commits or one
  of the three errors. (That the loop ends at all is the termination proof of the
  function: every commit that is read makes the rest shorter.)
\<close>

theorem parseCommitLogOutput_no_panic: "\<not> is_panic (parseCommitLogOutput nameOnly raw)"
proof (induction nameOnly raw rule: parseCommitLogOutput.induct)
  case (1 nameOnly raw)
  have "\<not> is_panic (log_step nameOnly raw)"
    by (auto simp: log_step_def parseNextCommitFromLog_def Let_def res_simps not_less
        parts_per_commit_def commit_from_parts_no_panic)
  then show ?case
    using "1.IH"
    by (subst parseCommitLogOutput.simps)
      (cases "log_step nameOnly raw"; auto simp: res_simps split: option.splits)
qed

section \<open>Arguments of git log\<close>

text \<open>\<^verbatim>\<open>N\<close> and \<^verbatim>\<open>SkipN\<close> are Go \<^verbatim>\<open>uint\<close>s of 64 bits.\<close>

record CommitOptions =
  co_Range :: string
  co_N :: "64 word"
  co_SkipN :: "64 word"
  co_Path :: string
  co_Follow :: bool
  co_NoEnsureRevision :: bool
  co_NameOnly :: bool

definition ensureSafeSpecArg :: "string \<Rightarrow> log_error option" where
  "ensureSafeSpecArg spec = (if HasPrefix spec ''-'' then Some (UnsafeSpec spec) else None)"

definition genLogArgs :: "CommitOptions \<Rightarrow> string list \<Rightarrow> (log_error, string list) res" where
  "genLogArgs opts initialArgs =
     (case ensureSafeSpecArg (co_Range opts) of
        Some err \<Rightarrow> Inl (Error err)
      | None \<Rightarrow> Inr (initialArgs
          @ (if co_N opts \<noteq> 0 then [''-n'', string_of_nat (unat (co_N opts))] else [])
          @ (if co_SkipN opts \<noteq> 0 then [''--skip'', string_of_nat (unat (co_SkipN opts))] else [])
          @ (if co_Range opts \<noteq> [] then [co_Range opts] else [])
          @ (if co_NameOnly opts then [''--name-only''] else [])
          @ (if co_Follow opts then [''--follow''] else [])
          @ (if co_Path opts \<noteq> [] then [''--'', co_Path opts] else [])))"

definition logFormatWithoutRefs :: string where
  "logFormatWithoutRefs = ''--format=format:%H%x00%aN%x00%aE%x00%at%x00%cN%x00%cE%x00%ct%x00%s%x00%b%x00%P%x00''"

definition BuildGitLog ::
    "(string list \<Rightarrow> string + string) \<Rightarrow> CommitOptions \<Rightarrow> string \<Rightarrow> (log_error, GitLog) res" where
  "BuildGitLog git logArgs repoPath =
     bind_res (genLogArgs logArgs [''-C'', repoPath, ''log'', logFormatWithoutRefs]) (\<lambda>args.
       case git args of
         Inl err \<Rightarrow> Inl (Error (GitLogFailed err))
       | Inr out \<Rightarrow>
           bind_res (parseCommitLogOutput (co_NameOnly logArgs) out) (\<lambda>commits.
             Inr \<lparr>log_Commits = commits,
                  log_MaybeLastPage = int (length commits) < sint (co_N logArgs)\<rparr>))"

text \<open>
  No string a request controls reaches \<^verbatim>\<open>git log\<close> as an option: among the arguments
  after the fixed ones and up to \<^verbatim>\<open>--\<close>, those that begin with a dash are the four the code
  writes itself; a path always stands alone after \<^verbatim>\<open>--\<close>; and a range that begins with a
  dash is refused.
\<close>

theorem genLogArgs_no_injection:
  "(HasPrefix (co_Range opts) ''-'' \<and> genLogArgs opts fixed = Inl (Error (UnsafeSpec (co_Range opts))))
   \<or> (\<exists>own. genLogArgs opts fixed = Inr (fixed @ own @
           (if co_Path opts = [] then [] else [''--'', co_Path opts]))
        \<and> ''--'' \<notin> set own
        \<and> filter (\<lambda>a. HasPrefix a ''-'') own =
            (if co_N opts = 0 then [] else [''-n'']) @ (if co_SkipN opts = 0 then [] else [''--skip''])
            @ (if co_NameOnly opts then [''--name-only''] else [])
            @ (if co_Follow opts then [''--follow''] else []))"
proof (cases "HasPrefix (co_Range opts) ''-''")
  case True
  then show ?thesis by (simp add: genLogArgs_def ensureSafeSpecArg_def)
next
  case False
  have num: "\<not> HasPrefix (string_of_nat n) ''-''" "string_of_nat n \<noteq> ''--''"
    "''--'' \<noteq> string_of_nat n" for n
    using hd_string_of_nat[of n] by (cases "string_of_nat n"; auto)+
  have "co_Range opts \<noteq> ''--''" using False by auto
  with False num show ?thesis
    by (intro disjI2 exI[of _ "(if co_N opts \<noteq> 0 then [''-n'', string_of_nat (unat (co_N opts))] else [])
          @ (if co_SkipN opts \<noteq> 0 then [''--skip'', string_of_nat (unat (co_SkipN opts))] else [])
          @ (if co_Range opts \<noteq> [] then [co_Range opts] else [])
          @ (if co_NameOnly opts then [''--name-only''] else [])
          @ (if co_Follow opts then [''--follow''] else [])"])
      (auto simp: genLogArgs_def ensureSafeSpecArg_def)
qed

section \<open>Paging\<close>

text \<open>
  What \<^verbatim>\<open>git log -n N --skip S\<close> is documented to print: at most \<open>N\<close> commits of the
  history after the first \<open>S\<close>.
\<close>

definition prints_page ::
    "(string list \<Rightarrow> string + string) \<Rightarrow> CommitOptions \<Rightarrow> string \<Rightarrow> GitCommit list \<Rightarrow> bool" where
  "prints_page git opts repoPath history \<longleftrightarrow>
     (\<forall>args. genLogArgs opts [''-C'', repoPath, ''log'', logFormatWithoutRefs] = Inr args \<longrightarrow>
        git args = Inr (log_printed (co_NameOnly opts)
          (take (unat (co_N opts)) (drop (unat (co_SkipN opts)) history))))"

text \<open>
  Where git prints the page it is asked for, \<^verbatim>\<open>BuildGitLog\<close> returns exactly the
  commits of the page, and it marks a page as the last one only when no commit of the
  history comes after it: a reader who follows the pages misses none.
\<close>

theorem BuildGitLog_page:
  assumes "prints_page git opts repoPath history" "list_all commit_fine history"
    "\<not> HasPrefix (co_Range opts) ''-''" "0 < sint (co_N opts)"
  shows "\<exists>log. BuildGitLog git opts repoPath = Inr log \<and>
    log_Commits log = map (commit_meaning (co_NameOnly opts))
      (take (unat (co_N opts)) (drop (unat (co_SkipN opts)) history)) \<and>
    (log_MaybeLastPage log \<longleftrightarrow> length history < unat (co_SkipN opts) + unat (co_N opts)
       \<or> length history \<le> unat (co_SkipN opts))"
proof -
  let ?page = "take (unat (co_N opts)) (drop (unat (co_SkipN opts)) history)"
  obtain args where args: "genLogArgs opts [''-C'', repoPath, ''log'', logFormatWithoutRefs] = Inr args"
    using assms(3) by (simp add: genLogArgs_def ensureSafeSpecArg_def)
  have "list_all commit_fine ?page"
    using assms(2) by (auto simp: list_all_iff dest: in_set_takeD in_set_dropD)
  then have "parseCommitLogOutput (co_NameOnly opts) (log_printed (co_NameOnly opts) ?page) =
      Inr (map (commit_meaning (co_NameOnly opts)) ?page)"
    by (rule parse_log_printed)
  moreover obtain n where "unat (co_N opts) = n" "sint (co_N opts) = int n"
    using assms(4) sint_nonneg[of "co_N opts"] by simp
  ultimately show ?thesis
    using args assms(1,4) by (auto simp: BuildGitLog_def prints_page_def)
qed

theorem BuildGitLog_page_witness:
  "let s = \<lparr>sig_Name = ''A'', sig_Email = ''a@b'', sig_Date = 7\<rparr>;
       c = \<lparr>gc_ID = ''c0ffee'', gc_Author = s, gc_Committer = Some s, gc_Subject = ''x'',
         gc_Body = ''y'', gc_Parents = [''dead''], gc_Files = []\<rparr>;
       d = c\<lparr>gc_ID := ''dead'', gc_Parents := []\<rparr>;
       opts = \<lparr>co_Range = ''HEAD'', co_N = 1, co_SkipN = 1, co_Path = ''f'', co_Follow = False,
         co_NoEnsureRevision = False, co_NameOnly = False\<rparr>
   in \<exists>log. BuildGitLog (\<lambda>args. Inr (log_printed False [d])) opts ''r'' = Inr log
        \<and> log_Commits log = [d] \<and> \<not> log_MaybeLastPage log"
proof -
  define s where "s = \<lparr>sig_Name = ''A'', sig_Email = ''a@b'', sig_Date = 7\<rparr>"
  define c where "c = \<lparr>gc_ID = ''c0ffee'', gc_Author = s, gc_Committer = Some s,
    gc_Subject = ''x'', gc_Body = ''y'', gc_Parents = [''dead''], gc_Files = []\<rparr>"
  define d where "d = c\<lparr>gc_ID := ''dead'', gc_Parents := []\<rparr>"
  define opts where "opts = \<lparr>co_Range = ''HEAD'', co_N = 1, co_SkipN = 1, co_Path = ''f'',
    co_Follow = False, co_NoEnsureRevision = False, co_NameOnly = False\<rparr>"
  have "list_all commit_fine [c, d]"
    by (simp add: c_def d_def s_def commit_fine_def signature_fine_def plain_id_def int64_range_def)
  moreover have "prints_page (\<lambda>args. Inr (log_printed False [d])) opts ''r'' [c, d]"
    by (simp add: prints_page_def opts_def)
  ultimately show ?thesis
    using BuildGitLog_page[of "\<lambda>args. Inr (log_printed False [d])" opts "''r''" "[c, d]"]
    by (simp add: opts_def commit_meaning_def d_def c_def s_def)
qed

section \<open>The regular-expression log\<close>

record Commit =
  cm_Hash :: string
  cm_ShortHash :: string
  cm_ParentHashes :: "string list"
  cm_ParentShortHashes :: "string list"
  cm_AuthorName :: string
  cm_AuthorEmail :: string
  cm_Date :: string
  cm_Subject :: string
  cm_Body :: string

record SimpleGitLog =
  sgl_Commits :: "Commit list"
  sgl_MaybeLastPage :: bool
  sgl_IsPaginationReq :: bool
  sgl_NextParent :: string
  sgl_CommitLinkPrefix :: string
  sgl_Repo :: RepoConfig
  sgl_PathSegments :: "breadCrumbEntry list"
  sgl_Path :: string

text \<open>
  Matching \<^verbatim>\<open>gitLogRegex\<close> at the start of the input. Every group is followed by a byte it
  cannot hold, so the match is found by taking each group as long as it goes; the last
  group ends at the first NUL.
\<close>

definition gitLogRegex :: "string \<Rightarrow> (string list \<times> string) option" where
  "gitLogRegex s0 =
     Option.bind (after_lit ''commit'' s0) (\<lambda>s1. Option.bind (after_ws s1) (\<lambda>s2.
     let hash = takeWhile is_word s2 in
     Option.bind (after_ws (dropWhile is_word s2)) (\<lambda>s3.
     Option.bind (after_lit ''<'' s3) (\<lambda>s4.
     let short = takeWhile is_word s4 in
     Option.bind (after_lit (CHR ''>'' # NL # ''author'') (dropWhile is_word s4)) (\<lambda>s5.
     Option.bind (after_ws s5) (\<lambda>s6. Option.bind (after_lit ''<'' s6) (\<lambda>s7.
     Option.bind (Cut CHR ''>'' s7) (\<lambda>(name, s8).
     Option.bind (after_ws s8) (\<lambda>s9. Option.bind (after_lit ''<'' s9) (\<lambda>s10.
     Option.bind (Cut CHR ''>'' s10) (\<lambda>(email, s11).
     Option.bind (after_lit (NL # ''subject'') s11) (\<lambda>s12. Option.bind (after_ws s12) (\<lambda>s13.
     Option.bind (Cut NL s13) (\<lambda>(subj, s14).
     Option.bind (after_lit ''date'' s14) (\<lambda>s15. Option.bind (after_ws s15) (\<lambda>s16.
     Option.bind (Cut NL s16) (\<lambda>(date, s17).
     Option.bind (after_lit ''body'' s17) (\<lambda>s18. Option.bind (after_ws s18) (\<lambda>s19.
     Option.bind (Cut NUL s19) (\<lambda>(body, s20).
       Some ([hash, short, name, email, subj, date, body], s20)))))))))))))))))))))"

lemma gitLogRegex_suffix: "gitLogRegex s = Some (g, rest) \<Longrightarrow> suffix (NUL # rest) s"
  by (auto simp: gitLogRegex_def Let_def Option.bind_eq_Some_conv
      dest!: after_lit_SomeD after_ws_SomeD Cut_SomeD dropWhile_ConsD
      intro!: suffix_appendI suffix_ConsI)

lemma gitLogRegex_shorter: "gitLogRegex s = Some (g, rest) \<Longrightarrow> length rest < length s"
  by (auto dest!: gitLogRegex_suffix suffix_length_le)

text \<open>\<^verbatim>\<open>FindAllSubmatch(out, -1)\<close>: the matches from left to right that do not overlap.\<close>

function find_all_log :: "string \<Rightarrow> string list list" where
  "find_all_log s =
     (case gitLogRegex s of
        Some (groups, rest) \<Rightarrow> groups # find_all_log rest
      | None \<Rightarrow> (case s of [] \<Rightarrow> [] | _ # t \<Rightarrow> find_all_log t))"
  by pat_completeness auto
termination
  by (relation "measure length") (auto dest: gitLogRegex_shorter)

declare find_all_log.simps [simp del]

definition commit_of_match :: "string list \<Rightarrow> Commit" where
  "commit_of_match m =
     \<lparr>cm_Hash = m ! 0, cm_ShortHash = m ! 1, cm_ParentHashes = [], cm_ParentShortHashes = [],
      cm_AuthorName = m ! 2, cm_AuthorEmail = m ! 3, cm_Date = m ! 5, cm_Subject = m ! 4,
      cm_Body = m ! 6\<rparr>"

definition customGitLogFormat :: string where
  "customGitLogFormat =
     ''format:commit %H <%h>%nauthor <%an> <%ae>%nsubject %s%ndate %ah%nbody %b''"

definition BuildSimpleGitLogData ::
    "(string list \<Rightarrow> string + string) \<Rightarrow> string \<Rightarrow> string \<Rightarrow> RepoConfig
     \<Rightarrow> (log_error, SimpleGitLog) res" where
  "BuildSimpleGitLogData git relativePath firstParent repo =
     (let cleanPath = path_Clean relativePath in
      case git [''-C'', rc_Path repo, ''log'', ''-n'', ''1000'', ''-z'', ''--no-abbrev'',
          ''--pretty='' @ customGitLogFormat, firstParent, ''--'', cleanPath] of
        Inl err \<Rightarrow> Inl (Error (GitLogFailed err))
      | Inr out \<Rightarrow>
          let commits = map commit_of_match (find_all_log out) in
          Inr \<lparr>sgl_Commits = commits,
               sgl_MaybeLastPage = length commits < 1000,
               sgl_IsPaginationReq = (firstParent \<noteq> ''HEAD''),
               sgl_NextParent = (if commits = [] then [] else cm_Hash (last commits)),
               sgl_CommitLinkPrefix = [],
               sgl_Repo = repo,
               sgl_PathSegments = getPathSegments (split_on CHR ''/'' cleanPath) repo,
               sgl_Path = cleanPath\<rparr>)"

text \<open>
  What git prints with \<^verbatim>\<open>customGitLogFormat\<close> for a commit. The \<^verbatim>\<open>format:\<close> form separates
  the commits, with \<^verbatim>\<open>-z\<close> by a NUL, and does not end the last one.
\<close>

definition simple_entry :: "Commit \<Rightarrow> string" where
  "simple_entry c =
     ''commit '' @ cm_Hash c @ '' <'' @ cm_ShortHash c @ CHR ''>'' # NL # ''author <''
     @ cm_AuthorName c @ ''> <'' @ cm_AuthorEmail c @ CHR ''>'' # NL # ''subject ''
     @ cm_Subject c @ NL # ''date '' @ cm_Date c @ NL # ''body '' @ cm_Body c"

definition simple_fine :: "Commit \<Rightarrow> bool" where
  "simple_fine c \<longleftrightarrow>
     list_all is_word (cm_Hash c) \<and> list_all is_word (cm_ShortHash c) \<and>
     CHR ''>'' \<notin> set (cm_AuthorName c) \<and> CHR ''>'' \<notin> set (cm_AuthorEmail c) \<and>
     NL \<notin> set (cm_Subject c) \<and> NL \<notin> set (cm_Date c) \<and>
     NUL \<notin> set (simple_entry c) \<and> cm_ParentHashes c = [] \<and> cm_ParentShortHashes c = []"

lemma gitLogRegex_entry:
  assumes "simple_fine c"
  shows "gitLogRegex (simple_entry c @ NUL # rest) =
    Some ([cm_Hash c, cm_ShortHash c, cm_AuthorName c, cm_AuthorEmail c, cm_Subject c,
           cm_Date c, cm_Body c], rest)"
proof -
  have "NUL \<notin> set (cm_Body c)" using assms by (simp add: simple_fine_def simple_entry_def)
  moreover have "\<not> is_word CHR '' ''" "\<not> is_word CHR ''>''" by (simp_all add: is_word_def is_digit_def)
  ultimately show ?thesis
    using assms
    by (simp add: gitLogRegex_def simple_entry_def simple_fine_def word_span Cut_append
        after_lit_def after_ws_def is_ws_def)
qed

lemma gitLogRegex_needs_NUL: "NUL \<notin> set s \<Longrightarrow> gitLogRegex s = None"
  by (cases "gitLogRegex s") (auto dest!: gitLogRegex_suffix set_mono_suffix)

lemma find_all_log_unterminated: "NUL \<notin> set s \<Longrightarrow> find_all_log s = []"
  by (induction s) (simp_all add: find_all_log.simps gitLogRegex_needs_NUL)

lemma find_all_log_entries:
  assumes "list_all simple_fine (cs @ [c])"
  shows "map commit_of_match (find_all_log (join [NUL] (map simple_entry (cs @ [c])))) = cs"
  using assms
proof (induction cs)
  case Nil
  then show ?case by (simp add: find_all_log_unterminated simple_fine_def)
next
  case (Cons d cs)
  have "join [NUL] (map simple_entry ((d # cs) @ [c])) =
      simple_entry d @ NUL # join [NUL] (map simple_entry (cs @ [c]))"
    by (simp add: join_Cons_ne)
  with Cons show ?case
    by (subst find_all_log.simps)
      (simp add: gitLogRegex_entry, simp add: commit_of_match_def simple_fine_def)
qed

text \<open>
  The regular-expression log loses the oldest commit of every page: it asks for a NUL
  after each commit, and git puts NULs only between commits. So a file touched by one
  commit has an empty log.
\<close>

theorem BuildSimpleGitLogData_drops_last:
  assumes "list_all simple_fine (cs @ [c])"
  shows "\<exists>log. BuildSimpleGitLogData (\<lambda>_. Inr (join [NUL] (map simple_entry (cs @ [c]))))
      relativePath firstParent repo = Inr log \<and> sgl_Commits log = cs"
  using find_all_log_entries[OF assms] by (simp add: BuildSimpleGitLogData_def Let_def)

theorem BuildSimpleGitLogData_drops_last_witness:
  "let c = \<lparr>cm_Hash = ''c0ffee'', cm_ShortHash = ''c0f'', cm_ParentHashes = [],
       cm_ParentShortHashes = [], cm_AuthorName = ''A B'', cm_AuthorEmail = ''a@b'',
       cm_Date = ''today'', cm_Subject = ''x y'', cm_Body = [CHR ''z'', NL]\<rparr>;
     repo = \<lparr>rc_Path = ''/r'', rc_Name = ''r'', rc_Revisions = [], rc_Metadata = Map.empty,
       rc_WalkSubmodules = False\<rparr>
   in \<exists>log. BuildSimpleGitLogData (\<lambda>_. Inr (join [NUL] (map simple_entry [c])))
        ''f'' ''HEAD'' repo = Inr log \<and> sgl_Commits log = []"
proof -
  define c where "c = \<lparr>cm_Hash = ''c0ffee'', cm_ShortHash = ''c0f'', cm_ParentHashes = [],
       cm_ParentShortHashes = [], cm_AuthorName = ''A B'', cm_AuthorEmail = ''a@b'',
       cm_Date = ''today'', cm_Subject = ''x y'', cm_Body = [CHR ''z'', NL]\<rparr>"
  have "list_all simple_fine ([] @ [c])"
    by (simp add: c_def simple_fine_def simple_entry_def is_word_def is_digit_def)
  from BuildSimpleGitLogData_drops_last[OF this] show ?thesis
    by (simp add: Let_def c_def)
qed

end
