(* ===== verification/GitShow.thy ===== *)
theory GitShow
  imports GitLog
begin

text \<open>
  One commit in detail, \<^verbatim>\<open>GitShowCommit\<close> of \<^verbatim>\<open>server/fileviewer/fileview.go\<close>: the scanner
  that cuts the output of \<^verbatim>\<open>git show -z\<close> at NUL bytes while it is still being read, the
  fields of the commit, the table of changed files, and the diffs.
\<close>

section \<open>The scanner\<close>

text \<open>
  \<^verbatim>\<open>ScanGitShowEntry\<close>: how far to advance, and the token if there is one. It asks for more
  data by advancing by nothing.
\<close>

definition ScanGitShowEntry :: "string \<Rightarrow> bool \<Rightarrow> nat \<times> string option" where
  "ScanGitShowEntry data atEOF =
     (if atEOF \<and> data = [] then (0, None)
      else case index_opt data [NUL] of
          Some i \<Rightarrow> (i + 1, Some (dropCR (take i data)))
        | None \<Rightarrow> if atEOF then (length data, Some (dropCR data)) else (0, None))"

text \<open>
  The \<^verbatim>\<open>bufio.Scanner\<close> around it: the data not yet cut, what the pipe will still deliver, in
  the pieces in which it arrives, and whether the end or an error has been met. A buffer full
  without a token is an error; like the end of the input it makes the next call cut off what
  is there.
\<close>

record scanner =
  sc_data :: string
  sc_input :: "string list"
  sc_err :: bool

definition scan_cut :: "scanner \<Rightarrow> nat \<times> string option" where
  "scan_cut sc =
     (if sc_data sc \<noteq> [] \<or> sc_err sc then ScanGitShowEntry (sc_data sc) (sc_err sc) else (0, None))"

text \<open>One read into the free part of the buffer.\<close>

definition scan_fill :: "nat \<Rightarrow> scanner \<Rightarrow> scanner" where
  "scan_fill cap sc =
     (case sc_input sc of
        [] \<Rightarrow> sc\<lparr>sc_err := True\<rparr>
      | piece # others \<Rightarrow>
          let n = min (length piece) (cap - length (sc_data sc))
          in sc\<lparr>sc_data := sc_data sc @ take n piece,
                sc_input := (if n < length piece then drop n piece # others else others)\<rparr>)"

function Scan :: "nat \<Rightarrow> scanner \<Rightarrow> string option \<times> scanner" where
  "Scan cap sc =
     (case scan_cut sc of
        (advance, Some token) \<Rightarrow> (Some token, sc\<lparr>sc_data := drop advance (sc_data sc)\<rparr>)
      | (_, None) \<Rightarrow>
          if sc_err sc then (None, sc\<lparr>sc_data := []\<rparr>)
          else if cap \<le> length (sc_data sc) then (None, sc\<lparr>sc_err := True\<rparr>)
          else Scan cap (scan_fill cap sc))"
  by pat_completeness auto
termination
  by (relation "measure (\<lambda>(cap, sc). (if sc_err sc then 0 else 1) + length (sc_input sc) +
    length (concat (sc_input sc)))") (auto simp: scan_fill_def Let_def split: list.split)

declare Scan.simps [simp del]

text \<open>\<^verbatim>\<open>scanner.Scan()\<close> followed by \<^verbatim>\<open>scanner.Bytes()\<close>: nothing where the scan fails.\<close>

definition scan_bytes :: "nat \<Rightarrow> scanner \<Rightarrow> string \<times> scanner" where
  "scan_bytes cap sc =
     (case Scan cap sc of (Some token, sc') \<Rightarrow> (token, sc') | (None, sc') \<Rightarrow> ([], sc'))"

fun scan_fields :: "nat \<Rightarrow> nat \<Rightarrow> scanner \<Rightarrow> string list \<times> scanner" where
  "scan_fields cap 0 sc = ([], sc)"
| "scan_fields cap (Suc n) sc =
     (let (b, sc1) = scan_bytes cap sc; (bs, sc2) = scan_fields cap n sc1 in (b # bs, sc2))"

section \<open>Lines of a buffer\<close>

text \<open>
  The lines that \<^verbatim>\<open>ReadBytes('\n')\<close> of a \<^verbatim>\<open>bytes.Buffer\<close> returns until it reports an error:
  each with its newline, and nothing for a last line without one.
\<close>

definition read_lines :: "string \<Rightarrow> string list" where
  "read_lines s = map (\<lambda>l. l @ [NL]) (butlast (split_on NL s))"

section \<open>The table of changed files\<close>

record StatLine =
  sl_Path :: string
  sl_LinesChanged :: string
  sl_GraphStringPlus :: string
  sl_GraphStringMinus :: string
  sl_HunkNum :: nat

record DiffStat =
  ds_StatLines :: "StatLine list"
  ds_SummaryLine :: string

text \<open>
  \<^verbatim>\<open>([^\s]*)\s*\|\s*(\d*)\s*(.*)\<close>, unanchored. At a position the path is as long as
  possible, and shorter where the bar would otherwise be part of it; behind the bar everything
  matches.
\<close>

fun stat_path_at :: "nat \<Rightarrow> string \<Rightarrow> (string \<times> string) option" where
  "stat_path_at n s =
     (let rest = dropWhile is_ws (drop n s) in
      if HasPrefix rest ''|'' then Some (take n s, drop 1 rest)
      else case n of 0 \<Rightarrow> None | Suc m \<Rightarrow> stat_path_at m s)"

declare stat_path_at.simps [simp del]

definition stat_groups_at :: "string \<Rightarrow> (string \<times> string \<times> string) option" where
  "stat_groups_at s =
     (case stat_path_at (length (takeWhile (\<lambda>c. \<not> is_ws c) s)) s of
        None \<Rightarrow> None
      | Some (path, rest) \<Rightarrow>
          let count = dropWhile is_ws rest; graph = dropWhile is_ws (dropWhile is_digit count)
          in Some (path, takeWhile is_digit count, takeWhile (\<lambda>c. c \<noteq> NL) graph))"

fun diffStatLineRegex :: "string \<Rightarrow> (string \<times> string \<times> string) option" where
  "diffStatLineRegex [] = stat_groups_at []"
| "diffStatLineRegex (c # s) =
     (case stat_groups_at (c # s) of Some m \<Rightarrow> Some m | None \<Rightarrow> diffStatLineRegex s)"

text \<open>From the first to the last occurrence of a sign.\<close>

definition sign_part :: "char \<Rightarrow> string \<Rightarrow> ('e, string) res" where
  "sign_part c graph =
     (if -1 < Index graph [c] then go_slice graph (Index graph [c]) (LastIndexByte graph c + 1)
      else Inr [])"

definition stat_line :: "nat \<Rightarrow> string \<times> string \<times> string \<Rightarrow> ('e, StatLine) res" where
  "stat_line hunkNum m =
     (case m of (path, lines, graph) \<Rightarrow>
        bind_res (sign_part CHR ''+'' graph) (\<lambda>plus.
        bind_res (sign_part CHR ''-'' graph) (\<lambda>minus.
          Inr \<lparr>sl_Path = path, sl_LinesChanged = lines, sl_GraphStringPlus = plus,
               sl_GraphStringMinus = minus, sl_HunkNum = hunkNum\<rparr>)))"

text \<open>The loop; the first line that the expression does not match is the summary.\<close>

fun stat_loop :: "nat \<Rightarrow> string list \<Rightarrow> ('e, DiffStat) res" where
  "stat_loop hunkNum [] = Inr \<lparr>ds_StatLines = [], ds_SummaryLine = []\<rparr>"
| "stat_loop hunkNum (line # others) =
     (case diffStatLineRegex line of
        None \<Rightarrow> Inr \<lparr>ds_StatLines = [], ds_SummaryLine = line\<rparr>
      | Some m \<Rightarrow>
          bind_res (stat_line hunkNum m) (\<lambda>sl.
          bind_res (stat_loop (hunkNum + 1) others) (\<lambda>ds.
            Inr (ds\<lparr>ds_StatLines := sl # ds_StatLines ds\<rparr>))))"

definition parse_stat :: "string \<Rightarrow> ('e, DiffStat) res" where
  "parse_stat buf = stat_loop 0 (drop 1 (read_lines buf))"

section \<open>The diffs\<close>

record DiffLine =
  dl_Line :: string
  dl_LineType :: string

record Diff =
  df_Header :: string
  df_HeaderLines :: "string list"
  df_ChunkLine :: string
  df_Lines :: "DiffLine list"
  df_HunkNum :: nat

record diff_state =
  sd_Diffs :: "Diff list"
  sd_currDif :: "Diff option"
  sd_hunkNum :: nat

definition diff_line :: "string \<Rightarrow> ('e, DiffLine) res" where
  "diff_line s =
     bind_res (go_slice s 0 1) (\<lambda>firstChar.
       Inr \<lparr>dl_Line = s,
            dl_LineType = (if firstChar = ''+'' then ''insert''
                           else if firstChar = ''-'' then ''delete'' else ''context'')\<rparr>)"

definition diff_step :: "diff_state \<Rightarrow> string \<Rightarrow> ('e, diff_state) res" where
  "diff_step st s =
     (if HasPrefix s ''diff'' then
        (let st' = (case sd_currDif st of
                      None \<Rightarrow> st
                    | Some d \<Rightarrow> st\<lparr>sd_Diffs := sd_Diffs st @ [d], sd_hunkNum := sd_hunkNum st + 1\<rparr>)
         in Inr (st'\<lparr>sd_currDif := Some \<lparr>df_Header = s, df_HeaderLines = [], df_ChunkLine = [],
               df_Lines = [], df_HunkNum = sd_hunkNum st'\<rparr>\<rparr>))
      else case sd_currDif st of
          None \<Rightarrow> Inl (Panic NilDereference)
        | Some d \<Rightarrow>
            if HasPrefix s ''@@'' then Inr (st\<lparr>sd_currDif := Some (d\<lparr>df_ChunkLine := s\<rparr>)\<rparr>)
            else if df_ChunkLine d = [] then
              Inr (st\<lparr>sd_currDif := Some (d\<lparr>df_HeaderLines := df_HeaderLines d @ [s]\<rparr>)\<rparr>)
            else bind_res (diff_line s) (\<lambda>l.
              Inr (st\<lparr>sd_currDif := Some (d\<lparr>df_Lines := df_Lines d @ [l]\<rparr>)\<rparr>)))"

fun diff_loop :: "diff_state \<Rightarrow> string list \<Rightarrow> ('e, Diff list) res" where
  "diff_loop st [] =
     Inr (sd_Diffs st @ (case sd_currDif st of None \<Rightarrow> [] | Some d \<Rightarrow> [d]))"
| "diff_loop st (line # others) = bind_res (diff_step st line) (\<lambda>st'. diff_loop st' others)"

definition parse_diffs :: "string \<Rightarrow> ('e, Diff list) res" where
  "parse_diffs buf =
     diff_loop \<lparr>sd_Diffs = [], sd_currDif = None, sd_hunkNum = 0\<rparr> (read_lines buf)"

section \<open>The commit\<close>

record GitShow =
  gs_Commit :: Commit
  gs_Diffs :: "Diff list"
  gs_DiffStat :: DiffStat
  gs_Repo :: RepoConfig

definition customShowFormat :: string where
  "customShowFormat =
     ''format:%H%x00'' @ ''%h%x00'' @ ''%P%x00'' @ ''%p%x00'' @ ''%an%x00'' @ ''%ae%x00'' @
     ''%s%x00'' @ ''%ai%x00'' @ ''%b%x00''"

definition git_show_args :: "string \<Rightarrow> string \<Rightarrow> string list" where
  "git_show_args repoPath commit =
     [''-C'', repoPath, ''show'', commit, ''--patch-with-stat'', ''--pretty='' @ customShowFormat,
      ''-z'', ''--first-parent'', ''--diff-algorithm=histogram'']"

definition maxCapacity :: nat where "maxCapacity = 100 * 1024 * 1024"

text \<open>
  \<^verbatim>\<open>GitShowCommit\<close>. Starting git fails, or its output arrives in pieces; the exit status is
  never looked at.
\<close>

definition GitShowCommit ::
    "(string list \<Rightarrow> string + string list) \<Rightarrow> RepoConfig \<Rightarrow> string \<Rightarrow> (git_error, GitShow) res" where
  "GitShowCommit start repo commit =
     (case start (git_show_args (rc_Path repo) commit) of
        Inl err \<Rightarrow> Inl (Error (GitFailed err))
      | Inr pieces \<Rightarrow>
          let sc0 = \<lparr>sc_data = [], sc_input = pieces, sc_err = False\<rparr>;
              (f, sc) = scan_fields maxCapacity 9 sc0;
              gitCommit = \<lparr>cm_Hash = f ! 0, cm_ShortHash = f ! 1,
                cm_ParentHashes = split_on CHR '' '' (f ! 2),
                cm_ParentShortHashes = split_on CHR '' '' (f ! 3), cm_AuthorName = f ! 4,
                cm_AuthorEmail = f ! 5, cm_Date = f ! 7, cm_Subject = f ! 6, cm_Body = f ! 8\<rparr>;
              (statText, sc') = scan_bytes maxCapacity sc;
              (diffText, sc'') = scan_bytes maxCapacity sc'
          in bind_res (parse_stat statText) (\<lambda>ds.
             bind_res (parse_diffs diffText) (\<lambda>diffs.
               Inr \<lparr>gs_Commit = gitCommit, gs_Diffs = diffs, gs_DiffStat = ds, gs_Repo = repo\<rparr>)))"

section \<open>What the scanner returns\<close>

text \<open>What has not been cut yet, whichever part of it has arrived.\<close>

definition pending :: "scanner \<Rightarrow> string" where
  "pending sc = sc_data sc @ concat (sc_input sc)"

lemma scan_fill_pending:
  assumes "sc_input sc \<noteq> []"
  shows "pending (scan_fill cap sc) = pending sc" "sc_err (scan_fill cap sc) = sc_err sc"
proof -
  obtain piece others where "sc_input sc = piece # others" using assms by (cases "sc_input sc") auto
  then show "pending (scan_fill cap sc) = pending sc" "sc_err (scan_fill cap sc) = sc_err sc"
    by (auto simp: scan_fill_def pending_def Let_def min_def)
qed

lemma takeWhile_until:
  "c \<notin> set t \<Longrightarrow> takeWhile (\<lambda>x. x \<noteq> c) (t @ r) = t @ takeWhile (\<lambda>x. x \<noteq> c) r"
  by (induction t) auto

lemma ScanGitShowEntry_no_NUL:
  assumes "NUL \<notin> set t"
  shows "ScanGitShowEntry t eof = (if eof \<and> t \<noteq> [] then (length t, Some (dropCR t)) else (0, None))"
  unfolding ScanGitShowEntry_def index_opt_byte_None[THEN iffD2, OF assms] by simp

lemma Scan_token:
  assumes "\<not> sc_err sc" "pending sc = t @ NUL # rest" "NUL \<notin> set t" "length t < cap"
  shows "\<exists>sc'. Scan cap sc = (Some (dropCR t), sc') \<and> pending sc' = rest \<and> \<not> sc_err sc'"
  using assms
proof (induction cap sc rule: Scan.induct)
  case (1 cap sc)
  show ?case
  proof (cases "NUL \<in> set (sc_data sc)")
    case True
    then obtain a b where data: "sc_data sc = a @ NUL # b" "NUL \<notin> set a"
      by (metis split_list_first)
    have eq: "a @ NUL # b @ concat (sc_input sc) = t @ NUL # rest"
      using "1.prems"(2) data(1) by (simp add: pending_def)
    have "a = t \<and> b @ concat (sc_input sc) = rest"
      using arg_cong[OF eq, of "Cut NUL"] data(2) "1.prems"(3) by (simp add: Cut_append)
    then show ?thesis
      using data "1.prems"(1)
      by (subst Scan.simps) (simp add: scan_cut_def ScanGitShowEntry_def index_opt_byte_append pending_def)
  next
    case False
    have more: "sc_input sc \<noteq> []" using "1.prems"(2) False by (auto simp: pending_def)
    have "takeWhile (\<lambda>c. c \<noteq> NUL) (pending sc) = t"
      using "1.prems"(2,3) by (simp add: takeWhile_until)
    moreover have "takeWhile (\<lambda>c. c \<noteq> NUL) (pending sc) =
        sc_data sc @ takeWhile (\<lambda>c. c \<noteq> NUL) (concat (sc_input sc))"
      using False by (simp add: pending_def takeWhile_until)
    ultimately have room: "length (sc_data sc) < cap"
      using "1.prems"(4) by (metis length_append le_add1 le_less_trans)
    have cut: "scan_cut sc = (0, None)"
      using False "1.prems"(1) by (simp add: scan_cut_def ScanGitShowEntry_no_NUL)
    have "\<exists>sc'. Scan cap (scan_fill cap sc) = (Some (dropCR t), sc') \<and> pending sc' = rest \<and> \<not> sc_err sc'"
      using "1.IH"[of 0 None] cut "1.prems" room by (simp add: scan_fill_pending[OF more])
    then show ?thesis using cut "1.prems"(1) room by (subst Scan.simps) simp
  qed
qed

text \<open>What is left at the end of the input is the last token, if it is not empty.\<close>

lemma Scan_last:
  assumes "pending sc = t" "NUL \<notin> set t" "length t < cap" "sc_err sc \<longrightarrow> sc_input sc = []"
  shows "fst (scan_bytes cap sc) = dropCR t"
  using assms
proof (induction cap sc rule: Scan.induct)
  case (1 cap sc)
  have none: "NUL \<notin> set (sc_data sc)" using "1.prems"(1,2) by (auto simp: pending_def)
  have room: "length (sc_data sc) < cap" using "1.prems"(1,3) by (auto simp: pending_def)
  show ?case
  proof (cases "sc_err sc")
    case True
    then have "sc_data sc = t" using "1.prems"(1,4) by (simp add: pending_def)
    moreover from this none have "scan_cut sc = (length t, if t = [] then None else Some (dropCR t))"
      using True by (simp add: scan_cut_def ScanGitShowEntry_no_NUL)
    ultimately show ?thesis
      using True unfolding scan_bytes_def by (subst Scan.simps) (simp add: dropCR_def)
  next
    case False
    have cut: "scan_cut sc = (0, None)" using False none by (simp add: scan_cut_def ScanGitShowEntry_no_NUL)
    have "pending (scan_fill cap sc) = t"
      using "1.prems"(1) scan_fill_pending(1)[of sc cap]
      by (cases "sc_input sc") (auto simp: scan_fill_def pending_def)
    moreover have "sc_err (scan_fill cap sc) \<longrightarrow> sc_input (scan_fill cap sc) = []"
      using False by (auto simp: scan_fill_def Let_def split: list.split)
    ultimately have "fst (scan_bytes cap (scan_fill cap sc)) = dropCR t"
      using "1.IH"[of 0 None] cut "1.prems" room False by simp
    moreover have "Scan cap sc = Scan cap (scan_fill cap sc)"
      using cut room False by (subst Scan.simps) simp
    ultimately show ?thesis by (simp add: scan_bytes_def)
  qed
qed

lemma scan_fields_terminated:
  assumes "\<not> sc_err sc" "pending sc = terminated NUL fs @ rest"
    and "list_all (\<lambda>f. NUL \<notin> set f \<and> length f < cap) fs"
  shows "\<exists>sc'. scan_fields cap (length fs) sc = (map dropCR fs, sc') \<and> pending sc' = rest \<and> \<not> sc_err sc'"
  using assms
proof (induction fs arbitrary: sc)
  case Nil
  then show ?case by simp
next
  case (Cons f fs)
  obtain sc1 where 1: "Scan cap sc = (Some (dropCR f), sc1)" "pending sc1 = terminated NUL fs @ rest" "\<not> sc_err sc1"
    using Scan_token[of sc f "terminated NUL fs @ rest" cap] Cons.prems by auto
  obtain sc2 where "scan_fields cap (length fs) sc1 = (map dropCR fs, sc2)" "pending sc2 = rest" "\<not> sc_err sc2"
    using Cons.IH[OF 1(3,2)] Cons.prems(3) by auto
  then show ?case by (simp add: scan_bytes_def 1)
qed

section \<open>What git prints for a commit\<close>

text \<open>A file of the table: its path, the number of changed lines, and the bar of signs.\<close>

record shown_stat =
  ss_Path :: string
  ss_Pad :: nat
  ss_CountPad :: nat
  ss_Count :: nat
  ss_Plus :: nat
  ss_Minus :: nat

definition signs :: "shown_stat \<Rightarrow> string" where
  "signs s = replicate (ss_Plus s) CHR ''+'' @ replicate (ss_Minus s) CHR ''-''"

definition stat_printed :: "shown_stat \<Rightarrow> string" where
  "stat_printed s =
     CHR '' '' # ss_Path s @ CHR '' '' # replicate (ss_Pad s) CHR '' '' @
     CHR ''|'' # replicate (ss_CountPad s) CHR '' '' @ string_of_nat (ss_Count s) @
     (if signs s = [] then [] else CHR '' '' # signs s) @ [NL]"

text \<open>The part of a path behind its last blank.\<close>

definition last_word :: "string \<Rightarrow> string" where
  "last_word p = rev (takeWhile (\<lambda>c. \<not> is_ws c) (rev p))"

definition stat_fine :: "shown_stat \<Rightarrow> bool" where
  "stat_fine s \<longleftrightarrow> CHR ''|'' \<notin> set (ss_Path s) \<and> NL \<notin> set (ss_Path s) \<and> last_word (ss_Path s) \<noteq> []"

definition stat_shown :: "nat \<Rightarrow> shown_stat \<Rightarrow> StatLine" where
  "stat_shown k s =
     \<lparr>sl_Path = last_word (ss_Path s), sl_LinesChanged = string_of_nat (ss_Count s),
      sl_GraphStringPlus = replicate (ss_Plus s) CHR ''+'',
      sl_GraphStringMinus = replicate (ss_Minus s) CHR ''-'', sl_HunkNum = k\<rparr>"

lemma last_word_split:
  "\<exists>u. p = u @ last_word p \<and> (u = [] \<or> is_ws (last u)) \<and> (\<forall>c \<in> set (last_word p). \<not> is_ws c)"
proof -
  let ?u = "rev (dropWhile (\<lambda>c. \<not> is_ws c) (rev p))"
  have "p = ?u @ last_word p"
    by (metis last_word_def rev_append rev_rev_ident takeWhile_dropWhile_id)
  moreover have "?u = [] \<or> is_ws (last ?u)"
    using hd_dropWhile[of "\<lambda>c. \<not> is_ws c" "rev p"] by (auto simp: last_rev)
  moreover have "\<forall>c \<in> set (last_word p). \<not> is_ws c"
    by (auto simp: last_word_def dest: set_takeWhileD)
  ultimately show ?thesis by blast
qed

lemma stat_path_at_None:
  assumes "\<And>k. k \<le> n \<Longrightarrow> \<not> HasPrefix (dropWhile is_ws (drop k s)) ''|''"
  shows "stat_path_at n s = None"
  using assms
proof (induction n)
  case 0
  then show ?case by (subst stat_path_at.simps) (simp add: Let_def)
next
  case (Suc n)
  have "\<not> HasPrefix (dropWhile is_ws (drop (Suc n) s)) ''|''" by (rule Suc.prems) simp
  moreover have "stat_path_at n s = None" by (rule Suc.IH) (simp add: Suc.prems)
  ultimately show ?case by (subst stat_path_at.simps) (simp add: Let_def)
qed

lemma stat_path_at_Some:
  "HasPrefix (dropWhile is_ws (drop n s)) ''|'' \<Longrightarrow>
   stat_path_at n s = Some (take n s, drop 1 (dropWhile is_ws (drop n s)))"
  by (subst stat_path_at.simps) (simp add: Let_def)

text \<open>Before the last word of the path the expression does not match, and there it does.\<close>

lemma no_bar_before:
  assumes "CHR ''|'' \<notin> set u" "CHR ''|'' \<notin> set w" "w \<noteq> []" "\<forall>c \<in> set w. \<not> is_ws c"
  shows "\<not> HasPrefix (dropWhile is_ws (u @ w @ r)) ''|''"
proof -
  obtain c w' where w: "w = c # w'" using assms(3) by (cases w) auto
  show ?thesis
  proof (cases "\<forall>x \<in> set u. is_ws x")
    case True
    then show ?thesis using assms w by (auto simp: HasPrefix_def)
  next
    case False
    then have "dropWhile is_ws u \<noteq> []" "dropWhile is_ws (u @ w @ r) = dropWhile is_ws u @ w @ r"
      by (auto simp: dropWhile_append1)
    moreover from this(1) obtain x xs where "dropWhile is_ws u = x # xs" by (cases "dropWhile is_ws u") auto
    moreover from this have "x \<in> set u" by (metis list.set_intros(1) set_dropWhileD)
    ultimately show ?thesis using assms(1) by auto
  qed
qed

lemma stat_groups_at_before:
  assumes "CHR ''|'' \<notin> set v" "CHR ''|'' \<notin> set w" "w \<noteq> []" "\<forall>c \<in> set w. \<not> is_ws c"
    and "v \<noteq> []" "is_ws (last v)"
  shows "stat_groups_at (v @ w @ r) = None"
proof -
  let ?run = "takeWhile (\<lambda>c. \<not> is_ws c) v"
  have run: "takeWhile (\<lambda>c. \<not> is_ws c) (v @ w @ r) = ?run"
    using assms(5,6) by (metis last_in_set takeWhile_append1)
  have "stat_path_at (length ?run) (v @ w @ r) = None"
  proof (rule stat_path_at_None)
    fix k assume "k \<le> length ?run"
    then have "k \<le> length v" using length_takeWhile_le[of "\<lambda>c. \<not> is_ws c" v] by linarith
    then show "\<not> HasPrefix (dropWhile is_ws (drop k (v @ w @ r))) ''|''"
      using no_bar_before[of "drop k v" w r] assms(1-4) by (auto dest: in_set_dropD)
  qed
  then show ?thesis by (simp add: stat_groups_at_def run)
qed

lemma stat_regex_skips:
  assumes "CHR ''|'' \<notin> set u" "CHR ''|'' \<notin> set w" "w \<noteq> []" "\<forall>c \<in> set w. \<not> is_ws c"
    and "u = [] \<or> is_ws (last u)"
  shows "diffStatLineRegex (u @ w @ r) = diffStatLineRegex (w @ r)"
  using assms(1,5)
proof (induction u)
  case (Cons c u)
  have "stat_groups_at ((c # u) @ w @ r) = None"
    using Cons.prems assms(2-4) by (intro stat_groups_at_before) auto
  then show ?case using Cons by (cases u) auto
qed simp

lemma not_ws_digit: "is_digit c \<Longrightarrow> \<not> is_ws c"
  by (auto simp: is_ws_def is_digit_def)

lemma string_of_nat_hd: "is_digit (hd (string_of_nat n))"
  by (metis hd_in_set string_of_nat_digits string_of_nat_neq_Nil)

lemma string_of_nat_spans:
  assumes "s = [] \<or> \<not> is_digit (hd s)"
  shows "dropWhile is_ws (string_of_nat n @ s) = string_of_nat n @ s"
    "takeWhile is_digit (string_of_nat n @ s) = string_of_nat n"
    "dropWhile is_digit (string_of_nat n @ s) = s"
proof -
  have "takeWhile is_digit s = []" "dropWhile is_digit s = s" using assms by (cases s; auto)+
  moreover have "\<forall>c \<in> set (string_of_nat n). is_digit c" by (simp add: string_of_nat_digits)
  ultimately show "takeWhile is_digit (string_of_nat n @ s) = string_of_nat n"
    "dropWhile is_digit (string_of_nat n @ s) = s" by simp_all
  show "dropWhile is_ws (string_of_nat n @ s) = string_of_nat n @ s"
    using string_of_nat_hd[of n] string_of_nat_neq_Nil[of n] not_ws_digit
    by (cases "string_of_nat n") auto
qed

lemma dropWhile_blanks: "dropWhile is_ws (replicate n CHR '' '' @ s) = dropWhile is_ws s"
  by (induction n) (simp_all add: is_ws_def)

lemma signs_graphic: "c \<in> set (signs s) \<Longrightarrow> \<not> is_ws c \<and> c \<noteq> NL"
  by (auto simp: signs_def is_ws_def)

lemma signs_end:
  "takeWhile (\<lambda>c. c \<noteq> NL) (dropWhile is_ws ((if signs s = [] then [] else CHR '' '' # signs s) @ [NL]))
   = signs s"
proof (cases "signs s")
  case Nil
  then show ?thesis by (simp add: is_ws_def)
next
  case (Cons c t)
  then have "\<not> is_ws c" "\<forall>x \<in> set (c # t). x \<noteq> NL" using signs_graphic[of _ s] by auto
  then show ?thesis using Cons by (simp add: is_ws_def takeWhile_until[of NL "c # t" "[NL]", simplified])
qed

lemma diffStatLineRegex_printed:
  assumes "stat_fine s"
  shows "diffStatLineRegex (stat_printed s) =
    Some (last_word (ss_Path s), string_of_nat (ss_Count s), signs s)"
proof -
  let ?w = "last_word (ss_Path s)"
  obtain u where u: "ss_Path s = u @ ?w" "u = [] \<or> is_ws (last u)" "\<forall>c \<in> set ?w. \<not> is_ws c"
    using last_word_split by blast
  have bar: "CHR ''|'' \<notin> set u" "CHR ''|'' \<notin> set ?w" and w: "?w \<noteq> []"
    using assms u(1) by (auto simp: stat_fine_def) (metis UnCI set_append)+
  let ?tail = "(if signs s = [] then [] else CHR '' '' # signs s) @ [NL]"
  let ?r = "CHR '' '' # replicate (ss_Pad s) CHR '' '' @
     CHR ''|'' # replicate (ss_CountPad s) CHR '' '' @ string_of_nat (ss_Count s) @ ?tail"
  have "stat_printed s = (CHR '' '' # u) @ ?w @ ?r"
    unfolding stat_printed_def by (subst u(1)) simp
  moreover have "CHR '' '' # u = [] \<or> is_ws (last (CHR '' '' # u))"
    using u(2) by (auto simp: is_ws_def)
  ultimately have "diffStatLineRegex (stat_printed s) = diffStatLineRegex (?w @ ?r)"
    using stat_regex_skips[of "CHR '' '' # u" ?w ?r] bar w u(3) by simp
  moreover have "stat_groups_at (?w @ ?r) = Some (?w, string_of_nat (ss_Count s), signs s)"
  proof -
    have run: "takeWhile (\<lambda>c. \<not> is_ws c) (?w @ ?r) = ?w"
      using u(3) by (simp add: is_ws_def)
    have rest: "dropWhile is_ws ?r = CHR ''|'' # replicate (ss_CountPad s) CHR '' '' @
        string_of_nat (ss_Count s) @ ?tail"
      using dropWhile_blanks[of "Suc (ss_Pad s)"] by (simp add: is_ws_def)
    have path: "stat_path_at (length ?w) (?w @ ?r) =
        Some (?w, replicate (ss_CountPad s) CHR '' '' @ string_of_nat (ss_Count s) @ ?tail)"
      using stat_path_at_Some[of "length ?w" "?w @ ?r"] rest by simp
    have "?tail = [] \<or> \<not> is_digit (hd ?tail)" by (simp add: is_digit_def)
    note spans = string_of_nat_spans[OF this, of "ss_Count s"]
    show ?thesis
      unfolding stat_groups_at_def run path option.case prod.case Let_def dropWhile_blanks spans signs_end ..
  qed
  ultimately show ?thesis using w by (cases "?w") auto
qed

lemma Index_byte_absent: "c \<notin> set s \<Longrightarrow> Index s [c] = -1"
  using index_opt_byte_None[of s c] by (simp add: Index_def del: index_opt_byte_None)

lemma sign_part_run:
  assumes "c \<notin> set a" "c \<notin> set b"
  shows "(sign_part c (a @ replicate n c @ b) :: ('e, string) res) = Inr (replicate n c)"
proof (cases n)
  case 0
  have "Index (a @ b) [c] = -1" using assms by (simp add: Index_byte_absent)
  then show ?thesis using 0 by (simp add: sign_part_def)
next
  case (Suc m)
  have "replicate n c = c # replicate m c" "replicate n c = replicate m c @ [c]"
    using Suc by (simp_all add: replicate_append_same)
  then have "index_opt (a @ replicate n c @ b) [c] = Some (length a)"
    "index_opt (rev (a @ replicate n c @ b)) [c] = Some (length b)"
    using assms index_opt_byte_append[of c a "replicate m c @ b"]
      index_opt_byte_append[of c "rev b" "replicate m c @ rev a"] by simp_all
  then have "Index (a @ replicate n c @ b) [c] = int (length a)"
    "LastIndexByte (a @ replicate n c @ b) c + 1 = int (length a) + int n"
    by (simp_all add: Index_def LastIndexByte_def)
  then show ?thesis by (simp add: sign_part_def)
qed

lemma sign_part_plus:
  "sign_part CHR ''+'' (replicate m CHR ''+'' @ replicate n CHR ''-'') = Inr (replicate m CHR ''+'')"
  using sign_part_run[of "CHR ''+''" "[]" "replicate n CHR ''-''" m] by simp

lemma sign_part_minus:
  "sign_part CHR ''-'' (replicate m CHR ''+'' @ replicate n CHR ''-'') = Inr (replicate n CHR ''-'')"
  using sign_part_run[of "CHR ''-''" "replicate m CHR ''+''" "[]" n] by simp

lemma stat_line_printed:
  "(stat_line k (last_word (ss_Path s), string_of_nat (ss_Count s), signs s) :: ('e, StatLine) res) =
     Inr (stat_shown k s)"
  by (simp add: stat_line_def stat_shown_def signs_def sign_part_plus sign_part_minus)

lemma stat_regex_no_bar: "CHR ''|'' \<notin> set s \<Longrightarrow> diffStatLineRegex s = None"
proof (induction s)
  case Nil
  then show ?case by (simp add: stat_groups_at_def stat_path_at.simps)
next
  case (Cons c s)
  have "\<not> HasPrefix (dropWhile is_ws (drop k (c # s))) ''|''" for k
  proof
    assume "HasPrefix (dropWhile is_ws (drop k (c # s))) ''|''"
    then have "CHR ''|'' \<in> set (dropWhile is_ws (drop k (c # s)))" by (auto simp: HasPrefix_iff)
    then have "CHR ''|'' \<in> set (c # s)" by (blast dest: set_dropWhileD in_set_dropD)
    with Cons.prems show False by simp
  qed
  then have "stat_path_at n (c # s) = None" for n by (intro stat_path_at_None)
  then show ?case using Cons by (simp add: stat_groups_at_def)
qed

lemma stat_loop_printed:
  assumes "list_all stat_fine ss" "CHR ''|'' \<notin> set summary"
  shows "(stat_loop k (map stat_printed ss @ [summary]) :: ('e, DiffStat) res) =
    Inr \<lparr>ds_StatLines = map (\<lambda>(i, s). stat_shown i s) (enumerate k ss), ds_SummaryLine = summary\<rparr>"
  using assms(1)
proof (induction ss arbitrary: k)
  case Nil
  then show ?case using stat_regex_no_bar[OF assms(2)] by simp
next
  case (Cons s ss)
  then show ?case by (simp add: diffStatLineRegex_printed stat_line_printed)
qed

lemma read_lines_printed:
  "list_all (\<lambda>l. NL \<notin> set l) ls \<Longrightarrow> read_lines (terminated NL ls) = map (\<lambda>l. l @ [NL]) ls"
  using split_on_terminated[of NL ls "[]"] by (simp add: read_lines_def)

text \<open>The table: a line of dashes, a line for each file, and the summary.\<close>

definition stat_text :: "string \<Rightarrow> shown_stat list \<Rightarrow> string \<Rightarrow> string" where
  "stat_text dashes ss summary =
     dashes @ NL # concat (map stat_printed ss) @ summary @ [NL]"

lemma stat_printed_line:
  assumes "stat_fine s"
  shows "\<exists>l. stat_printed s = l @ [NL] \<and> NL \<notin> set l"
proof -
  have "NL \<notin> set (signs s)" using signs_graphic[of NL s] by blast
  moreover have "NL \<notin> set (string_of_nat (ss_Count s))"
    by (rule string_of_nat_avoids) (simp add: is_digit_def)
  ultimately show ?thesis using assms
    by (intro exI[of _ "butlast (stat_printed s)"])
      (auto simp: stat_printed_def stat_fine_def butlast_append split: if_splits)
qed

lemma parse_stat_printed:
  assumes "NL \<notin> set dashes" "list_all stat_fine ss" "CHR ''|'' \<notin> set summary" "NL \<notin> set summary"
  shows "(parse_stat (stat_text dashes ss summary) :: ('e, DiffStat) res) =
    Inr \<lparr>ds_StatLines = map (\<lambda>(i, s). stat_shown i s) (enumerate 0 ss),
         ds_SummaryLine = summary @ [NL]\<rparr>"
proof -
  let ?ls = "map (\<lambda>s. butlast (stat_printed s)) ss"
  have nl: "butlast (stat_printed s) @ [NL] = stat_printed s \<and> NL \<notin> set (butlast (stat_printed s))"
    if "s \<in> set ss" for s
    using stat_printed_line[of s] assms(2) that by (auto simp: list_all_iff)
  then have lines: "map (\<lambda>l. l @ [NL]) ?ls = map stat_printed ss" by simp
  then have "concat (map stat_printed ss) = terminated NL ?ls" by (simp only: terminated_def)
  then have "stat_text dashes ss summary = terminated NL (dashes # ?ls @ [summary])"
    by (simp add: stat_text_def terminated_def del: map_map)
  moreover have fine: "list_all (\<lambda>l. NL \<notin> set l) (dashes # ?ls @ [summary])"
    using assms(1,4) nl by (auto simp: list_all_iff)
  ultimately have "read_lines (stat_text dashes ss summary) =
      (dashes @ [NL]) # map stat_printed ss @ [summary @ [NL]]"
    using lines read_lines_printed[OF fine] by (simp only: list.map map_append append.simps)
  then show ?thesis
    using stat_loop_printed[of ss "summary @ [NL]" 0] assms(2,3) by (simp add: parse_stat_def)
qed

text \<open>A diff of one file: its header lines, and its hunks with their lines.\<close>

record shown_diff =
  sh_Header :: string
  sh_HeaderLines :: "string list"
  sh_Hunks :: "(string \<times> string list) list"

definition diff_lines :: "shown_diff \<Rightarrow> string list" where
  "diff_lines d =
     sh_Header d # sh_HeaderLines d @ concat (map (\<lambda>(chunk, ls). chunk # ls) (sh_Hunks d))"

abbreviation ln :: "string \<Rightarrow> string" where "ln l \<equiv> l @ [NL]"

definition body_fine :: "string \<Rightarrow> bool" where
  "body_fine l \<longleftrightarrow> l \<noteq> [] \<and> hd l \<in> {CHR '' '', CHR ''+'', CHR ''-'', BACKSLASH}"

definition hunk_fine :: "string \<times> string list \<Rightarrow> bool" where
  "hunk_fine h \<longleftrightarrow> HasPrefix (fst h) ''@@'' \<and> list_all body_fine (snd h)"

definition header_fine :: "string \<Rightarrow> bool" where
  "header_fine l \<longleftrightarrow> \<not> HasPrefix (ln l) ''diff'' \<and> \<not> HasPrefix (ln l) ''@@''"

definition diff_fine :: "shown_diff \<Rightarrow> bool" where
  "diff_fine d \<longleftrightarrow>
     HasPrefix (sh_Header d) ''diff'' \<and>
     list_all header_fine (sh_HeaderLines d) \<and> list_all hunk_fine (sh_Hunks d)"

definition line_shown :: "string \<Rightarrow> DiffLine" where
  "line_shown l =
     \<lparr>dl_Line = ln l,
      dl_LineType = (if hd l = CHR ''+'' then ''insert''
                     else if hd l = CHR ''-'' then ''delete'' else ''context'')\<rparr>"

definition diff_shown :: "nat \<Rightarrow> shown_diff \<Rightarrow> Diff" where
  "diff_shown k d =
     \<lparr>df_Header = ln (sh_Header d), df_HeaderLines = map ln (sh_HeaderLines d),
      df_ChunkLine = (if sh_Hunks d = [] then [] else ln (fst (last (sh_Hunks d)))),
      df_Lines = map line_shown (concat (map snd (sh_Hunks d))), df_HunkNum = k\<rparr>"

abbreviation in_diff :: "Diff list \<Rightarrow> Diff \<Rightarrow> nat \<Rightarrow> diff_state" where
  "in_diff ds d k \<equiv> \<lparr>sd_Diffs = ds, sd_currDif = Some d, sd_hunkNum = k\<rparr>"

lemma diff_loop_headers:
  assumes "list_all header_fine hs" "df_ChunkLine d = []"
  shows "diff_loop (in_diff ds d k) (map ln hs @ ls) =
    diff_loop (in_diff ds (d\<lparr>df_HeaderLines := df_HeaderLines d @ map ln hs\<rparr>) k) ls"
  using assms
proof (induction hs arbitrary: d)
  case (Cons h hs)
  then show ?case by (simp add: diff_step_def header_fine_def)
qed simp

lemma diff_line_shown: "l \<noteq> [] \<Longrightarrow> diff_line (ln l) = Inr (line_shown l)"
  by (cases l) (simp_all add: diff_line_def line_shown_def)

lemma diff_loop_body:
  assumes "list_all body_fine ls" "df_ChunkLine d \<noteq> []"
  shows "diff_loop (in_diff ds d k) (map ln ls @ rest) =
    diff_loop (in_diff ds (d\<lparr>df_Lines := df_Lines d @ map line_shown ls\<rparr>) k) rest"
  using assms
proof (induction ls arbitrary: d)
  case (Cons l ls)
  then have "\<not> HasPrefix (ln l) ''diff''" "\<not> HasPrefix (ln l) ''@@''"
    by (cases l; auto simp: body_fine_def)+
  with Cons show ?case by (simp add: diff_step_def diff_line_shown body_fine_def)
qed simp

lemma diff_step_chunk:
  "HasPrefix chunk ''@@'' \<Longrightarrow>
   diff_step (in_diff ds d k) (ln chunk) = Inr (in_diff ds (d\<lparr>df_ChunkLine := ln chunk\<rparr>) k)"
  by (auto simp: diff_step_def HasPrefix_iff)

lemma diff_loop_hunks:
  assumes "list_all hunk_fine hunks"
  shows "diff_loop (in_diff ds d k) (map ln (concat (map (\<lambda>(chunk, ls). chunk # ls) hunks)) @ rest) =
    diff_loop (in_diff ds (d\<lparr>df_ChunkLine := (if hunks = [] then df_ChunkLine d else ln (fst (last hunks))),
        df_Lines := df_Lines d @ map line_shown (concat (map snd hunks))\<rparr>) k) rest"
  using assms
proof (induction hunks arbitrary: d)
  case (Cons h hunks)
  obtain chunk ls where h: "h = (chunk, ls)" by (cases h)
  have "HasPrefix chunk ''@@''" "list_all body_fine ls" "list_all hunk_fine hunks"
    using Cons.prems h hunk_fine_def[of h] by simp_all
  then show ?case
    using Cons.IH[of "d\<lparr>df_ChunkLine := ln chunk, df_Lines := df_Lines d @ map line_shown ls\<rparr>"]
    by (simp add: h diff_step_chunk diff_loop_body)
qed simp

text \<open>One diff, from wherever the one before it has left the loop.\<close>

definition header_only :: "nat \<Rightarrow> string \<Rightarrow> Diff" where
  "header_only k h =
     \<lparr>df_Header = h, df_HeaderLines = [], df_ChunkLine = [], df_Lines = [], df_HunkNum = k\<rparr>"

lemma diff_loop_rest:
  assumes "diff_fine s"
  shows "diff_loop (in_diff ds (header_only k (ln (sh_Header s))) k) (map ln (tl (diff_lines s)) @ rest) =
    diff_loop (in_diff ds (diff_shown k s) k) rest"
  using assms by (simp add: diff_fine_def diff_lines_def header_only_def diff_shown_def
      diff_loop_headers diff_loop_hunks del: map_concat)

lemma diff_loop_first:
  assumes "diff_fine s"
  shows "diff_loop \<lparr>sd_Diffs = [], sd_currDif = None, sd_hunkNum = 0\<rparr> (map ln (diff_lines s) @ rest) =
    diff_loop (in_diff [] (diff_shown 0 s) 0) rest"
proof -
  have "HasPrefix (ln (sh_Header s)) ''diff''" using assms by (auto simp: diff_fine_def HasPrefix_iff)
  then show ?thesis
    using diff_loop_rest[OF assms, of "[]" 0 rest]
    by (simp add: diff_lines_def diff_step_def header_only_def)
qed

lemma diff_loop_diff:
  assumes "diff_fine s"
  shows "diff_loop (in_diff ds d k) (map ln (diff_lines s) @ rest) =
    diff_loop (in_diff (ds @ [d]) (diff_shown (Suc k) s) (Suc k)) rest"
proof -
  have "HasPrefix (ln (sh_Header s)) ''diff''" using assms by (auto simp: diff_fine_def HasPrefix_iff)
  then show ?thesis
    using diff_loop_rest[OF assms, of "ds @ [d]" "Suc k" rest]
    by (simp add: diff_lines_def diff_step_def header_only_def)
qed

lemma diff_loop_printed:
  assumes "list_all diff_fine ss"
  shows "diff_loop (in_diff ds d k) (map ln (concat (map diff_lines ss))) =
    Inr (ds @ [d] @ map (\<lambda>(i, s). diff_shown i s) (enumerate (Suc k) ss))"
  using assms
proof (induction ss arbitrary: ds d k)
  case (Cons s ss)
  then show ?case by (simp add: diff_loop_diff)
qed simp

lemma parse_diffs_printed:
  assumes "list_all diff_fine ss" "list_all (\<lambda>l. NL \<notin> set l) (concat (map diff_lines ss))"
  shows "parse_diffs (terminated NL (concat (map diff_lines ss))) =
    Inr (map (\<lambda>(i, s). diff_shown i s) (enumerate 0 ss))"
proof (cases ss)
  case Nil
  then show ?thesis by (simp add: parse_diffs_def read_lines_def)
next
  case (Cons s rest)
  then show ?thesis
    using assms(1) unfolding parse_diffs_def read_lines_printed[OF assms(2)]
    by (simp add: diff_loop_first diff_loop_printed)
qed
section \<open>The round trip\<close>

text \<open>
  The fields in the order of the format. The parents of a root commit are one empty name,
  which is how the program reads an empty field.
\<close>

definition commit_fields :: "Commit \<Rightarrow> string list" where
  "commit_fields c =
     [cm_Hash c, cm_ShortHash c, join '' '' (cm_ParentHashes c), join '' '' (cm_ParentShortHashes c),
      cm_AuthorName c, cm_AuthorEmail c, cm_Subject c, cm_Date c, cm_Body c]"

definition token_fine :: "string \<Rightarrow> bool" where
  "token_fine t \<longleftrightarrow> NUL \<notin> set t \<and> length t < maxCapacity \<and> dropCR t = t"

definition show_fine :: "Commit \<Rightarrow> bool" where
  "show_fine c \<longleftrightarrow>
     list_all token_fine (commit_fields c) \<and>
     cm_ParentHashes c \<noteq> [] \<and> list_all (\<lambda>h. CHR '' '' \<notin> set h) (cm_ParentHashes c) \<and>
     cm_ParentShortHashes c \<noteq> [] \<and> list_all (\<lambda>h. CHR '' '' \<notin> set h) (cm_ParentShortHashes c)"

definition diff_text :: "shown_diff list \<Rightarrow> string" where
  "diff_text ds = terminated NL (concat (map diff_lines ds))"

definition show_printed ::
    "Commit \<Rightarrow> string \<Rightarrow> shown_stat list \<Rightarrow> string \<Rightarrow> shown_diff list \<Rightarrow> string" where
  "show_printed c dashes ss summary ds =
     terminated NUL (commit_fields c @ [stat_text dashes ss summary]) @ diff_text ds"

lemma scan_bytes_field:
  assumes "\<not> sc_err sc" "pending sc = terminated NUL (f # fs) @ rest" "token_fine f"
  shows "\<exists>sc'. scan_bytes maxCapacity sc = (f, sc') \<and> pending sc' = terminated NUL fs @ rest \<and> \<not> sc_err sc'"
  using Scan_token[of sc f "terminated NUL fs @ rest" maxCapacity] assms
  by (auto simp: token_fine_def scan_bytes_def)

text \<open>
  C6. Whatever pieces the pipe delivers it in, the output of \<^verbatim>\<open>git show\<close> for a commit is read
  back to the commit, a line for each changed file and the diff of each file, numbered alike,
  with each line marked as inserted, deleted or context. Of a path only what is behind its
  last blank is kept, and of several hunks only the last chunk line.
\<close>

theorem GitShowCommit_printed:
  assumes "start (git_show_args (rc_Path repo) commit) = Inr pieces"
    and "concat pieces = show_printed c dashes ss summary ds"
    and "show_fine c" "token_fine (stat_text dashes ss summary)" "token_fine (diff_text ds)"
    and "NL \<notin> set dashes" "list_all stat_fine ss" "CHR ''|'' \<notin> set summary" "NL \<notin> set summary"
    and "list_all diff_fine ds" "list_all (\<lambda>l. NL \<notin> set l) (concat (map diff_lines ds))"
  shows "GitShowCommit start repo commit =
    Inr \<lparr>gs_Commit = c, gs_Diffs = map (\<lambda>(i, d). diff_shown i d) (enumerate 0 ds),
         gs_DiffStat = \<lparr>ds_StatLines = map (\<lambda>(i, s). stat_shown i s) (enumerate 0 ss),
                        ds_SummaryLine = summary @ [NL]\<rparr>,
         gs_Repo = repo\<rparr>"
proof -
  let ?sc0 = "\<lparr>sc_data = [], sc_input = pieces, sc_err = False\<rparr>"
  let ?stat = "stat_text dashes ss summary"
  have fields: "length (commit_fields c) = 9" "map dropCR (commit_fields c) = commit_fields c"
    using assms(3) by (simp_all add: commit_fields_def show_fine_def token_fine_def)
  have "pending ?sc0 = terminated NUL (commit_fields c) @ terminated NUL [?stat] @ diff_text ds"
    using assms(2) by (simp add: pending_def show_printed_def terminated_def)
  moreover have "list_all (\<lambda>f. NUL \<notin> set f \<and> length f < maxCapacity) (commit_fields c)"
    using assms(3) by (auto simp: show_fine_def token_fine_def list_all_iff)
  ultimately obtain sc where sc: "scan_fields maxCapacity 9 ?sc0 = (commit_fields c, sc)"
    "pending sc = terminated NUL [?stat] @ diff_text ds" "\<not> sc_err sc"
    using scan_fields_terminated[of ?sc0 "commit_fields c" "terminated NUL [?stat] @ diff_text ds"
        maxCapacity] fields by auto
  obtain sc' where sc': "scan_bytes maxCapacity sc = (?stat, sc')" "pending sc' = diff_text ds" "\<not> sc_err sc'"
    using scan_bytes_field[OF sc(3,2) assms(4)] by auto
  have "fst (scan_bytes maxCapacity sc') = diff_text ds"
    using Scan_last[OF sc'(2)] assms(5) sc'(3) by (simp add: token_fine_def)
  then obtain sc'' where sc'': "scan_bytes maxCapacity sc' = (diff_text ds, sc'')"
    by (cases "scan_bytes maxCapacity sc'") simp
  have parents: "split_on CHR '' '' (join '' '' (cm_ParentHashes c)) = cm_ParentHashes c"
    "split_on CHR '' '' (join '' '' (cm_ParentShortHashes c)) = cm_ParentShortHashes c"
    using assms(3) by (auto simp: show_fine_def list_all_iff intro!: split_on_join)
  then show ?thesis
    by (simp add: GitShowCommit_def assms(1) sc(1) sc' sc'' commit_fields_def diff_text_def
        parse_stat_printed[OF assms(6-9)] parse_diffs_printed[OF assms(10,11)])
qed

definition some_commit :: Commit where
  "some_commit = \<lparr>cm_Hash = ''a1b2'', cm_ShortHash = ''a1'', cm_ParentHashes = [''c3d4'', ''e5f6''],
     cm_ParentShortHashes = [''c3'', ''e5''], cm_AuthorName = ''A'', cm_AuthorEmail = ''a@x'',
     cm_Date = ''2023-01-01'', cm_Subject = ''one'', cm_Body = ''text''\<rparr>"

definition some_stat :: shown_stat where
  "some_stat = \<lparr>ss_Path = ''my f.c'', ss_Pad = 1, ss_CountPad = 1, ss_Count = 2, ss_Plus = 1, ss_Minus = 1\<rparr>"

definition some_diff :: shown_diff where
  "some_diff = \<lparr>sh_Header = ''diff --git a/my f.c b/my f.c'', sh_HeaderLines = [''index 1..2''],
     sh_Hunks = [(''@@ -1 +1 @@'', [''-a'', ''+b'']), (''@@ -9 +9 @@'', ['' c''])]\<rparr>"

definition shown_repo :: RepoConfig where
  "shown_repo = \<lparr>rc_Path = ''/r'', rc_Name = ''r'', rc_Revisions = [], rc_Metadata = Map.empty,
     rc_WalkSubmodules = False\<rparr>"

definition some_pieces :: "string list" where
  "some_pieces =
     (let out = show_printed some_commit ''---'' [some_stat] '' 1 file changed'' [some_diff]
      in [take 3 out, drop 3 out])"

lemma GitShowCommit_printed_witness:
  "\<exists>show. GitShowCommit (\<lambda>args. Inr some_pieces) shown_repo ''a1'' = Inr show \<and>
     gs_Commit show = some_commit \<and> map sl_Path (ds_StatLines (gs_DiffStat show)) = [''f.c''] \<and>
     map df_ChunkLine (gs_Diffs show) = [ln ''@@ -9 +9 @@''] \<and>
     map (map dl_LineType \<circ> df_Lines) (gs_Diffs show) = [[''delete'', ''insert'', ''context'']]"
proof -
  have pieces: "concat some_pieces = show_printed some_commit ''---'' [some_stat] '' 1 file changed'' [some_diff]"
    by (simp add: some_pieces_def Let_def)
  have commit: "show_fine some_commit"
    by (simp add: show_fine_def commit_fields_def some_commit_def token_fine_def maxCapacity_def dropCR_def)
  have digit: "string_of_nat 2 = ''2''" by code_simp
  have "token_fine (stat_text ''---'' [some_stat] '' 1 file changed'')"
    by (simp add: token_fine_def stat_text_def stat_printed_def signs_def some_stat_def digit
        maxCapacity_def dropCR_def)
  moreover have "token_fine (diff_text [some_diff])"
    by (simp add: token_fine_def diff_text_def diff_lines_def some_diff_def maxCapacity_def dropCR_def)
  moreover have word: "last_word ''my f.c'' = ''f.c''" by (simp add: last_word_def is_ws_def)
  then have "list_all stat_fine [some_stat]" by (simp add: stat_fine_def some_stat_def)
  moreover have "list_all diff_fine [some_diff]"
    by (simp add: diff_fine_def some_diff_def header_fine_def hunk_fine_def body_fine_def)
  moreover have "list_all (\<lambda>l. NL \<notin> set l) (concat (map diff_lines [some_diff]))"
    by (simp add: diff_lines_def some_diff_def)
  ultimately show ?thesis
    using GitShowCommit_printed[of "\<lambda>args. Inr some_pieces" shown_repo "''a1''" some_pieces some_commit
        "''---''" "[some_stat]" "'' 1 file changed''" "[some_diff]", OF refl pieces commit] word
    by (simp add: stat_shown_def diff_shown_def some_stat_def some_diff_def line_shown_def)
qed

section \<open>The pieces of the output do not matter\<close>

text \<open>
  The scanner without its pieces: the input left, all of it until an error has been met, and
  what the buffer holds afterwards.
\<close>

definition whole :: "scanner \<Rightarrow> string \<times> bool" where
  "whole sc = (if sc_err sc then sc_data sc else pending sc, sc_err sc)"

definition scan_whole :: "nat \<Rightarrow> string \<times> bool \<Rightarrow> string option \<times> (string \<times> bool)" where
  "scan_whole cap st =
     (case st of (s, err) \<Rightarrow>
        (case index_opt (if err then s else take cap s) [NUL] of
          Some i \<Rightarrow> (Some (dropCR (take i s)), (drop (i + 1) s, err))
        | None \<Rightarrow>
            if \<not> err \<and> cap \<le> length s then (None, (take cap s, True))
            else if s = [] then (None, ([], True))
            else (Some (dropCR s), ([], True))))"

lemma scan_fill_whole:
  assumes "\<not> sc_err sc" "length (sc_data sc) \<le> cap"
  shows "length (sc_data (scan_fill cap sc)) \<le> cap"
  using assms by (auto simp: scan_fill_def Let_def split: list.split)

lemma index_opt_byte_found:
  assumes "index_opt s [c] = Some i"
  shows "i < length s" "c \<notin> set (take i s)" "s ! i = c"
  using assms
proof (induction s arbitrary: i)
  case (Cons x s)
  { case 1 then show ?case using Cons(1) by (auto split: if_splits) }
  { case 2 then show ?case using Cons(2) by (auto split: if_splits) }
  { case 3 then show ?case using Cons(3) by (auto split: if_splits) }
qed simp_all

lemma index_opt_byte_extend:
  assumes "index_opt s [c] = Some i" "i < n"
  shows "index_opt (take n (s @ r)) [c] = Some i"
proof -
  obtain a b where "s = a @ c # b" "c \<notin> set a" "length a = i"
    using index_opt_byte_found[OF assms(1)] id_take_nth_drop[of i s] by (metis length_take min.absorb4)
  moreover from this have "take n (s @ r) = a @ c # take (n - Suc i) (b @ r)"
    using assms(2) by (simp add: take_Cons')
  ultimately show ?thesis using index_opt_byte_append by metis
qed
lemma index_opt_absent: "c \<notin> set s \<Longrightarrow> index_opt s [c] = None"
  by (subst index_opt_byte_None)

lemma scan_whole_err: "NUL \<notin> set s \<Longrightarrow> length s < cap \<Longrightarrow> scan_whole cap (s, False) = scan_whole cap (s, True)"
  by (simp add: scan_whole_def index_opt_absent)

lemma Scan_refines:
  assumes "length (sc_data sc) \<le> cap"
  shows "(fst (Scan cap sc), whole (snd (Scan cap sc))) = scan_whole cap (whole sc) \<and>
    length (sc_data (snd (Scan cap sc))) \<le> cap"
  using assms
proof (induction cap sc rule: Scan.induct)
  case (1 cap sc)
  consider "sc_err sc" | i where "\<not> sc_err sc" "index_opt (sc_data sc) [NUL] = Some i"
    | "\<not> sc_err sc" "NUL \<notin> set (sc_data sc)" "cap \<le> length (sc_data sc)"
    | "\<not> sc_err sc" "NUL \<notin> set (sc_data sc)" "length (sc_data sc) < cap"
    by (metis index_opt_byte_None not_le option.exhaust)
  then show ?case
  proof cases
    case 1
    show ?thesis
    proof (cases "NUL \<in> set (sc_data sc)")
      case True
      then obtain i where i: "index_opt (sc_data sc) [NUL] = Some i" by (metis index_opt_byte_None option.exhaust)
      then have "scan_cut sc = (i + 1, Some (dropCR (take i (sc_data sc))))"
        using 1 True by (auto simp: scan_cut_def ScanGitShowEntry_def)
      then show ?thesis
        using 1 "1.prems" i by (subst (1 2 3) Scan.simps) (simp add: whole_def scan_whole_def)
    next
      case False
      then show ?thesis
        using 1 "1.prems" by (subst (1 2 3) Scan.simps)
          (simp add: scan_cut_def ScanGitShowEntry_no_NUL whole_def scan_whole_def index_opt_absent)
    qed
  next
    case 2
    note i = index_opt_byte_found[OF 2(2)]
    have "index_opt (take cap (pending sc)) [NUL] = Some i"
      using index_opt_byte_extend[OF 2(2), of cap] i(1) "1.prems" by (simp add: pending_def)
    then have "scan_whole cap (whole sc) = (Some (dropCR (take i (pending sc))), (drop (i + 1) (pending sc), False))"
      using 2(1) by (simp add: scan_whole_def whole_def)
    moreover have "Scan cap sc = (Some (dropCR (take i (sc_data sc))), sc\<lparr>sc_data := drop (i + 1) (sc_data sc)\<rparr>)"
      using 2 i(1) by (subst Scan.simps) (auto simp: scan_cut_def ScanGitShowEntry_def)
    ultimately show ?thesis
      using 2(1) i(1) "1.prems" by (simp add: pending_def whole_def)
  next
    case 3
    then have cut: "Scan cap sc = (None, sc\<lparr>sc_err := True\<rparr>)"
      by (subst Scan.simps) (simp add: scan_cut_def ScanGitShowEntry_no_NUL)
    have "take cap (pending sc) = sc_data sc" "cap \<le> length (pending sc)"
      using 3(3) "1.prems" by (simp_all add: pending_def)
    then have "scan_whole cap (whole sc) = (None, (sc_data sc, True))"
      using 3 by (simp add: scan_whole_def whole_def index_opt_absent)
    with cut show ?thesis using "1.prems" by (simp add: whole_def)
  next
    case 4
    have cut: "scan_cut sc = (0, None)" using 4 by (simp add: scan_cut_def ScanGitShowEntry_no_NUL)
    then have "Scan cap sc = Scan cap (scan_fill cap sc)" using 4 by (subst Scan.simps) simp
    moreover have "scan_whole cap (whole (scan_fill cap sc)) = scan_whole cap (whole sc)"
    proof (cases "sc_input sc")
      case Nil
      then show ?thesis
        using 4 scan_whole_err by (simp add: scan_fill_def whole_def pending_def)
    next
      case (Cons a list)
      then show ?thesis using scan_fill_pending[of sc cap] by (simp add: whole_def 4)
    qed
    moreover note "1.IH"[OF cut[symmetric] refl 4(1) _ scan_fill_whole[OF 4(1) "1.prems"]]
    ultimately show ?thesis using 4 by simp
  qed
qed

lemma scan_fields_refines:
  assumes "whole sc = whole sc'" "length (sc_data sc) \<le> cap" "length (sc_data sc') \<le> cap"
  shows "fst (scan_fields cap n sc) = fst (scan_fields cap n sc')"
    and "whole (snd (scan_fields cap n sc)) = whole (snd (scan_fields cap n sc'))"
    and "length (sc_data (snd (scan_fields cap n sc))) \<le> cap"
proof -
  have "fst (scan_fields cap n sc) = fst (scan_fields cap n sc') \<and>
    whole (snd (scan_fields cap n sc)) = whole (snd (scan_fields cap n sc')) \<and>
    length (sc_data (snd (scan_fields cap n sc))) \<le> cap"
    using assms
  proof (induction n arbitrary: sc sc')
    case (Suc n)
    note r = Scan_refines[OF Suc.prems(2)] Scan_refines[OF Suc.prems(3)]
    obtain t sc1 where 1: "Scan cap sc = (t, sc1)" by (cases "Scan cap sc")
    obtain t' sc1' where u: "Scan cap sc' = (t', sc1')" by (cases "Scan cap sc'")
    have "t' = t" "whole sc1 = whole sc1'" "length (sc_data sc1) \<le> cap" "length (sc_data sc1') \<le> cap"
      using r Suc.prems(1) by (metis 1 u fst_conv snd_conv Pair_inject)+
    then show ?case
      using Suc.IH[of sc1 sc1'] by (auto simp: scan_bytes_def split_beta 1 u split: option.split)
  qed simp
  then show "fst (scan_fields cap n sc) = fst (scan_fields cap n sc')"
    "whole (snd (scan_fields cap n sc)) = whole (snd (scan_fields cap n sc'))"
    "length (sc_data (snd (scan_fields cap n sc))) \<le> cap" by blast+
qed

lemma scan_fields_one: "scan_fields cap (Suc 0) sc = ([fst (scan_bytes cap sc)], snd (scan_bytes cap sc))"
  by (simp add: split_beta)

lemma scan_fields_add:
  "scan_fields cap (m + n) sc =
     (fst (scan_fields cap m sc) @ fst (scan_fields cap n (snd (scan_fields cap m sc))),
      snd (scan_fields cap n (snd (scan_fields cap m sc))))"
  by (induction m arbitrary: sc) (simp_all add: split_beta Let_def)

text \<open>
  C34. How the output of git is cut into pieces on its way does not matter, whatever the output
  is: the page is that of the output taken whole.
\<close>

theorem GitShowCommit_pieces:
  assumes "concat pieces = concat pieces'"
  shows "GitShowCommit (\<lambda>_. Inr pieces) repo commit = GitShowCommit (\<lambda>_. Inr pieces') repo commit"
proof -
  let ?sc = "\<lambda>ps. \<lparr>sc_data = [], sc_input = ps, sc_err = False\<rparr>"
  have "fst (scan_fields maxCapacity n (?sc pieces)) = fst (scan_fields maxCapacity n (?sc pieces'))" for n
    by (rule scan_fields_refines(1)) (simp_all add: assms whole_def pending_def)
  from this[of "9 + 0"] this[of "9 + Suc 0"] this[of "9 + Suc 0 + Suc 0"] show ?thesis
    unfolding scan_fields_add scan_fields_one
    by (simp add: GitShowCommit_def split_beta Let_def)
qed

lemma GitShowCommit_pieces_witness:
  "GitShowCommit (\<lambda>_. Inr [''a'' @ [NUL], ''b'']) shown_repo ''a1'' =
   GitShowCommit (\<lambda>_. Inr [''a'', [NUL] @ ''b'']) shown_repo ''a1''"
  using GitShowCommit_pieces[of "[''a'' @ [NUL], ''b'']" "[''a'', [NUL] @ ''b'']"] by simp

text \<open>
  Where git prints nothing, as for a commit it does not know, the page is that of a commit
  with empty fields: the exit status and the message of git are never looked at.
\<close>

theorem GitShowCommit_no_output:
  "GitShowCommit (\<lambda>_. Inr []) repo commit =
   Inr \<lparr>gs_Commit = \<lparr>cm_Hash = [], cm_ShortHash = [], cm_ParentHashes = [[]], cm_ParentShortHashes = [[]],
          cm_AuthorName = [], cm_AuthorEmail = [], cm_Date = [], cm_Subject = [], cm_Body = []\<rparr>,
        gs_Diffs = [], gs_DiffStat = \<lparr>ds_StatLines = [], ds_SummaryLine = []\<rparr>, gs_Repo = repo\<rparr>"
proof -
  let ?tail = "\<lambda>e. \<lparr>sc_data = [], sc_input = [], sc_err = e\<rparr>"
  have "Scan maxCapacity (?tail True) = (None, ?tail True)"
    by (subst Scan.simps) (simp add: scan_cut_def ScanGitShowEntry_def)
  moreover have "Scan maxCapacity (?tail False) = Scan maxCapacity (?tail True)"
    by (subst Scan.simps) (simp add: scan_cut_def scan_fill_def maxCapacity_def)
  ultimately have "scan_bytes maxCapacity (?tail e) = ([], ?tail True)" for e
    by (cases e) (simp_all add: scan_bytes_def)
  then show ?thesis
    by (simp add: GitShowCommit_def numeral_eq_Suc parse_stat_def parse_diffs_def read_lines_def)
qed

end
