(* ===== verification/UnifiedDiff.thy ===== *)
theory UnifiedDiff
  imports GoRegexp GoPaths
begin

text \<open>
  The unified-diff half of \<^verbatim>\<open>server/fileviewer/fileview.go\<close>: parsing of
  \<^verbatim>\<open>git diff\<close> output into hunks with line numbers, and the rows of the split view. The
  input is the line scanner of GoPaths, a list of lines still to come.
\<close>

section \<open>Data\<close>

datatype GitDiffLineType =
    ContextLine | AddLine | DeleteLine | HunkLine | NoTrailingNewlineLine | UnknownLine
  | ModifiedLine

record GitDiffLine =
  gl_Text :: string
  gl_Type :: GitDiffLineType
  gl_OriginalLineNumber :: int
  gl_OldLineNumber :: int
  gl_NewLineNumber :: int
  gl_NoTrailingNewline :: bool

definition isIncudableLine :: "GitDiffLine \<Rightarrow> bool" where
  "isIncudableLine gl \<longleftrightarrow> gl_Type gl = AddLine \<or> gl_Type gl = DeleteLine"

text \<open>\<^verbatim>\<open>gl.Text[1:]\<close> panics on an empty text.\<close>

definition gl_content :: "GitDiffLine \<Rightarrow> ('e, string) res" where
  "gl_content gl = go_slice (gl_Text gl) 1 (int (length (gl_Text gl)))"

record GitDiffHunkHeader =
  hh_OldStartLine :: int
  hh_OldLineCount :: int
  hh_NewStartLine :: int
  hh_NewLineCount :: int

definition hunk_header_toString :: "GitDiffHunkHeader \<Rightarrow> string" where
  "hunk_header_toString h =
     ''@@ -'' @ string_of_int (hh_OldStartLine h) @ '','' @ string_of_int (hh_OldLineCount h)
     @ '' +'' @ string_of_int (hh_NewStartLine h) @ '','' @ string_of_int (hh_NewLineCount h)
     @ '' @@''"

text \<open>The zero value of the Go type is none of the named constants.\<close>

datatype DiffHunkExpansionType =
    ExpansionUnset | ExpansionNone | ExpansionUp | ExpansionDown | ExpansionBoth | ExpansionShort

record GitDiffHunk =
  h_Header :: GitDiffHunkHeader
  h_Lines :: "GitDiffLine list"
  h_UnifiedDiffStart :: int
  h_UnifiedDiffEnd :: int
  h_ExpansionType :: DiffHunkExpansionType

record GitDiffHeader =
  dh_IsBinary :: bool

record GitDiff =
  gd_Header :: string
  gd_Contents :: string
  gd_Hunks :: "GitDiffHunk list"
  gd_IsBinary :: bool
  gd_MaxLineNumber :: int
  gd_HasHiddenBidiChars :: bool

datatype diff_error =
    InvalidPatchString string
  | ScannerError
  | GitCommandError string

section \<open>Parsing\<close>

fun parseGitDiffHeader ::
    "diff_error option \<Rightarrow> string list \<Rightarrow> (diff_error, GitDiffHeader option \<times> string list) res" where
  "parseGitDiffHeader scanErr [] =
     (case scanErr of Some e \<Rightarrow> Inl (Error e) | None \<Rightarrow> Inr (None, []))"
| "parseGitDiffHeader scanErr (line # rest) =
     (if HasPrefix line ''Binary files '' \<and> HasSuffix line ''differ''
      then Inr (Some \<lparr>dh_IsBinary = True\<rparr>, rest)
      else if HasPrefix line ''+++'' then Inr (Some \<lparr>dh_IsBinary = False\<rparr>, rest)
      else parseGitDiffHeader scanErr rest)"

text \<open>
  \<^verbatim>\<open>^@@ -(\d+),?(\d*) \+(\d+),?(\d*) @@\<close>: every repetition is followed by a byte it
  cannot match, so the greedy match is the only one.
\<close>

definition match_range :: "string \<Rightarrow> (string \<times> string \<times> string) option" where
  "match_range s =
     (let d1 = takeWhile is_digit s; r1 = dropWhile is_digit s;
          r2 = (if HasPrefix r1 '','' then tl r1 else r1)
      in if d1 = [] then None else Some (d1, takeWhile is_digit r2, dropWhile is_digit r2))"

definition diffHeaderRe :: "string \<Rightarrow> (string \<times> string \<times> string \<times> string) option" where
  "diffHeaderRe line =
     (case after_lit ''@@ -'' line of None \<Rightarrow> None | Some s1 \<Rightarrow>
      case match_range s1 of None \<Rightarrow> None | Some (g1, g2, s2) \<Rightarrow>
      case after_lit '' +'' s2 of None \<Rightarrow> None | Some s3 \<Rightarrow>
      case match_range s3 of None \<Rightarrow> None | Some (g3, g4, s4) \<Rightarrow>
      case after_lit '' @@'' s4 of None \<Rightarrow> None | Some _ \<Rightarrow> Some (g1, g2, g3, g4))"

definition numberFromGroup :: "string \<Rightarrow> int \<Rightarrow> int" where
  "numberFromGroup input df =
     (let (intVal, err) = Atoi input in if err \<noteq> None then df else intVal)"

definition parseGitDiffHunkHeader :: "string \<Rightarrow> (diff_error, GitDiffHunkHeader) res" where
  "parseGitDiffHunkHeader headerLine =
     (case diffHeaderRe headerLine of
        None \<Rightarrow> Inl (Error (InvalidPatchString headerLine))
      | Some (h1, h2, h3, h4) \<Rightarrow>
          Inr \<lparr>hh_OldStartLine = numberFromGroup h1 0,
               hh_OldLineCount = numberFromGroup h2 1,
               hh_NewStartLine = numberFromGroup h3 0,
               hh_NewLineCount = numberFromGroup h4 1\<rparr>)"

definition linePrefixes :: "char list" where
  "linePrefixes = [CHR '' '', CHR ''-'', CHR ''+'', BACKSLASH]"

definition isValidDiffLinePrefix :: "char \<Rightarrow> bool" where
  "isValidDiffLinePrefix c \<longleftrightarrow> c \<in> set linePrefixes"

definition getDiffLineType :: "string \<Rightarrow> GitDiffLineType" where
  "getDiffLineType line =
     (if HasPrefix line ''+'' then AddLine
      else if HasPrefix line ''-'' then DeleteLine
      else if HasPrefix line '' '' then ContextLine
      else if HasPrefix line [BACKSLASH] then NoTrailingNewlineLine
      else UnknownLine)"

record HunkScanner =
  hs_input :: "string list"
  hs_nextHunkHeader :: "string option"

text \<open>
  \<^verbatim>\<open>lines[len(lines)-1].NoTrailingNewline = true\<close>. The slice \<open>lines\<close> holds the hunk line
  only and has capacity one, so \<open>hunk.Lines\<close> shares its array just until the first
  \<^verbatim>\<open>append\<close> to \<open>hunk.Lines\<close>: after that the write reaches nobody.
\<close>

definition mark_no_newline :: "GitDiffLine list \<Rightarrow> GitDiffLine list" where
  "mark_no_newline hunkLines =
     (case hunkLines of
        [l] \<Rightarrow> [l\<lparr>gl_NoTrailingNewline := True\<rparr>]
      | _ \<Rightarrow> hunkLines)"

definition new_diff_line :: "string \<Rightarrow> GitDiffLineType \<Rightarrow> int \<Rightarrow> int \<Rightarrow> GitDiffLine" where
  "new_diff_line text typ old nw =
     \<lparr>gl_Text = text, gl_Type = typ, gl_OriginalLineNumber = 0, gl_OldLineNumber = old,
      gl_NewLineNumber = nw, gl_NoTrailingNewline = False\<rparr>"

text \<open>
  The loop over the lines of a hunk. It returns the lines of the hunk, the header of the
  next hunk if that is what ended it, and the lines left in the scanner.
\<close>

fun hunk_lines_loop ::
    "GitDiffLine list \<Rightarrow> int \<Rightarrow> int \<Rightarrow> string list
     \<Rightarrow> (diff_error, GitDiffLine list \<times> string option \<times> string list) res" where
  "hunk_lines_loop hunkLines oldNo newNo [] = Inr (hunkLines, None, [])"
| "hunk_lines_loop hunkLines oldNo newNo (line # rest) =
     (let lineType = getDiffLineType line in
      if lineType = UnknownLine then
        (if diffHeaderRe line \<noteq> None then Inr (hunkLines, Some line, rest)
         else if line = [] then Inl (Panic IndexOutOfRange)
         else Inr (hunkLines, None, rest))
      else if lineType = NoTrailingNewlineLine then
        (if length line < 12 then Inr (hunkLines, None, rest)
         else hunk_lines_loop (mark_no_newline hunkLines) oldNo newNo rest)
      else if lineType = AddLine then
        hunk_lines_loop (hunkLines @ [new_diff_line line AddLine 0 newNo]) oldNo (newNo + 1) rest
      else if lineType = DeleteLine then
        hunk_lines_loop (hunkLines @ [new_diff_line line DeleteLine oldNo 0]) (oldNo + 1) newNo rest
      else if lineType = ContextLine then
        hunk_lines_loop (hunkLines @ [new_diff_line line ContextLine oldNo newNo])
          (oldNo + 1) (newNo + 1) rest
      else Inl (Panic NilDereference))"

text \<open>
  One hunk. Where the header line does not parse, \<^verbatim>\<open>header.toString()\<close> is called on the
  nil header before the error is looked at.
\<close>

definition take_header_line :: "HunkScanner \<Rightarrow> string \<times> HunkScanner" where
  "take_header_line hs =
     (case hs_nextHunkHeader hs of
        Some l \<Rightarrow> (l, hs\<lparr>hs_nextHunkHeader := None\<rparr>)
      | None \<Rightarrow> (let (ok, l, rest) = scan (hs_input hs) in (l, hs\<lparr>hs_input := rest\<rparr>)))"

definition parseGitDiffHunk ::
    "HunkScanner \<Rightarrow> (diff_error, GitDiffHunk option \<times> HunkScanner) res" where
  "parseGitDiffHunk hs0 =
     (let (headerLine, hs) = take_header_line hs0 in
      if headerLine = [] then Inr (None, hs)
      else case parseGitDiffHunkHeader headerLine of
        Inl err \<Rightarrow> Inl (Panic NilDereference)
      | Inr header \<Rightarrow>
          let hunkLine = \<lparr>gl_Text = headerLine, gl_Type = HunkLine, gl_OriginalLineNumber = 1,
                gl_OldLineNumber = 0, gl_NewLineNumber = 0, gl_NoTrailingNewline = False\<rparr>
          in bind_res (hunk_lines_loop [hunkLine] (hh_OldStartLine header)
                 (hh_NewStartLine header) (hs_input hs))
               (\<lambda>(lines, nextHeader, rest).
                  Inr (Some \<lparr>h_Header = header, h_Lines = lines, h_UnifiedDiffStart = 0,
                             h_UnifiedDiffEnd = 0, h_ExpansionType = ExpansionUnset\<rparr>,
                       hs\<lparr>hs_input := rest, hs_nextHunkHeader := nextHeader\<rparr>)))"

text \<open>The lines a scanner still holds; a header kept back counts for one.\<close>

definition hs_size :: "HunkScanner \<Rightarrow> nat" where
  "hs_size hs = 2 * length (hs_input hs) + (if hs_nextHunkHeader hs = None then 0 else 1)"

lemma hunk_lines_loop_size:
  "hunk_lines_loop ls b a input = Inr (ls', next, rest) \<Longrightarrow>
     2 * length rest + (if next = None then 0 else 1) \<le> 2 * length input"
  by (induction ls b a input rule: hunk_lines_loop.induct)
    (fastforce simp: Let_def split: if_splits)+

lemma parseGitDiffHunk_size:
  assumes "parseGitDiffHunk hs = Inr (Some h, hs')"
  shows "hs_size hs' < hs_size hs"
proof (cases "hs_nextHunkHeader hs")
  case None
  with assms obtain l rest where "hs_input hs = l # rest"
    by (cases "hs_input hs") (auto simp: parseGitDiffHunk_def take_header_line_def)
  with assms None show ?thesis
    by (auto simp: parseGitDiffHunk_def take_header_line_def hs_size_def Let_def res_simps
        split: if_splits sum.splits dest!: hunk_lines_loop_size)
next
  case (Some l)
  with assms show ?thesis
    by (auto simp: parseGitDiffHunk_def take_header_line_def hs_size_def Let_def res_simps
        split: if_splits sum.splits dest!: hunk_lines_loop_size)
qed

function parse_hunks :: "HunkScanner \<Rightarrow> (diff_error, GitDiffHunk list) res" where
  "parse_hunks hs =
     (case parseGitDiffHunk hs of
        Inl e \<Rightarrow> Inl e
      | Inr (None, hs') \<Rightarrow> Inr []
      | Inr (Some h, hs') \<Rightarrow> bind_res (parse_hunks hs') (\<lambda>hunks. Inr (h # hunks)))"
  by pat_completeness auto
termination
  by (relation "measure hs_size") (auto dest: parseGitDiffHunk_size)

declare parse_hunks.simps [simp del]

text \<open>
  \<^verbatim>\<open>parseGitUnifiedDiff\<close>: nil for a missing header, a scanner error or a binary file.
\<close>

definition parseGitUnifiedDiff ::
    "diff_error option \<Rightarrow> string list \<Rightarrow> (diff_error, GitDiff option) res" where
  "parseGitUnifiedDiff scanErr input =
     (case parseGitDiffHeader scanErr input of
        Inl (Error _) \<Rightarrow> Inr None
      | Inl (Panic p) \<Rightarrow> Inl (Panic p)
      | Inr (None, _) \<Rightarrow> Inr None
      | Inr (Some header, rest) \<Rightarrow>
          if dh_IsBinary header then Inr None
          else bind_res (parse_hunks \<lparr>hs_input = rest, hs_nextHunkHeader = None\<rparr>)
            (\<lambda>hunks. Inr (Some \<lparr>gd_Header = [], gd_Contents = [], gd_Hunks = hunks,
               gd_IsBinary = dh_IsBinary header, gd_MaxLineNumber = 0,
               gd_HasHiddenBidiChars = False\<rparr>)))"

text \<open>
  \<^verbatim>\<open>GetDiffBetweenTwoCommits\<close>. Running git is a parameter: from the arguments it gives the
  error of starting the command, or the bytes of standard output and the error, if any,
  with which the scanner stops. The exit status is never looked at.
\<close>

definition diff_args :: "string \<Rightarrow> string \<Rightarrow> string \<Rightarrow> string \<Rightarrow> bool \<Rightarrow> string list" where
  "diff_args relativePath repoPath oldRev newRev hideWhitespace =
     [''-C'', repoPath, ''diff'', oldRev, newRev]
     @ (if hideWhitespace then [''-w''] else [])
     @ [''-z'', ''--no-color'', ''--'', relativePath]"

definition GetDiffBetweenTwoCommits ::
    "(string list \<Rightarrow> string + (string \<times> diff_error option)) \<Rightarrow> string \<Rightarrow> string \<Rightarrow> string \<Rightarrow> string
     \<Rightarrow> bool \<Rightarrow> (diff_error, GitDiff option) res" where
  "GetDiffBetweenTwoCommits git relativePath repoPath oldRev newRev hideWhitespace =
     (case git (diff_args relativePath repoPath oldRev newRev hideWhitespace) of
        Inl err \<Rightarrow> Inl (Error (GitCommandError err))
      | Inr (out, scanErr) \<Rightarrow> parseGitUnifiedDiff scanErr (scan_lines out))"

section \<open>Rows of the split view\<close>

record IDiffRowData =
  rd_Content :: string
  rd_LineNumber :: int
  rd_DiffLineNumber :: int
  rd_NoNewLineIndicator :: bool

definition zero_row_data :: IDiffRowData where
  "zero_row_data = \<lparr>rd_Content = [], rd_LineNumber = 0, rd_DiffLineNumber = 0,
     rd_NoNewLineIndicator = False\<rparr>"

text \<open>
  The five row types behind the interface \<^verbatim>\<open>IDiffRow\<close>, with their fields in order; the
  field \<^verbatim>\<open>Row\<close> is never set and stays nil.
\<close>

datatype IDiffRow =
    IDiffRowAdded GitDiffLineType IDiffRowData int "IDiffRow option"
  | IDiffRowDeleted GitDiffLineType IDiffRowData int "IDiffRow option"
  | IDiffRowModified GitDiffLineType IDiffRowData IDiffRowData int "IDiffRow option"
  | IDiffRowContext GitDiffLineType IDiffRowData string int int "IDiffRow option"
  | IDiffRowHunk GitDiffLineType string DiffHunkExpansionType int "IDiffRow option"

definition row_data :: "GitDiffLine \<Rightarrow> int \<Rightarrow> (diff_error, IDiffRowData) res" where
  "row_data gl lineNumber =
     bind_res (gl_content gl) (\<lambda>content.
       Inr \<lparr>rd_Content = content, rd_LineNumber = lineNumber,
            rd_DiffLineNumber = gl_OriginalLineNumber gl,
            rd_NoNewLineIndicator = gl_NoTrailingNewline gl\<rparr>)"

text \<open>
  The three loops of \<^verbatim>\<open>getModifiedDiffRows\<close>: pairs while both sides last, then the
  deleted lines that are left, then the added ones.
\<close>

definition modified_row :: "GitDiffLine \<Rightarrow> GitDiffLine \<Rightarrow> (diff_error, IDiffRow) res" where
  "modified_row deletedLine addedLine =
     bind_res (row_data deletedLine (gl_OldLineNumber deletedLine)) (\<lambda>oldData.
     bind_res (row_data addedLine (gl_NewLineNumber addedLine)) (\<lambda>newData.
       Inr (IDiffRowModified ModifiedLine oldData newData 0 None)))"

definition deleted_row :: "GitDiffLine \<Rightarrow> (diff_error, IDiffRow) res" where
  "deleted_row dl = bind_res (row_data dl (gl_OldLineNumber dl))
     (\<lambda>d. Inr (IDiffRowDeleted DeleteLine d 0 None))"

definition added_row :: "GitDiffLine \<Rightarrow> (diff_error, IDiffRow) res" where
  "added_row al = bind_res (row_data al (gl_NewLineNumber al))
     (\<lambda>d. Inr (IDiffRowAdded AddLine d 0 None))"

fun modified_rows :: "GitDiffLine list \<Rightarrow> GitDiffLine list \<Rightarrow> (diff_error, IDiffRow list) res" where
  "modified_rows (dl # dls) (al # als) =
     bind_res (modified_row dl al) (\<lambda>r. bind_res (modified_rows dls als) (\<lambda>rs. Inr (r # rs)))"
| "modified_rows dls [] = map_res deleted_row dls"
| "modified_rows [] als = map_res added_row als"

definition getModifiedDiffRows :: "GitDiffLine list \<Rightarrow> (diff_error, IDiffRow list) res" where
  "getModifiedDiffRows addedOrDeletedLines =
     (if addedOrDeletedLines = [] then Inr []
      else modified_rows
        (filter (\<lambda>l. gl_Type l = DeleteLine) addedOrDeletedLines)
        (filter (\<lambda>l. gl_Type l = AddLine) addedOrDeletedLines))"

text \<open>The row of a line that is neither added nor deleted; other types give none.\<close>

definition other_row :: "int \<Rightarrow> GitDiffLine \<Rightarrow> (diff_error, IDiffRow list) res" where
  "other_row hunkIndex line =
     (if gl_Type line = HunkLine then
        Inr [IDiffRowHunk HunkLine (gl_Text line) ExpansionUnset hunkIndex None]
      else if gl_Type line = ContextLine then
        bind_res (gl_content line) (\<lambda>content.
          Inr [IDiffRowContext ContextLine zero_row_data content
                 (gl_OldLineNumber line) (gl_NewLineNumber line) None])
      else Inr [])"

fun hunk_rows_loop ::
    "int \<Rightarrow> GitDiffLine list \<Rightarrow> GitDiffLine list \<Rightarrow> (diff_error, IDiffRow list) res" where
  "hunk_rows_loop hunkIndex modifiedLines [] = getModifiedDiffRows modifiedLines"
| "hunk_rows_loop hunkIndex modifiedLines (line # lines) =
     (if gl_Type line = AddLine \<or> gl_Type line = DeleteLine
      then hunk_rows_loop hunkIndex (modifiedLines @ [line]) lines
      else bind_res (getModifiedDiffRows modifiedLines) (\<lambda>pending.
           bind_res (other_row hunkIndex line) (\<lambda>row.
           bind_res (hunk_rows_loop hunkIndex [] lines) (\<lambda>rows.
             Inr (pending @ row @ rows)))))"

definition getDiffRowsFromHunk :: "GitDiffHunk \<Rightarrow> int \<Rightarrow> (diff_error, IDiffRow list) res" where
  "getDiffRowsFromHunk hunk hunkIndex = hunk_rows_loop hunkIndex [] (h_Lines hunk)"

definition GetDiffRowsSplit :: "GitDiff \<Rightarrow> (diff_error, IDiffRow list) res" where
  "GetDiffRowsSplit gd =
     bind_res (map_res (\<lambda>(i, hunk). getDiffRowsFromHunk hunk (int i)) (enumerate 0 (gd_Hunks gd)))
       (\<lambda>rowss. Inr (concat rowss))"

section \<open>What a hunk says\<close>

text \<open>
  The body of a hunk is a list of tagged lines: context, removed, or added. The old file's
  part is what is not added, the new file's what is not removed.
\<close>

datatype edit = Keep string | Remove string | Add string

fun edit_line :: "edit \<Rightarrow> string" where
  "edit_line (Keep s) = CHR '' '' # s"
| "edit_line (Remove s) = CHR ''-'' # s"
| "edit_line (Add s) = CHR ''+'' # s"

fun old_text :: "edit list \<Rightarrow> string list" where
  "old_text [] = []"
| "old_text (Keep s # es) = s # old_text es"
| "old_text (Remove s # es) = s # old_text es"
| "old_text (Add s # es) = old_text es"

fun new_text :: "edit list \<Rightarrow> string list" where
  "new_text [] = []"
| "new_text (Keep s # es) = s # new_text es"
| "new_text (Remove s # es) = new_text es"
| "new_text (Add s # es) = s # new_text es"

text \<open>The lines of the hunk, numbered by how many old and new lines come before.\<close>

fun numbered_line :: "int \<Rightarrow> int \<Rightarrow> edit \<Rightarrow> GitDiffLine" where
  "numbered_line b a (Keep s) = new_diff_line (CHR '' '' # s) ContextLine b a"
| "numbered_line b a (Remove s) = new_diff_line (CHR ''-'' # s) DeleteLine b 0"
| "numbered_line b a (Add s) = new_diff_line (CHR ''+'' # s) AddLine 0 a"

definition numbered_lines :: "int \<Rightarrow> int \<Rightarrow> edit list \<Rightarrow> GitDiffLine list" where
  "numbered_lines b a es =
     map (\<lambda>k. numbered_line (b + int (length (old_text (take k es))))
                (a + int (length (new_text (take k es)))) (es ! k)) [0..<length es]"

lemma numbered_lines_Nil [simp]: "numbered_lines b a [] = []"
  by (simp add: numbered_lines_def)

lemma numbered_lines_Cons:
  "numbered_lines b a (e # es) =
     numbered_line b a e #
     numbered_lines (b + int (length (old_text [e]))) (a + int (length (new_text [e]))) es"
  by (cases e) (simp_all add: numbered_lines_def upt_conv_Cons map_Suc_upt[symmetric]
      add.assoc del: upt_Suc)

lemma numbered_lines_simps [simp]:
  "numbered_lines b a (Keep s # es) = numbered_line b a (Keep s) # numbered_lines (b + 1) (a + 1) es"
  "numbered_lines b a (Remove s # es) = numbered_line b a (Remove s) # numbered_lines (b + 1) a es"
  "numbered_lines b a (Add s # es) = numbered_line b a (Add s) # numbered_lines b (a + 1) es"
  by (simp_all only: numbered_lines_Cons, simp_all)

lemma getDiffLineType_simps [simp]:
  "getDiffLineType (CHR '' '' # s) = ContextLine"
  "getDiffLineType (CHR ''-'' # s) = DeleteLine"
  "getDiffLineType (CHR ''+'' # s) = AddLine"
  "getDiffLineType (BACKSLASH # s) = NoTrailingNewlineLine"
  "getDiffLineType (CHR ''@'' # s) = UnknownLine"
  "getDiffLineType (CHR ''d'' # s) = UnknownLine"
  by (simp_all add: getDiffLineType_def)

lemma hunk_lines_loop_edits:
  "hunk_lines_loop acc b a (map edit_line es @ rest) =
     hunk_lines_loop (acc @ numbered_lines b a es)
       (b + int (length (old_text es))) (a + int (length (new_text es))) rest"
proof (induction es arbitrary: acc b a)
  case (Cons e es)
  show ?case by (cases e) (simp_all add: Cons.IH add.assoc)
qed simp

section \<open>Hunk headers\<close>

definition header_in_range :: "GitDiffHunkHeader \<Rightarrow> bool" where
  "header_in_range h \<longleftrightarrow>
     0 \<le> hh_OldStartLine h \<and> hh_OldStartLine h < 2 ^ 63 \<and>
     0 \<le> hh_OldLineCount h \<and> hh_OldLineCount h < 2 ^ 63 \<and>
     0 \<le> hh_NewStartLine h \<and> hh_NewStartLine h < 2 ^ 63 \<and>
     0 \<le> hh_NewLineCount h \<and> hh_NewLineCount h < 2 ^ 63"

lemma span_digits:
  assumes "\<not> is_digit c"
  shows "takeWhile is_digit (string_of_nat n @ c # s) = string_of_nat n"
    and "dropWhile is_digit (string_of_nat n @ c # s) = c # s"
  using assms string_of_nat_digits
  by (auto simp: takeWhile_append dropWhile_append)

lemma match_range_numbers:
  "match_range (string_of_nat m @ CHR '','' # string_of_nat n @ CHR '' '' # s) =
     Some (string_of_nat m, string_of_nat n, CHR '' '' # s)"
  by (simp add: match_range_def Let_def span_digits)

lemma numberFromGroup_string_of_nat:
  "n < 2 ^ 63 \<Longrightarrow> numberFromGroup (string_of_nat n) d = int n"
  by (simp add: numberFromGroup_def Atoi_string_of_nat)

lemma diffHeaderRe_toString:
  assumes "header_in_range h"
  shows "diffHeaderRe (hunk_header_toString h @ s) =
    Some (string_of_nat (nat (hh_OldStartLine h)), string_of_nat (nat (hh_OldLineCount h)),
          string_of_nat (nat (hh_NewStartLine h)), string_of_nat (nat (hh_NewLineCount h)))"
  using assms after_lit_append[of "''@@ -''"] after_lit_append[of "'' +''"]
    after_lit_append[of "'' @@''"]
  by (simp add: diffHeaderRe_def hunk_header_toString_def string_of_int_def header_in_range_def
      match_range_numbers)

lemma parse_header_toString:
  "header_in_range h \<Longrightarrow> parseGitDiffHunkHeader (hunk_header_toString h @ s) = Inr h"
  by (simp add: parseGitDiffHunkHeader_def diffHeaderRe_toString numberFromGroup_string_of_nat
      header_in_range_def nat_less_iff)

lemma toString_head: "\<exists>t. hunk_header_toString h = CHR ''@'' # t"
  by (simp add: hunk_header_toString_def)

section \<open>Hunks read back\<close>

text \<open>A hunk as git prints it: the header, what follows it on its line, and the body.\<close>

type_synonym hunk_text = "GitDiffHunkHeader \<times> string \<times> edit list"

definition hunk_header_line :: "hunk_text \<Rightarrow> string" where
  "hunk_header_line = (\<lambda>(h, sect, es). hunk_header_toString h @ sect)"

definition hunk_body :: "hunk_text \<Rightarrow> string list" where
  "hunk_body = (\<lambda>(h, sect, es). map edit_line es)"

definition hunk_printed :: "hunk_text \<Rightarrow> string list" where
  "hunk_printed t = hunk_header_line t # hunk_body t"

definition hunk_line :: "string \<Rightarrow> GitDiffLine" where
  "hunk_line l = \<lparr>gl_Text = l, gl_Type = HunkLine, gl_OriginalLineNumber = 1,
     gl_OldLineNumber = 0, gl_NewLineNumber = 0, gl_NoTrailingNewline = False\<rparr>"

definition hunk_meaning :: "hunk_text \<Rightarrow> GitDiffHunk" where
  "hunk_meaning = (\<lambda>(h, sect, es).
     \<lparr>h_Header = h,
      h_Lines = hunk_line (hunk_header_toString h @ sect)
        # numbered_lines (hh_OldStartLine h) (hh_NewStartLine h) es,
      h_UnifiedDiffStart = 0, h_UnifiedDiffEnd = 0, h_ExpansionType = ExpansionUnset\<rparr>)"

definition hunk_fine :: "hunk_text \<Rightarrow> bool" where
  "hunk_fine t \<longleftrightarrow> header_in_range (fst t)"

text \<open>The scanner between two hunks: the header line of the next one is kept back.\<close>

definition hunk_state :: "hunk_text list \<Rightarrow> HunkScanner" where
  "hunk_state ts = (case ts of
       [] \<Rightarrow> \<lparr>hs_input = [], hs_nextHunkHeader = None\<rparr>
     | t # us \<Rightarrow> \<lparr>hs_input = hunk_body t @ concat (map hunk_printed us),
                 hs_nextHunkHeader = Some (hunk_header_line t)\<rparr>)"

lemma hunk_lines_loop_rest:
  assumes "list_all hunk_fine ts"
  shows "hunk_lines_loop ls b a (concat (map hunk_printed ts)) =
    Inr (ls, hs_nextHunkHeader (hunk_state ts), hs_input (hunk_state ts))"
proof (cases ts)
  case (Cons t us)
  obtain h sect es where t: "t = (h, sect, es)" by (cases t)
  from assms Cons t have h: "header_in_range h" by (simp add: hunk_fine_def)
  obtain w where "hunk_header_toString h = CHR ''@'' # w" using toString_head by blast
  with diffHeaderRe_toString[OF h, of sect] show ?thesis
    by (simp add: Cons t hunk_state_def hunk_printed_def hunk_header_line_def)
qed (simp add: hunk_state_def)

lemma parseGitDiffHunk_state:
  assumes "hunk_fine t" "list_all hunk_fine us"
  shows "parseGitDiffHunk (hunk_state (t # us)) = Inr (Some (hunk_meaning t), hunk_state us)"
proof -
  obtain h sect es where t: "t = (h, sect, es)" by (cases t)
  from assms(1) t have h: "header_in_range h" by (simp add: hunk_fine_def)
  obtain w where w: "hunk_header_toString h = CHR ''@'' # w" using toString_head by blast
  show ?thesis
    using parse_header_toString[OF h, of sect] assms(2)
    by (simp add: parseGitDiffHunk_def take_header_line_def hunk_state_def[of "(h, sect, es) # us"] t
        hunk_header_line_def hunk_body_def w hunk_lines_loop_edits hunk_lines_loop_rest
        hunk_meaning_def hunk_line_def)
qed

interpretation hunks: record_stream parseGitDiffHunk parse_hunks hunk_state hunk_meaning hunk_fine
proof unfold_locales
  show "parse_hunks s = (case parseGitDiffHunk s of
         Inl e \<Rightarrow> Inl e
       | Inr (None, s') \<Rightarrow> Inr []
       | Inr (Some a, s') \<Rightarrow> bind_res (parse_hunks s') (\<lambda>as. Inr (a # as)))" for s
    by (rule parse_hunks.simps)
  show "\<exists>s'. parseGitDiffHunk (hunk_state []) = Inr (None, s')"
    by (simp add: parseGitDiffHunk_def take_header_line_def hunk_state_def)
qed (rule parseGitDiffHunk_state)

text \<open>The first header has not been read yet when the loop starts.\<close>

lemma take_header_line_printed:
  "take_header_line \<lparr>hs_input = concat (map hunk_printed ts), hs_nextHunkHeader = None\<rparr> =
     take_header_line (hunk_state ts)"
  by (cases ts) (simp_all add: take_header_line_def hunk_state_def hunk_printed_def)

lemma parse_hunks_printed:
  assumes "list_all hunk_fine ts"
  shows "parse_hunks \<lparr>hs_input = concat (map hunk_printed ts), hs_nextHunkHeader = None\<rparr> =
    Inr (map hunk_meaning ts)"
proof -
  have "parse_hunks \<lparr>hs_input = concat (map hunk_printed ts), hs_nextHunkHeader = None\<rparr> =
      parse_hunks (hunk_state ts)"
    by (subst (1 2) parse_hunks.simps)
      (simp add: parseGitDiffHunk_def take_header_line_printed)
  then show ?thesis using hunks.read_all_render[OF assms] by simp
qed

text \<open>Lines of the extended header that say nothing about hunks.\<close>

definition header_only :: "string \<Rightarrow> bool" where
  "header_only l \<longleftrightarrow> \<not> HasPrefix l ''+++'' \<and> \<not> (HasPrefix l ''Binary files '' \<and> HasSuffix l ''differ'')"

lemma parseGitDiffHeader_plain:
  "list_all header_only pre \<Longrightarrow>
   parseGitDiffHeader e (pre @ (CHR ''+'' # CHR ''+'' # CHR ''+'' # nm) # rest) =
      Inr (Some \<lparr>dh_IsBinary = False\<rparr>, rest)"
  by (induction pre) (auto simp: header_only_def)

section \<open>Properties\<close>


section \<open>The two columns of the split view\<close>

fun before_cell :: "IDiffRow \<Rightarrow> (int \<times> string) list" where
  "before_cell (IDiffRowDeleted _ d _ _) = [(rd_LineNumber d, rd_Content d)]"
| "before_cell (IDiffRowModified _ b _ _ _) = [(rd_LineNumber b, rd_Content b)]"
| "before_cell (IDiffRowContext _ _ content b _ _) = [(b, content)]"
| "before_cell _ = []"

fun after_cell :: "IDiffRow \<Rightarrow> (int \<times> string) list" where
  "after_cell (IDiffRowAdded _ d _ _) = [(rd_LineNumber d, rd_Content d)]"
| "after_cell (IDiffRowModified _ _ a _ _) = [(rd_LineNumber a, rd_Content a)]"
| "after_cell (IDiffRowContext _ _ content _ a _) = [(a, content)]"
| "after_cell _ = []"

fun header_cell :: "IDiffRow \<Rightarrow> (int \<times> string) list" where
  "header_cell (IDiffRowHunk _ content _ i _) = [(i, content)]"
| "header_cell _ = []"

abbreviation column :: "(IDiffRow \<Rightarrow> (int \<times> string) list) \<Rightarrow> IDiffRow list \<Rightarrow> (int \<times> string) list" where
  "column cell rows \<equiv> concat (map cell rows)"

fun number_from :: "int \<Rightarrow> string list \<Rightarrow> (int \<times> string) list" where
  "number_from n [] = []"
| "number_from n (s # ss) = (n, s) # number_from (n + 1) ss"

text \<open>The same columns read off the lines of a hunk, before any pairing.\<close>

definition old_side :: "GitDiffLine list \<Rightarrow> (int \<times> string) list" where
  "old_side ls = map (\<lambda>l. (gl_OldLineNumber l, tl (gl_Text l)))
     (filter (\<lambda>l. gl_Type l = ContextLine \<or> gl_Type l = DeleteLine) ls)"

definition new_side :: "GitDiffLine list \<Rightarrow> (int \<times> string) list" where
  "new_side ls = map (\<lambda>l. (gl_NewLineNumber l, tl (gl_Text l)))
     (filter (\<lambda>l. gl_Type l = ContextLine \<or> gl_Type l = AddLine) ls)"

definition header_side :: "int \<Rightarrow> GitDiffLine list \<Rightarrow> (int \<times> string) list" where
  "header_side i ls = map (\<lambda>l. (i, gl_Text l)) (filter (\<lambda>l. gl_Type l = HunkLine) ls)"

lemmas side_defs = old_side_def new_side_def header_side_def

text \<open>Rows that show a given part of a hunk.\<close>

definition rows_show :: "int \<Rightarrow> GitDiffLine list \<Rightarrow> IDiffRow list \<Rightarrow> bool" where
  "rows_show i ls rows \<longleftrightarrow>
     column before_cell rows = old_side ls \<and> column after_cell rows = new_side ls \<and>
     column header_cell rows = header_side i ls"

definition has_text :: "GitDiffLine \<Rightarrow> bool" where
  "has_text l \<longleftrightarrow> gl_Text l \<noteq> []"

lemma gl_content_tl: "has_text l \<Longrightarrow> gl_content l = Inr (tl (gl_Text l))"
  by (cases "gl_Text l") (simp_all add: has_text_def gl_content_def)

lemma modified_rows_columns:
  assumes "list_all has_text dls" "list_all has_text als"
  shows "\<exists>rows. modified_rows dls als = Inr rows \<and>
    column before_cell rows = map (\<lambda>l. (gl_OldLineNumber l, tl (gl_Text l))) dls \<and>
    column after_cell rows = map (\<lambda>l. (gl_NewLineNumber l, tl (gl_Text l))) als \<and>
    column header_cell rows = [] \<and> length rows = max (length dls) (length als)"
  using assms
proof (induction dls als rule: modified_rows.induct)
  case (1 dl dls al als)
  then show ?case by (auto simp: modified_row_def row_data_def gl_content_tl)
next
  case (2 dls)
  then show ?case
    by (induction dls) (auto simp: deleted_row_def row_data_def gl_content_tl)
next
  case (3 al als)
  define xs where "xs = al # als"
  have "list_all has_text xs \<Longrightarrow> \<exists>rows. map_res added_row xs = Inr rows \<and>
      column before_cell rows = [] \<and>
      column after_cell rows = map (\<lambda>l. (gl_NewLineNumber l, tl (gl_Text l))) xs \<and>
      column header_cell rows = [] \<and> length rows = length xs"
    by (induction xs) (auto simp: added_row_def row_data_def gl_content_tl)
  with 3 show ?case by (simp add: xs_def)
qed

lemma getModifiedDiffRows_show:
  assumes "list_all has_text ms" "list_all isIncudableLine ms"
  shows "\<exists>rows. getModifiedDiffRows ms = Inr rows \<and> rows_show i ms rows"
proof (cases "ms = []")
  case True
  then show ?thesis by (simp add: getModifiedDiffRows_def rows_show_def side_defs)
next
  case False
  have kind: "gl_Type l = AddLine \<or> gl_Type l = DeleteLine" if "l \<in> set ms" for l
    using assms(2) that by (auto simp: list_all_iff isIncudableLine_def)
  have "filter (\<lambda>l. gl_Type l = DeleteLine) ms =
      filter (\<lambda>l. gl_Type l = ContextLine \<or> gl_Type l = DeleteLine) ms"
    "filter (\<lambda>l. gl_Type l = AddLine) ms =
      filter (\<lambda>l. gl_Type l = ContextLine \<or> gl_Type l = AddLine) ms"
    "filter (\<lambda>l. gl_Type l = HunkLine) ms = []"
    using kind by (force intro!: filter_cong simp: filter_empty_conv)+
  with False assms(1) show ?thesis
    using modified_rows_columns[of "filter (\<lambda>l. gl_Type l = DeleteLine) ms"
        "filter (\<lambda>l. gl_Type l = AddLine) ms"]
    by (auto simp: getModifiedDiffRows_def rows_show_def side_defs list_all_iff)
qed

lemma rows_show_append:
  "rows_show i ls rows \<Longrightarrow> rows_show i ls' rows' \<Longrightarrow> rows_show i (ls @ ls') (rows @ rows')"
  by (simp add: rows_show_def side_defs)

lemma other_row_show:
  "has_text l \<Longrightarrow> \<not> isIncudableLine l \<Longrightarrow> \<exists>rows. other_row i l = Inr rows \<and> rows_show i [l] rows"
  by (cases "gl_Type l") (simp_all add: other_row_def rows_show_def side_defs gl_content_tl
      isIncudableLine_def)

lemma hunk_rows_loop_show:
  assumes "list_all has_text (ms @ ls)" "list_all isIncudableLine ms"
  shows "\<exists>rows. hunk_rows_loop i ms ls = Inr rows \<and> rows_show i (ms @ ls) rows"
  using assms
proof (induction i ms ls rule: hunk_rows_loop.induct)
  case (1 i ms)
  then show ?case using getModifiedDiffRows_show by simp
next
  case (2 i ms l ls)
  show ?case
  proof (cases "isIncudableLine l")
    case True
    with "2.IH"(1) "2.prems" show ?thesis by (simp add: isIncudableLine_def)
  next
    case False
    then obtain rows where rows: "hunk_rows_loop i [] ls = Inr rows" "rows_show i ls rows"
      using "2.IH"(2) "2.prems" by (auto simp: isIncudableLine_def)
    obtain pending where pending: "getModifiedDiffRows ms = Inr pending" "rows_show i ms pending"
      using getModifiedDiffRows_show "2.prems" by (metis list_all_append)
    obtain row where row: "other_row i l = Inr row" "rows_show i [l] row"
      using other_row_show[of l i] False "2.prems"(1) by auto
    have "rows_show i (ms @ [l] @ ls) (pending @ row @ rows)"
      using rows row pending by (intro rows_show_append)
    with False rows row pending show ?thesis by (simp add: isIncudableLine_def)
  qed
qed

lemma numbered_lines_sides:
  "old_side (numbered_lines b a es) = number_from b (old_text es)"
  "new_side (numbered_lines b a es) = number_from a (new_text es)"
  "header_side i (numbered_lines b a es) = []"
  "list_all has_text (numbered_lines b a es)"
proof (induction es arbitrary: b a)
  case (Cons e es)
  { case 1 show ?case using Cons.IH(1) by (cases e) (simp_all add: side_defs new_diff_line_def) }
  { case 2 show ?case using Cons.IH(2) by (cases e) (simp_all add: side_defs new_diff_line_def) }
  { case 3 show ?case using Cons.IH(3) by (cases e) (simp_all add: side_defs new_diff_line_def) }
  { case 4 show ?case using Cons.IH(4) by (cases e) (simp_all add: has_text_def new_diff_line_def) }
qed (simp_all add: side_defs)

lemma hunk_line_sides:
  "old_side (hunk_line l # ls) = old_side ls"
  "new_side (hunk_line l # ls) = new_side ls"
  "header_side i (hunk_line l # ls) = (i, l) # header_side i ls"
  by (simp_all add: side_defs hunk_line_def)

lemma getDiffRowsFromHunk_meaning:
  "\<exists>rows. getDiffRowsFromHunk (hunk_meaning (h, sect, es)) i = Inr rows \<and>
     column before_cell rows = number_from (hh_OldStartLine h) (old_text es) \<and>
     column after_cell rows = number_from (hh_NewStartLine h) (new_text es) \<and>
     column header_cell rows = [(i, hunk_header_toString h @ sect)]"
proof -
  define ls where "ls = h_Lines (hunk_meaning (h, sect, es))"
  obtain w where w: "hunk_header_toString h = CHR ''@'' # w" using toString_head by blast
  have ls: "ls = hunk_line (hunk_header_toString h @ sect)
      # numbered_lines (hh_OldStartLine h) (hh_NewStartLine h) es"
    by (simp add: ls_def hunk_meaning_def)
  have "list_all has_text ls"
    by (simp add: ls numbered_lines_sides hunk_line_def has_text_def w)
  then obtain rows where "hunk_rows_loop i [] ls = Inr rows" "rows_show i ls rows"
    using hunk_rows_loop_show[of "[]" ls i] by auto
  moreover have "old_side ls = number_from (hh_OldStartLine h) (old_text es)"
    "new_side ls = number_from (hh_NewStartLine h) (new_text es)"
    "header_side i ls = [(i, hunk_header_toString h @ sect)]"
    by (simp_all add: ls hunk_line_sides numbered_lines_sides)
  ultimately show ?thesis
    by (simp add: getDiffRowsFromHunk_def rows_show_def ls_def)
qed

lemma map_res_enumerate:
  assumes "\<And>i x. x \<in> set xs \<Longrightarrow> \<exists>y. f (i, x) = Inr y \<and> P i x y"
  shows "\<exists>ys. map_res f (enumerate n xs) = Inr ys \<and>
    list_all2 (\<lambda>(i, x) y. P i x y) (enumerate n xs) ys"
  using assms
proof (induction xs arbitrary: n)
  case (Cons x xs)
  obtain y where y: "f (n, x) = Inr y" "P n x y" using Cons.prems by auto
  obtain ys where "map_res f (enumerate (Suc n) xs) = Inr ys"
    "list_all2 (\<lambda>(i, x) y. P i x y) (enumerate (Suc n) xs) ys"
    using Cons.IH[of "Suc n"] Cons.prems by auto
  with y show ?case by simp
qed simp

lemma column_concat:
  assumes "list_all2 (\<lambda>x rows. column cell rows = g x) xs rowss"
  shows "column cell (concat rowss) = concat (map g xs)"
  using assms by (induction rule: list_all2_induct) simp_all

definition shown_hunk :: "nat \<times> hunk_text \<Rightarrow> IDiffRow list \<Rightarrow> bool" where
  "shown_hunk = (\<lambda>(i, (h, sect, es)) rows.
     column before_cell rows = number_from (hh_OldStartLine h) (old_text es) \<and>
     column after_cell rows = number_from (hh_NewStartLine h) (new_text es) \<and>
     column header_cell rows = [(int i, hunk_header_toString h @ sect)])"

lemma GetDiffRowsSplit_meaning:
  assumes "gd_Hunks gd = map hunk_meaning ts"
  shows "\<exists>rowss. GetDiffRowsSplit gd = Inr (concat rowss) \<and>
    list_all2 shown_hunk (enumerate 0 ts) rowss"
proof -
  let ?f = "\<lambda>(i, t). getDiffRowsFromHunk (hunk_meaning t) (int i)"
  have "\<exists>rows. ?f (i, t) = Inr rows \<and> shown_hunk (i, t) rows" for i t
    using getDiffRowsFromHunk_meaning[of "fst t" "fst (snd t)" "snd (snd t)" "int i"]
    by (simp add: shown_hunk_def split_def)
  then obtain rowss where rowss: "map_res ?f (enumerate 0 ts) = Inr rowss"
    "list_all2 shown_hunk (enumerate 0 ts) rowss"
    using map_res_enumerate[of ts ?f "\<lambda>i t. shown_hunk (i, t)" 0] by (auto simp: split_def)
  have "map_res (\<lambda>(i, hunk). getDiffRowsFromHunk hunk (int i)) (enumerate n (map hunk_meaning ts)) =
      map_res ?f (enumerate n ts)" for n
    by (induction ts arbitrary: n) simp_all
  with rowss assms show ?thesis by (auto simp: GetDiffRowsSplit_def)
qed

text \<open>
  From the bytes git prints to the screen: a printed one-file diff parses, the split
  view of it is computed without a panic, and its left column is the old part of every
  hunk, its right column the new part, complete, in order, and numbered consecutively from
  the start lines of the hunk headers; the header rows carry the hunk's index and line.
\<close>

theorem split_view_columns:
  assumes "list_all header_only pre" "list_all hunk_fine ts"
  shows "\<exists>gd rows.
    parseGitUnifiedDiff e (pre @ (''+++'' @ nm) # concat (map hunk_printed ts)) = Inr (Some gd) \<and>
    GetDiffRowsSplit gd = Inr rows \<and>
    column before_cell rows =
      concat (map (\<lambda>(h, sect, es). number_from (hh_OldStartLine h) (old_text es)) ts) \<and>
    column after_cell rows =
      concat (map (\<lambda>(h, sect, es). number_from (hh_NewStartLine h) (new_text es)) ts) \<and>
    column header_cell rows =
      map (\<lambda>(i, h, sect, es). (int i, hunk_header_toString h @ sect)) (enumerate 0 ts)"
proof -
  obtain gd where gd: "gd_Hunks gd = map hunk_meaning ts"
    "parseGitUnifiedDiff e (pre @ (''+++'' @ nm) # concat (map hunk_printed ts)) = Inr (Some gd)"
    using assms
    by (fastforce simp: parseGitUnifiedDiff_def parseGitDiffHeader_plain parse_hunks_printed)
  obtain rowss where rowss: "GetDiffRowsSplit gd = Inr (concat rowss)"
    "list_all2 shown_hunk (enumerate 0 ts) rowss"
    using GetDiffRowsSplit_meaning[OF gd(1)] by blast
  have fsts: "map (\<lambda>(i, h, sect, es). f h es) (enumerate n ts) = map (\<lambda>(h, sect, es). f h es) ts"
    for n and f :: "GitDiffHunkHeader \<Rightarrow> edit list \<Rightarrow> (int \<times> string) list"
    by (induction ts arbitrary: n) auto
  have "column before_cell (concat rowss) = concat (map (\<lambda>(i, h, sect, es).
      number_from (hh_OldStartLine h) (old_text es)) (enumerate 0 ts))"
    "column after_cell (concat rowss) = concat (map (\<lambda>(i, h, sect, es).
      number_from (hh_NewStartLine h) (new_text es)) (enumerate 0 ts))"
    "column header_cell (concat rowss) = concat (map (\<lambda>(i, h, sect, es).
      [(int i, hunk_header_toString h @ sect)]) (enumerate 0 ts))"
    by (rule column_concat, rule list_all2_mono[OF rowss(2)], auto simp: shown_hunk_def)+
  moreover have "concat (map (\<lambda>(i, h, sect, es). [(int i, hunk_header_toString h @ sect)]) us) =
      map (\<lambda>(i, h, sect, es). (int i, hunk_header_toString h @ sect)) us"
    for us :: "(nat \<times> hunk_text) list"
    by (induction us) auto
  ultimately show ?thesis
    using gd(2) rowss(1) by (intro exI[of _ gd] exI[of _ "concat rowss"]) (simp only: fsts simp_thms)
qed

theorem split_view_columns_witness:
  "\<exists>gd rows.
    parseGitUnifiedDiff None [''diff --git a/f b/f'', ''--- a/f'', ''+++ b/f'',
      ''@@ -3,3 +4,2 @@ g'', '' x'', ''-y'', ''-z'', ''+w''] = Inr (Some gd) \<and>
    GetDiffRowsSplit gd = Inr rows \<and>
    column before_cell rows = [(3, ''x''), (4, ''y''), (5, ''z'')] \<and>
    column after_cell rows = [(4, ''x''), (5, ''w'')] \<and>
    column header_cell rows = [(0, ''@@ -3,3 +4,2 @@ g'')]"
proof -
  let ?h = "\<lparr>hh_OldStartLine = 3, hh_OldLineCount = 3, hh_NewStartLine = 4, hh_NewLineCount = 2\<rparr>"
  let ?t = "(?h, '' g'', [Keep ''x'', Remove ''y'', Remove ''z'', Add ''w''])"
  have "list_all header_only [''diff --git a/f b/f'', ''--- a/f'']"
    by (simp add: header_only_def)
  moreover have "list_all hunk_fine [?t]" by (simp add: hunk_fine_def header_in_range_def)
  moreover have "hunk_header_toString ?h = ''@@ -3,3 +4,2 @@''"
    by (simp add: hunk_header_toString_def string_of_int_def string_of_nat.simps)
  ultimately show ?thesis
    using split_view_columns[of "[''diff --git a/f b/f'', ''--- a/f'']" "[?t]" None "'' b/f''"]
    by (simp add: hunk_printed_def hunk_header_line_def hunk_body_def)
qed


text \<open>
  The marker for a missing newline is written to a slice that \<^verbatim>\<open>hunk.Lines\<close> no longer
  shares once a line has been appended.
\<close>

definition tail_unmarked :: "GitDiffLine list \<Rightarrow> bool" where
  "tail_unmarked ls \<longleftrightarrow> ls \<noteq> [] \<and> list_all (\<lambda>l. \<not> gl_NoTrailingNewline l) (tl ls)"

lemma tail_unmarked_snoc:
  "tail_unmarked ls \<Longrightarrow> tail_unmarked (ls @ [new_diff_line t ty b a])"
  by (cases ls) (simp_all add: tail_unmarked_def new_diff_line_def)

lemma tail_unmarked_mark: "tail_unmarked ls \<Longrightarrow> tail_unmarked (mark_no_newline ls)"
  by (auto simp: tail_unmarked_def mark_no_newline_def split: list.splits)

lemma hunk_lines_loop_unmarked:
  "hunk_lines_loop ls b a input = Inr (ls', next, rest) \<Longrightarrow> tail_unmarked ls \<Longrightarrow> tail_unmarked ls'"
  by (induction ls b a input rule: hunk_lines_loop.induct)
    (auto simp: Let_def tail_unmarked_snoc tail_unmarked_mark split: if_splits)

lemma parseGitDiffHunk_unmarked:
  assumes "parseGitDiffHunk hs = Inr (Some h, hs')"
  shows "tail_unmarked (h_Lines h)"
  using assms hunk_lines_loop_unmarked
  by (fastforce simp: parseGitDiffHunk_def Let_def res_simps tail_unmarked_def
      split: if_splits sum.splits prod.splits)

lemma parse_hunks_unmarked:
  "parse_hunks hs = Inr hunks \<Longrightarrow> list_all (\<lambda>h. tail_unmarked (h_Lines h)) hunks"
proof (induction hs arbitrary: hunks rule: parse_hunks.induct)
  case (1 hs)
  then show ?case
    by (subst (asm) parse_hunks.simps)
      (auto simp: res_simps parseGitDiffHunk_unmarked split: sum.splits option.splits)
qed

text \<open>
  No line of a parsed diff other than a hunk's own header line ever has
  \<^verbatim>\<open>NoTrailingNewline\<close> set, whatever the input: the marker line
  \<^verbatim>\<open>\ No newline at end of file\<close> has no effect on the line before it, although that is
  the purpose the code states for it.
\<close>

theorem no_trailing_newline_never_recorded:
  assumes "parseGitUnifiedDiff e input = Inr (Some gd)" "h \<in> set (gd_Hunks gd)"
    "l \<in> set (tl (h_Lines h))"
  shows "\<not> gl_NoTrailingNewline l"
proof -
  have "list_all (\<lambda>h. tail_unmarked (h_Lines h)) (gd_Hunks gd)"
    using assms(1) parse_hunks_unmarked
    by (fastforce simp: parseGitUnifiedDiff_def res_simps
        split: sum.splits option.splits failure.splits if_splits)
  with assms(2,3) show ?thesis by (auto simp: list_all_iff tail_unmarked_def)
qed

theorem no_trailing_newline_never_recorded_witness:
  "\<exists>gd h. parseGitUnifiedDiff None [''+++ b/f'', ''@@ -1,1 +1,1 @@'', ''-a'', ''+b'',
      BACKSLASH # '' No newline at end of file''] = Inr (Some gd) \<and> h \<in> set (gd_Hunks gd) \<and>
     (\<exists>l. l \<in> set (tl (h_Lines h)) \<and> gl_Text l = ''+b'' \<and> \<not> gl_NoTrailingNewline l)"
proof -
  let ?h = "\<lparr>h_Header = \<lparr>hh_OldStartLine = 1, hh_OldLineCount = 1, hh_NewStartLine = 1,
        hh_NewLineCount = 1\<rparr>,
      h_Lines = [hunk_line ''@@ -1,1 +1,1 @@'', new_diff_line ''-a'' DeleteLine 1 0,
        new_diff_line ''+b'' AddLine 0 1],
      h_UnifiedDiffStart = 0, h_UnifiedDiffEnd = 0, h_ExpansionType = ExpansionUnset\<rparr>"
  let ?gd = "\<lparr>gd_Header = [], gd_Contents = [], gd_Hunks = [?h], gd_IsBinary = False,
      gd_MaxLineNumber = 0, gd_HasHiddenBidiChars = False\<rparr>"
  have "parseGitDiffHunkHeader ''@@ -1,1 +1,1 @@'' = Inr (h_Header ?h)"
    using parse_header_toString[of "h_Header ?h" "[]"]
    by (simp add: hunk_header_toString_def string_of_int_def string_of_nat.simps header_in_range_def)
  then have "parseGitUnifiedDiff None [''+++ b/f'', ''@@ -1,1 +1,1 @@'', ''-a'', ''+b'',
      BACKSLASH # '' No newline at end of file''] = Inr (Some ?gd)"
    by (simp add: parseGitUnifiedDiff_def parse_hunks.simps parseGitDiffHunk_def
        take_header_line_def Let_def mark_no_newline_def hunk_line_def)
  moreover have "?h \<in> set (gd_Hunks ?gd)" by simp
  moreover have "new_diff_line ''+b'' AddLine 0 1 \<in> set (tl (h_Lines ?h))" by simp
  moreover have "gl_Text (new_diff_line ''+b'' AddLine 0 1) = ''+b''" by (simp add: new_diff_line_def)
  ultimately show ?thesis using no_trailing_newline_never_recorded by blast
qed

section \<open>A diff of several files\<close>

text \<open>
  The scanner between hunks when the hunks are followed by the header of another file,
  whose first line ends the last hunk and is dropped.
\<close>

definition state_before :: "string list \<Rightarrow> hunk_text list \<Rightarrow> HunkScanner" where
  "state_before others ts = (case ts of
       [] \<Rightarrow> \<lparr>hs_input = tl others, hs_nextHunkHeader = None\<rparr>
     | t # us \<Rightarrow> \<lparr>hs_input = hunk_body t @ concat (map hunk_printed us) @ others,
                 hs_nextHunkHeader = Some (hunk_header_line t)\<rparr>)"

lemma hunk_lines_loop_before:
  assumes "list_all hunk_fine ts" "diffHeaderRe (CHR ''d'' # d) = None"
  shows "hunk_lines_loop ls b a (concat (map hunk_printed ts) @ (CHR ''d'' # d) # others) =
    Inr (ls, hs_nextHunkHeader (state_before ((CHR ''d'' # d) # others) ts),
         hs_input (state_before ((CHR ''d'' # d) # others) ts))"
proof (cases ts)
  case Nil
  then show ?thesis using assms(2) by (simp add: state_before_def Let_def)
next
  case (Cons t us)
  obtain h sect es where t: "t = (h, sect, es)" by (cases t)
  from assms Cons t have h: "header_in_range h" by (simp add: hunk_fine_def)
  obtain w where "hunk_header_toString h = CHR ''@'' # w" using toString_head by blast
  with diffHeaderRe_toString[OF h, of sect] show ?thesis
    by (simp add: Cons t state_before_def hunk_printed_def hunk_header_line_def)
qed

lemma diffHeaderRe_d [simp]: "diffHeaderRe (CHR ''d'' # d) = None"
  by (simp add: diffHeaderRe_def after_lit_def)

lemma parse_hunks_before:
  assumes "list_all hunk_fine ts" "l \<noteq> []" "diffHeaderRe l = None"
  shows "parse_hunks (state_before ((CHR ''d'' # d) # l # others) ts) = Inl (Panic NilDereference)"
  using assms
proof (induction ts)
  case Nil
  then show ?case
    by (subst parse_hunks.simps)
      (simp add: state_before_def parseGitDiffHunk_def take_header_line_def
        parseGitDiffHunkHeader_def)
next
  case (Cons t us)
  obtain h sect es where t: "t = (h, sect, es)" by (cases t)
  from Cons.prems t have h: "header_in_range h" by (simp add: hunk_fine_def)
  obtain w where w: "hunk_header_toString h = CHR ''@'' # w" using toString_head by blast
  let ?others = "(CHR ''d'' # d) # l # others"
  have "parseGitDiffHunk (state_before ?others (t # us)) =
      Inr (Some (hunk_meaning t), state_before ?others us)"
    using parse_header_toString[OF h, of sect] Cons.prems(1)
    by (simp add: parseGitDiffHunk_def take_header_line_def
        state_before_def[of ?others "(h, sect, es) # us"] t hunk_header_line_def hunk_body_def w
        hunk_lines_loop_edits hunk_lines_loop_before hunk_meaning_def hunk_line_def)
  with Cons show ?case by (subst parse_hunks.simps) simp
qed

text \<open>
  A diff that covers a second file makes the parser panic: the first line of the second
  file's header ends the last hunk, and the next line, whatever it is, is taken for a hunk
  header; where it is not one, the nil header is printed before the error is looked at. The
  comment on the function says that it works for any number of files.
\<close>

theorem second_file_panics:
  assumes "list_all header_only pre" "list_all hunk_fine ts" "ts \<noteq> []"
    "l \<noteq> []" "diffHeaderRe l = None"
  shows "parseGitUnifiedDiff e
    (pre @ (''+++'' @ nm) # concat (map hunk_printed ts) @ (''diff '' @ d) # l # others) =
    Inl (Panic NilDereference)"
proof -
  let ?others = "(''diff '' @ d) # l # others"
  have "take_header_line \<lparr>hs_input = concat (map hunk_printed ts) @ ?others, hs_nextHunkHeader = None\<rparr>
      = take_header_line (state_before ?others ts)"
    using assms(3)
    by (cases ts) (simp_all add: take_header_line_def state_before_def hunk_printed_def)
  then have "parse_hunks \<lparr>hs_input = concat (map hunk_printed ts) @ ?others, hs_nextHunkHeader = None\<rparr>
      = parse_hunks (state_before ?others ts)"
    by (subst (1 2) parse_hunks.simps) (simp add: parseGitDiffHunk_def)
  also have "\<dots> = Inl (Panic NilDereference)"
    using parse_hunks_before[OF assms(2,4,5), of "''iff '' @ d" others] by simp
  finally show ?thesis using assms(1) by (simp add: parseGitUnifiedDiff_def parseGitDiffHeader_plain)
qed

theorem second_file_panics_witness:
  "parseGitUnifiedDiff None [''--- a/f'', ''+++ b/f'', ''@@ -1,1 +1,1 @@'', ''-a'', ''+b'',
     ''diff --git a/g b/g'', ''index 78981922613b..61780798228d 100644'', ''--- a/g'', ''+++ b/g'',
     ''@@ -1,1 +1,1 @@'', ''-c'', ''+d''] = Inl (Panic NilDereference)"
proof -
  let ?h = "\<lparr>hh_OldStartLine = 1, hh_OldLineCount = 1, hh_NewStartLine = 1, hh_NewLineCount = 1\<rparr>"
  let ?t = "(?h, [], [Remove ''a'', Add ''b''])"
  have "hunk_header_toString ?h = ''@@ -1,1 +1,1 @@''"
    by (simp add: hunk_header_toString_def string_of_int_def string_of_nat.simps)
  then show ?thesis
    using second_file_panics[of "[''--- a/f'']" "[?t]" "''index 78981922613b..61780798228d 100644''"
        None "'' b/f''" "''--git a/g b/g''" "[''--- a/g'', ''+++ b/g'',
        ''@@ -1,1 +1,1 @@'', ''-c'', ''+d'']"]
    by (simp add: hunk_fine_def header_in_range_def header_only_def hunk_printed_def
        hunk_header_line_def hunk_body_def diffHeaderRe_def after_lit_def)
qed

end
