(* ===== verification/DirTree.thy ===== *)
theory DirTree
  imports GoNumbers GoText GitFiles
begin

text \<open>
  The directory tree of \<^verbatim>\<open>server/fileviewer/fileview.go\<close>, built from the recursive
  \<^verbatim>\<open>git ls-tree\<close> listing with pointers up to the parent and down to the children. Nodes
  live in an explicit heap: a node's address is its position in the list, the root is 0,
  and nil is \<open>None\<close>.
\<close>

section \<open>Data and operations\<close>

record TreeNode =
  tn_Name :: string
  tn_Path :: string
  tn_Mode :: "32 word"
  tn_Hash :: string
  tn_ParentDir :: "nat option"
  tn_Type :: string
  tn_Children :: "nat list"

datatype tree_error =
    InvalidLsTree
  | InvalidSize string
  | InvalidMode num_error
  | LsTreeFailed string

record tree_state =
  ts_nodes :: "TreeNode list"
  ts_currDir :: "nat option"
  ts_prevDepth :: nat

text \<open>One line of the listing: mode, type, hash, size, and the name after the tab.\<close>

definition parse_ls_tree_line :: "string \<Rightarrow> (tree_error, TreeNode) res" where
  "parse_ls_tree_line line =
     (case Cut TAB line of
        None \<Rightarrow> Inl (Error InvalidLsTree)
      | Some (before_tab, name) \<Rightarrow>
          (case splitn_on 4 CHR '' '' before_tab of
             [mode_str, typ, sha, info3] \<Rightarrow>
               let sizeStr = TrimSpace info3; (size, size_err) = ParseInt 10 64 sizeStr in
               if sizeStr \<noteq> ''-'' \<and> (size_err \<noteq> None \<or> size < 0)
               then Inl (Error (InvalidSize sizeStr))
               else (case ParseInt 8 32 mode_str of
                   (modeVal, Some e) \<Rightarrow> Inl (Error (InvalidMode e))
                 | (modeVal, None) \<Rightarrow>
                     Inr \<lparr>tn_Name = name, tn_Path = name, tn_Mode = word_of_int modeVal,
                          tn_Hash = sha, tn_ParentDir = None, tn_Type = typ, tn_Children = []\<rparr>)
           | _ \<Rightarrow> Inl (Error InvalidLsTree)))"

text \<open>
  \<^verbatim>\<open>for prevDepth > pathDepth { currDir = currDir.ParentDir; prevDepth -= 1 }\<close>, with
  \<open>n\<close> rounds; following a nil pointer panics.
\<close>

fun climb :: "TreeNode list \<Rightarrow> nat option \<Rightarrow> nat \<Rightarrow> (tree_error, nat option) res" where
  "climb nodes currDir 0 = Inr currDir"
| "climb nodes None (Suc n) = Inl (Panic NilDereference)"
| "climb nodes (Some a) (Suc n) = climb nodes (tn_ParentDir (nodes ! a)) n"

definition add_entry :: "tree_state \<Rightarrow> TreeNode \<Rightarrow> (tree_error, tree_state) res" where
  "add_entry st entry =
     (let pathDepth = count_list (tn_Path entry) CHR ''/'' in
      bind_res (climb (ts_nodes st) (ts_currDir st) (ts_prevDepth st - pathDepth)) (\<lambda>currDir.
        case currDir of
          None \<Rightarrow> Inl (Panic NilDereference)
        | Some dir \<Rightarrow>
            let prevDepth = min (ts_prevDepth st) pathDepth;
                addr = length (ts_nodes st);
                dirNode = ts_nodes st ! dir;
                nodes = (ts_nodes st)[dir := dirNode\<lparr>tn_Children := tn_Children dirNode @ [addr]\<rparr>];
                named = entry\<lparr>tn_Name := path_Base (tn_Name entry)\<rparr>
            in if tn_Type entry = ''tree''
               then Inr \<lparr>ts_nodes = nodes @ [named\<lparr>tn_ParentDir := Some dir\<rparr>],
                         ts_currDir = Some addr, ts_prevDepth = prevDepth + 1\<rparr>
               else Inr \<lparr>ts_nodes = nodes @ [named], ts_currDir = Some dir,
                         ts_prevDepth = prevDepth\<rparr>))"

fun tree_loop :: "tree_state \<Rightarrow> string list \<Rightarrow> (tree_error, tree_state) res" where
  "tree_loop st [] = Inr st"
| "tree_loop st (line # lines) =
     bind_res (parse_ls_tree_line line) (\<lambda>entry.
     bind_res (add_entry st entry) (\<lambda>st'. tree_loop st' lines))"

definition root_node :: TreeNode where
  "root_node = \<lparr>tn_Name = ''root'', tn_Path = [], tn_Mode = 0, tn_Hash = [],
     tn_ParentDir = None, tn_Type = [], tn_Children = []\<rparr>"

definition init_state :: tree_state where
  "init_state = \<lparr>ts_nodes = [root_node], ts_currDir = Some 0, ts_prevDepth = 0\<rparr>"

definition buildDirectoryTree :: "string \<Rightarrow> (tree_error, TreeNode list) res" where
  "buildDirectoryTree out =
     bind_res (tree_loop init_state (butlast (split_on NUL out))) (\<lambda>st. Inr (ts_nodes st))"

definition ls_tree_args :: "string \<Rightarrow> string \<Rightarrow> string list" where
  "ls_tree_args repo commit =
     [''-C'', repo, ''ls-tree'', ''--long'', ''--full-name'', ''-z'', ''-r'', ''-t'', commit]"

definition GetLsTreeOutput ::
    "(string list \<Rightarrow> string + string) \<Rightarrow> string \<Rightarrow> string \<Rightarrow> (tree_error, string) res" where
  "GetLsTreeOutput git repo commit =
     (case git (ls_tree_args repo commit) of
        Inl err \<Rightarrow> Inl (Error (LsTreeFailed err))
      | Inr out \<Rightarrow> Inr out)"

definition BuildDirectoryTree ::
    "(string list \<Rightarrow> string + string) \<Rightarrow> string \<Rightarrow> string \<Rightarrow> (tree_error, TreeNode list) res" where
  "BuildDirectoryTree git repo commit =
     bind_res (GetLsTreeOutput git repo commit) buildDirectoryTree"

section \<open>The depth invariant\<close>

text \<open>
  Following parent pointers from the current directory leads to the root in exactly
  \<^verbatim>\<open>prevDepth\<close> steps, and every pointer of the heap is to a node of it.
\<close>

fun up :: "TreeNode list \<Rightarrow> nat \<Rightarrow> nat \<Rightarrow> nat option" where
  "up nodes 0 a = Some a"
| "up nodes (Suc n) a = (case tn_ParentDir (nodes ! a) of None \<Rightarrow> None | Some b \<Rightarrow> up nodes n b)"

definition heap_closed :: "TreeNode list \<Rightarrow> bool" where
  "heap_closed nodes \<longleftrightarrow> nodes \<noteq> [] \<and>
     (\<forall>n \<in> set nodes. (\<forall>p. tn_ParentDir n = Some p \<longrightarrow> p < length nodes) \<and>
        (\<forall>c \<in> set (tn_Children n). c < length nodes))"

definition tree_inv :: "tree_state \<Rightarrow> bool" where
  "tree_inv st \<longleftrightarrow> heap_closed (ts_nodes st) \<and>
     (\<exists>a. ts_currDir st = Some a \<and> a < length (ts_nodes st) \<and>
          up (ts_nodes st) (ts_prevDepth st) a = Some 0)"

lemma up_Some_climb: "up nodes n a = Some b \<Longrightarrow> climb nodes (Some a) n = Inr (Some b)"
  by (induction n arbitrary: a) (auto split: option.splits)

lemma up_add: "up nodes (m + n) a = Option.bind (up nodes m a) (up nodes n)"
  by (induction m arbitrary: a) (auto split: option.splits)

lemma up_split:
  "up nodes k a = Some b \<Longrightarrow> m + n = k \<Longrightarrow> \<exists>d. up nodes m a = Some d \<and> up nodes n d = Some b"
  by (auto simp: up_add Option.bind_eq_Some_conv)

lemma heap_closed_parent:
  "heap_closed nodes \<Longrightarrow> a < length nodes \<Longrightarrow> tn_ParentDir (nodes ! a) = Some p \<Longrightarrow> p < length nodes"
  using nth_mem[of a nodes] by (auto simp: heap_closed_def)

lemma up_in_heap:
  assumes "heap_closed nodes" "a < length nodes" "up nodes n a = Some b"
  shows "b < length nodes"
  using assms
proof (induction n arbitrary: a)
  case (Suc n)
  then show ?case by (auto dest: heap_closed_parent split: option.splits)
qed simp

text \<open>Parents are read only: appending a child or a node keeps every way up.\<close>

lemma up_same_parents:
  assumes "heap_closed nodes" "a < length nodes"
    and "\<And>x. x < length nodes \<Longrightarrow> tn_ParentDir (nodes' ! x) = tn_ParentDir (nodes ! x)"
  shows "up nodes' n a = up nodes n a"
  using assms(2)
proof (induction n arbitrary: a)
  case (Suc n)
  have "p < length nodes" if "tn_ParentDir (nodes ! a) = Some p" for p
    using that assms(1) Suc.prems by (rule heap_closed_parent[rotated 2])
  then show ?case using Suc by (auto simp: assms(3) split: option.splits)
qed simp

text \<open>A node appended to the heap and linked under a directory.\<close>

definition linked :: "TreeNode list \<Rightarrow> nat \<Rightarrow> TreeNode \<Rightarrow> TreeNode list" where
  "linked nodes dir node =
     nodes[dir := (nodes ! dir)\<lparr>tn_Children := tn_Children (nodes ! dir) @ [length nodes]\<rparr>] @ [node]"

definition entry_node :: "nat \<Rightarrow> TreeNode \<Rightarrow> TreeNode" where
  "entry_node dir entry =
     (entry\<lparr>tn_Name := path_Base (tn_Name entry),
            tn_ParentDir := (if tn_Type entry = ''tree'' then Some dir else tn_ParentDir entry)\<rparr>)"

lemma length_linked [simp]: "length (linked nodes dir node) = Suc (length nodes)"
  by (simp add: linked_def)

lemma linked_parent:
  "x < length nodes \<Longrightarrow> tn_ParentDir (linked nodes dir node ! x) = tn_ParentDir (nodes ! x)"
  by (cases "x = dir") (simp_all add: linked_def nth_append)

lemma linked_new [simp]: "linked nodes dir node ! length nodes = node"
  by (simp add: linked_def nth_append)

lemma linked_other: "x < length nodes \<Longrightarrow> x \<noteq> dir \<Longrightarrow> linked nodes dir node ! x = nodes ! x"
  by (simp add: linked_def nth_append)

lemma linked_dir:
  "dir < length nodes \<Longrightarrow> linked nodes dir node ! dir =
     (nodes ! dir)\<lparr>tn_Children := tn_Children (nodes ! dir) @ [length nodes]\<rparr>"
  by (simp add: linked_def nth_append)

lemma heap_closed_linked:
  assumes "heap_closed nodes" "dir < length nodes" "tn_Children node = []"
    and "\<And>p. tn_ParentDir node = Some p \<Longrightarrow> p < length nodes"
  shows "heap_closed (linked nodes dir node)"
proof -
  let ?d = "(nodes ! dir)\<lparr>tn_Children := tn_Children (nodes ! dir) @ [length nodes]\<rparr>"
  have sub: "set (linked nodes dir node) \<subseteq> set nodes \<union> {?d, node}"
    using set_update_subset_insert[of nodes dir ?d] by (auto simp: linked_def)
  have old: "(\<forall>p. tn_ParentDir n = Some p \<longrightarrow> p < length nodes) \<and>
      (\<forall>c \<in> set (tn_Children n). c < length nodes)" if "n \<in> set nodes" for n
    using that assms(1) by (auto simp: heap_closed_def)
  have "(\<forall>p. tn_ParentDir n = Some p \<longrightarrow> p < Suc (length nodes)) \<and>
      (\<forall>c \<in> set (tn_Children n). c < Suc (length nodes))" if "n \<in> set nodes \<union> {?d, node}" for n
    using that old[of n] old[of "nodes ! dir"] assms(2-4) by (fastforce simp: less_Suc_eq)
  with sub show ?thesis by (simp add: heap_closed_def linked_def) blast
qed

lemma add_entry_up:
  assumes "ts_currDir st = Some a"
    and "up (ts_nodes st) (ts_prevDepth st - count_list (tn_Path entry) CHR ''/'') a = Some dir"
  shows "add_entry st entry = Inr \<lparr>ts_nodes = linked (ts_nodes st) dir (entry_node dir entry),
      ts_currDir = Some (if tn_Type entry = ''tree'' then length (ts_nodes st) else dir),
      ts_prevDepth = min (ts_prevDepth st) (count_list (tn_Path entry) CHR ''/'')
        + (if tn_Type entry = ''tree'' then 1 else 0)\<rparr>"
  using assms by (simp add: add_entry_def up_Some_climb Let_def linked_def entry_node_def)

lemma add_entry_inv:
  assumes "tree_inv st" "tn_Children entry = []" "tn_ParentDir entry = None"
  shows "\<exists>st'. add_entry st entry = Inr st' \<and> tree_inv st'"
proof -
  let ?nodes = "ts_nodes st"
  let ?depth = "count_list (tn_Path entry) CHR ''/''"
  let ?n = "ts_prevDepth st - ?depth" and ?m = "min (ts_prevDepth st) ?depth"
  obtain a where a: "ts_currDir st = Some a" "a < length ?nodes"
    "up ?nodes (ts_prevDepth st) a = Some 0" and closed: "heap_closed ?nodes"
    using assms(1) by (auto simp: tree_inv_def)
  have "?n + ?m = ts_prevDepth st" by simp
  from up_split[OF a(3) this]
  obtain dir where dir: "up ?nodes ?n a = Some dir" "up ?nodes ?m dir = Some 0" by blast
  have in_heap: "dir < length ?nodes" by (rule up_in_heap[OF closed a(2) dir(1)])
  let ?new = "linked ?nodes dir (entry_node dir entry)"
  have closed': "heap_closed ?new"
    using closed in_heap assms(2,3)
    by (intro heap_closed_linked) (auto simp: entry_node_def split: if_splits)
  have up': "up ?new k dir = up ?nodes k dir" for k
    using closed in_heap by (rule up_same_parents) (rule linked_parent)
  show ?thesis
    using add_entry_up[OF a(1) dir(1)] closed' in_heap dir(2) up'
    by (auto simp: tree_inv_def entry_node_def less_Suc_eq)
qed

lemma parse_ls_tree_line_fresh:
  "parse_ls_tree_line line = Inr entry \<Longrightarrow> tn_Children entry = [] \<and> tn_ParentDir entry = None"
  by (auto simp: parse_ls_tree_line_def Let_def split: option.splits list.splits if_splits prod.splits)

lemma parse_ls_tree_line_no_panic: "\<not> is_panic (parse_ls_tree_line line)"
  by (auto simp: parse_ls_tree_line_def Let_def split: option.splits list.splits prod.splits)

lemma tree_loop_inv:
  "tree_inv st \<Longrightarrow>
     \<not> is_panic (tree_loop st lines) \<and> (\<forall>st'. tree_loop st lines = Inr st' \<longrightarrow> tree_inv st')"
proof (induction lines arbitrary: st)
  case (Cons line lines)
  show ?case
  proof (cases "parse_ls_tree_line line")
    case (Inl e)
    then show ?thesis using parse_ls_tree_line_no_panic[of line] by (auto simp: res_simps)
  next
    case (Inr entry)
    then obtain st' where "add_entry st entry = Inr st'" "tree_inv st'"
      using add_entry_inv[OF Cons.prems] parse_ls_tree_line_fresh by blast
    with Inr Cons.IH show ?thesis by simp
  qed
qed simp

lemma init_state_inv: "tree_inv init_state"
  by (simp add: tree_inv_def init_state_def heap_closed_def root_node_def)

text \<open>
  No listing, well-formed or not, makes the tree builder follow a nil pointer: climbing
  never passes the root. A tree it returns has no dangling pointer.
\<close>

theorem buildDirectoryTree_safe:
  "\<not> is_panic (buildDirectoryTree out) \<and>
   (case buildDirectoryTree out of Inr nodes \<Rightarrow> heap_closed nodes | Inl _ \<Rightarrow> True)"
  using tree_loop_inv[OF init_state_inv, of "butlast (split_on NUL out)"]
  by (auto simp: buildDirectoryTree_def tree_inv_def res_simps split: sum.splits)

section \<open>What the listing describes\<close>

text \<open>
  The abstract tree: a directory or another object (a blob, or the commit of a submodule)
  with what \<^verbatim>\<open>ls-tree\<close> prints of it.
\<close>

record ls_entry =
  ls_mode :: string
  ls_hash :: string
  ls_size :: string
  ls_name :: string

datatype ftree = Leaf string ls_entry | Dir ls_entry "ftree list"

definition entry_line :: "string \<Rightarrow> string \<Rightarrow> ls_entry \<Rightarrow> string" where
  "entry_line typ path e =
     ls_mode e @ CHR '' '' # typ @ CHR '' '' # ls_hash e @ CHR '' '' # ls_size e @ TAB # path"

text \<open>Every directory is listed before what is in it, with the path from the root.\<close>

fun listing_lines :: "string \<Rightarrow> ftree \<Rightarrow> string list" where
  "listing_lines pre (Leaf typ e) = [entry_line typ (pre @ ls_name e) e]"
| "listing_lines pre (Dir e ts) =
     entry_line ''tree'' (pre @ ls_name e) e
     # concat (map (listing_lines (pre @ ls_name e @ ''/'')) ts)"

definition ls_tree_printed :: "ftree list \<Rightarrow> string" where
  "ls_tree_printed ts = terminated NUL (concat (map (listing_lines []) ts))"

definition plain_word :: "string \<Rightarrow> bool" where
  "plain_word s \<longleftrightarrow> CHR '' '' \<notin> set s \<and> TAB \<notin> set s \<and> NUL \<notin> set s"

definition size_fine :: "string \<Rightarrow> bool" where
  "size_fine s \<longleftrightarrow> TAB \<notin> set s \<and> NUL \<notin> set s \<and>
     (TrimSpace s = ''-'' \<or> (\<exists>n. ParseInt 10 64 (TrimSpace s) = (n, None) \<and> 0 \<le> n))"

definition entry_fine :: "ls_entry \<Rightarrow> bool" where
  "entry_fine e \<longleftrightarrow> plain_word (ls_mode e) \<and> snd (ParseInt 8 32 (ls_mode e)) = None \<and>
     plain_word (ls_hash e) \<and> size_fine (ls_size e) \<and>
     ls_name e \<noteq> [] \<and> NUL \<notin> set (ls_name e) \<and> CHR ''/'' \<notin> set (ls_name e)"

fun ftree_fine :: "ftree \<Rightarrow> bool" where
  "ftree_fine (Leaf typ e) \<longleftrightarrow> plain_word typ \<and> typ \<noteq> ''tree'' \<and> entry_fine e"
| "ftree_fine (Dir e ts) \<longleftrightarrow> entry_fine e \<and> list_all ftree_fine ts"

text \<open>
  The heap holds the tree at an address: the fields of the node are those of the entry, a
  directory points to its parent and its children hold the subtrees in order. All nodes
  are at or above \<open>lo\<close>.
\<close>

definition node_shows :: "TreeNode \<Rightarrow> string \<Rightarrow> string \<Rightarrow> ls_entry \<Rightarrow> bool" where
  "node_shows n typ pre e \<longleftrightarrow> tn_Name n = ls_name e \<and> tn_Path n = pre @ ls_name e \<and>
     tn_Mode n = word_of_int (fst (ParseInt 8 32 (ls_mode e))) \<and> tn_Hash n = ls_hash e \<and>
     tn_Type n = typ"

fun holds_tree :: "nat \<Rightarrow> TreeNode list \<Rightarrow> nat \<Rightarrow> string \<Rightarrow> nat \<Rightarrow> ftree \<Rightarrow> bool"
  and holds_forest :: "nat \<Rightarrow> TreeNode list \<Rightarrow> nat \<Rightarrow> string \<Rightarrow> nat list \<Rightarrow> ftree list \<Rightarrow> bool" where
  "holds_tree lo h parent pre a (Leaf typ e) \<longleftrightarrow>
     lo \<le> a \<and> a < length h \<and> node_shows (h ! a) typ pre e \<and> tn_ParentDir (h ! a) = None \<and>
     tn_Children (h ! a) = []"
| "holds_tree lo h parent pre a (Dir e ts) \<longleftrightarrow>
     lo \<le> a \<and> a < length h \<and> node_shows (h ! a) ''tree'' pre e \<and>
     tn_ParentDir (h ! a) = Some parent \<and>
     holds_forest lo h a (pre @ ls_name e @ ''/'') (tn_Children (h ! a)) ts"
| "holds_forest lo h parent pre [] [] \<longleftrightarrow> True"
| "holds_forest lo h parent pre (a # as) (t # ts) \<longleftrightarrow>
     holds_tree lo h parent pre a t \<and> holds_forest lo h parent pre as ts"
| "holds_forest lo h parent pre _ _ \<longleftrightarrow> False"

lemma holds_frame:
  assumes "length h \<le> length h'" "\<And>x. lo \<le> x \<Longrightarrow> x < length h \<Longrightarrow> h' ! x = h ! x" "lo' \<le> lo"
  shows "holds_tree lo h p pre a t \<Longrightarrow> holds_tree lo' h' p pre a t"
    and "holds_forest lo h p pre as ts \<Longrightarrow> holds_forest lo' h' p pre as ts"
  using assms
  by (induction lo h p pre a t and lo h p pre as ts rule: holds_tree_holds_forest.induct) auto

lemma holds_forest_snoc:
  "holds_forest lo h p pre as ts \<Longrightarrow> holds_forest lo h p pre as' ts' \<Longrightarrow>
     holds_forest lo h p pre (as @ as') (ts @ ts')"
  by (induction lo h p pre as ts rule: holds_tree_holds_forest.induct(2)[of "\<lambda>_ _ _ _ _ _. True"]) auto

section \<open>Reading a line\<close>

lemma splitn_on_entry:
  assumes "plain_word a" "plain_word b" "plain_word c"
  shows "splitn_on 4 CHR '' '' (a @ CHR '' '' # b @ CHR '' '' # c @ CHR '' '' # s) = [a, b, c, s]"
  using assms by (simp add: numeral_eq_Suc splitn_on_append plain_word_def)

lemma parse_entry_line:
  assumes "entry_fine e" "plain_word typ"
  shows "parse_ls_tree_line (entry_line typ path e) =
    Inr \<lparr>tn_Name = path, tn_Path = path, tn_Mode = word_of_int (fst (ParseInt 8 32 (ls_mode e))),
         tn_Hash = ls_hash e, tn_ParentDir = None, tn_Type = typ, tn_Children = []\<rparr>"
proof -
  let ?info = "ls_mode e @ CHR '' '' # typ @ CHR '' '' # ls_hash e @ CHR '' '' # ls_size e"
  have "TAB \<notin> set ?info" using assms by (simp add: entry_fine_def plain_word_def size_fine_def)
  then have "Cut TAB (entry_line typ path e) = Some (?info, path)"
    using Cut_append[of TAB ?info path] by (simp add: entry_line_def)
  moreover have "splitn_on 4 CHR '' '' ?info = [ls_mode e, typ, ls_hash e, ls_size e]"
    using assms by (intro splitn_on_entry) (simp_all add: entry_fine_def)
  ultimately show ?thesis
    using assms(1)
    by (auto simp: parse_ls_tree_line_def Let_def entry_fine_def size_fine_def
        split: prod.splits)
qed

section \<open>Reading a subtree\<close>

text \<open>
  Before a subtree of directory \<open>p\<close> at depth \<open>d\<close> is read, going up from the current
  directory to that depth leads to \<open>p\<close>; reading it only adds nodes and appends to the
  children of \<open>p\<close>.
\<close>

definition ready :: "tree_state \<Rightarrow> string \<Rightarrow> nat \<Rightarrow> bool" where
  "ready st pre p \<longleftrightarrow> heap_closed (ts_nodes st) \<and> (pre = [] \<or> last pre = CHR ''/'') \<and>
     (\<exists>a. ts_currDir st = Some a \<and> a < length (ts_nodes st) \<and>
          count_list pre CHR ''/'' \<le> ts_prevDepth st \<and>
          up (ts_nodes st) (ts_prevDepth st - count_list pre CHR ''/'') a = Some p)"

definition grown :: "TreeNode list \<Rightarrow> TreeNode list \<Rightarrow> nat \<Rightarrow> nat list \<Rightarrow> bool" where
  "grown h h' p addrs \<longleftrightarrow> length h \<le> length h' \<and>
     (\<forall>x < length h. h' ! x =
        (if x = p then (h ! p)\<lparr>tn_Children := tn_Children (h ! p) @ addrs\<rparr> else h ! x))"

definition reads :: "tree_state \<Rightarrow> string \<Rightarrow> nat \<Rightarrow> ftree list \<Rightarrow> bool" where
  "reads st pre p ts \<longleftrightarrow> (\<exists>st' addrs.
     (\<forall>rest. tree_loop st (concat (map (listing_lines pre) ts) @ rest) = tree_loop st' rest) \<and>
     ready st' pre p \<and> grown (ts_nodes st) (ts_nodes st') p addrs \<and>
     holds_forest (length (ts_nodes st)) (ts_nodes st') p pre addrs ts)"

lemma grown_trans: "grown h h1 p as \<Longrightarrow> grown h1 h2 p bs \<Longrightarrow> grown h h2 p (as @ bs)"
  by (auto simp: grown_def)

lemma ready_in_heap: "ready st pre p \<Longrightarrow> p < length (ts_nodes st)"
  by (auto simp: ready_def intro: up_in_heap)

lemma reads_Nil: "ready st pre p \<Longrightarrow> reads st pre p []"
  unfolding reads_def
  by (rule exI[of _ st], rule exI[of _ "[]"]) (simp add: grown_def)

lemma reads_Cons:
  assumes "reads st pre p [t]" "p < length (ts_nodes st)"
    and "\<And>st'. ready st' pre p \<Longrightarrow> reads st' pre p ts"
  shows "reads st pre p (t # ts)"
proof -
  obtain st1 as where 1: "\<And>rest. tree_loop st (listing_lines pre t @ rest) = tree_loop st1 rest"
    "ready st1 pre p" "grown (ts_nodes st) (ts_nodes st1) p as"
    "holds_forest (length (ts_nodes st)) (ts_nodes st1) p pre as [t]"
    using assms(1) by (auto simp: reads_def)
  obtain st2 bs where 2:
    "\<And>rest. tree_loop st1 (concat (map (listing_lines pre) ts) @ rest) = tree_loop st2 rest"
    "ready st2 pre p" "grown (ts_nodes st1) (ts_nodes st2) p bs"
    "holds_forest (length (ts_nodes st1)) (ts_nodes st2) p pre bs ts"
    using assms(3)[OF 1(2)] by (auto simp: reads_def)
  have "holds_forest (length (ts_nodes st)) (ts_nodes st2) p pre as [t]"
    using holds_frame(2)[OF _ _ _ 1(4), of "ts_nodes st2" "length (ts_nodes st)"] 2(3) assms(2)
    by (auto simp: grown_def)
  moreover have "holds_forest (length (ts_nodes st)) (ts_nodes st2) p pre bs ts"
    using holds_frame(2)[OF _ _ _ 2(4), of "ts_nodes st2" "length (ts_nodes st)"] 1(3)
    by (simp add: grown_def)
  ultimately have "holds_forest (length (ts_nodes st)) (ts_nodes st2) p pre (as @ bs) (t # ts)"
    using holds_forest_snoc[of _ _ _ _ as "[t]" bs ts] by simp
  moreover have "\<And>rest. tree_loop st (concat (map (listing_lines pre) (t # ts)) @ rest) =
      tree_loop st2 rest"
    using 1(1) 2(1) by simp
  ultimately show ?thesis
    unfolding reads_def using 2(2) grown_trans[OF 1(3) 2(3)] by blast
qed

lemma count_list_append: "count_list (xs @ ys) x = count_list xs x + count_list ys x"
  by (induction xs) auto

lemma entry_path:
  assumes "entry_fine e" "pre = [] \<or> last pre = CHR ''/''"
  shows "count_list (pre @ ls_name e) CHR ''/'' = count_list pre CHR ''/''"
    and "path_Base (pre @ ls_name e) = ls_name e"
proof -
  show "count_list (pre @ ls_name e) CHR ''/'' = count_list pre CHR ''/''"
    using assms(1) by (simp add: count_list_append entry_fine_def count_notin)
  show "path_Base (pre @ ls_name e) = ls_name e"
  proof (cases "pre = []")
    case True
    then show ?thesis using assms(1) by (simp add: path_Base_plain entry_fine_def)
  next
    case False
    with assms(2) obtain q where "pre = q @ ''/''" by (metis append_butlast_last_id)
    then show ?thesis using assms(1) by (simp add: path_Base_append entry_fine_def)
  qed
qed

text \<open>The first line of a subtree: its own node.\<close>

lemma reads_entry:
  assumes "ready st pre p" "entry_fine e" "plain_word typ"
  shows "\<exists>st'. (\<forall>rest. tree_loop st (entry_line typ (pre @ ls_name e) e # rest) = tree_loop st' rest)
    \<and> grown (ts_nodes st) (ts_nodes st') p [length (ts_nodes st)]
    \<and> length (ts_nodes st') = Suc (length (ts_nodes st))
    \<and> node_shows (ts_nodes st' ! length (ts_nodes st)) typ pre e
    \<and> tn_Children (ts_nodes st' ! length (ts_nodes st)) = []
    \<and> tn_ParentDir (ts_nodes st' ! length (ts_nodes st)) = (if typ = ''tree'' then Some p else None)
    \<and> heap_closed (ts_nodes st')
    \<and> ts_currDir st' = Some (if typ = ''tree'' then length (ts_nodes st) else p)
    \<and> ts_prevDepth st' = count_list pre CHR ''/'' + (if typ = ''tree'' then 1 else 0)"
proof -
  let ?d = "count_list pre CHR ''/''"
  obtain a where a: "ts_currDir st = Some a" "?d \<le> ts_prevDepth st"
    "up (ts_nodes st) (ts_prevDepth st - ?d) a = Some p" and closed: "heap_closed (ts_nodes st)"
    and pre: "pre = [] \<or> last pre = CHR ''/''"
    using assms(1) by (auto simp: ready_def)
  let ?node = "\<lparr>tn_Name = pre @ ls_name e, tn_Path = pre @ ls_name e,
    tn_Mode = word_of_int (fst (ParseInt 8 32 (ls_mode e))), tn_Hash = ls_hash e,
    tn_ParentDir = None, tn_Type = typ, tn_Children = []\<rparr>"
  note path = entry_path[OF assms(2) pre]
  note p = ready_in_heap[OF assms(1)]
  let ?new = "linked (ts_nodes st) p (entry_node p ?node)"
  let ?st = "\<lparr>ts_nodes = ?new, ts_currDir = Some (if typ = ''tree'' then length (ts_nodes st) else p),
    ts_prevDepth = ?d + (if typ = ''tree'' then 1 else 0)\<rparr>"
  have "add_entry st ?node = Inr ?st"
    using add_entry_up[of st a ?node p] a path by (simp add: min_absorb2)
  then have "tree_loop st (entry_line typ (pre @ ls_name e) e # rest) = tree_loop ?st rest" for rest
    using parse_entry_line[OF assms(2,3)] by simp
  moreover have "heap_closed ?new"
    using closed p by (intro heap_closed_linked) (auto simp: entry_node_def split: if_splits)
  moreover have "grown (ts_nodes st) ?new p [length (ts_nodes st)]"
    using p by (auto simp: grown_def linked_dir linked_other)
  ultimately show ?thesis
    using path(2) by (intro exI[of _ ?st]) (simp add: entry_node_def node_shows_def)
qed

lemma reads_forest_if:
  assumes "\<And>t st. t \<in> set ts \<Longrightarrow> ready st pre p \<Longrightarrow> reads st pre p [t]" "ready st pre p"
  shows "reads st pre p ts"
  using assms
proof (induction ts arbitrary: st)
  case (Cons t ts)
  then have "reads st pre p [t]" by simp
  then show ?case by (rule reads_Cons) (use Cons in \<open>auto intro: ready_in_heap\<close>)
qed (simp add: reads_Nil)

text \<open>Leaving a directory: ready for its entries is ready for its siblings.\<close>

lemma ready_parent:
  assumes "ready st pre' n" "count_list pre' CHR ''/'' = Suc (count_list pre CHR ''/'')"
    "pre = [] \<or> last pre = CHR ''/''" "tn_ParentDir (ts_nodes st ! n) = Some p"
  shows "ready st pre p"
proof -
  let ?d = "count_list pre CHR ''/''"
  obtain c where c: "ts_currDir st = Some c" "c < length (ts_nodes st)"
    "Suc ?d \<le> ts_prevDepth st" "heap_closed (ts_nodes st)"
    "up (ts_nodes st) (ts_prevDepth st - Suc ?d) c = Some n"
    using assms(1,2) by (auto simp: ready_def)
  then have "ts_prevDepth st - ?d = ts_prevDepth st - Suc ?d + 1" by simp
  with c(5) have "up (ts_nodes st) (ts_prevDepth st - ?d) c = Some p"
    using assms(4) by (simp only: up_add) simp
  with c assms(3) show ?thesis by (simp add: ready_def)
qed

lemma reads_tree:
  "ftree_fine t \<Longrightarrow> ready st pre p \<Longrightarrow> reads st pre p [t]"
proof (induction t arbitrary: st pre p)
  case (Leaf ty e)
  then obtain st' where st': "\<And>rest. tree_loop st (listing_lines pre (Leaf ty e) @ rest) = tree_loop st' rest"
    "grown (ts_nodes st) (ts_nodes st') p [length (ts_nodes st)]"
    "length (ts_nodes st') = Suc (length (ts_nodes st))"
    "node_shows (ts_nodes st' ! length (ts_nodes st)) ty pre e"
    "tn_Children (ts_nodes st' ! length (ts_nodes st)) = []"
    "tn_ParentDir (ts_nodes st' ! length (ts_nodes st)) = None"
    "heap_closed (ts_nodes st')" "ts_currDir st' = Some p" "ts_prevDepth st' = count_list pre CHR ''/''"
    using reads_entry[OF Leaf.prems(2), of e ty] by auto
  have "ready st' pre p"
    using st' Leaf.prems(2) ready_in_heap[OF Leaf.prems(2)] by (simp add: ready_def)
  with st' show ?case
    unfolding reads_def by (intro exI[of _ st'] exI[of _ "[length (ts_nodes st)]"]) simp
next
  case (Dir e ts)
  let ?n = "length (ts_nodes st)" and ?pre = "pre @ ls_name e @ ''/''"
  have fine: "entry_fine e" and pw: "plain_word ''tree''" and "list_all ftree_fine ts"
    using Dir.prems(1) by (simp_all add: plain_word_def)
  have pre: "pre = [] \<or> last pre = CHR ''/''" using Dir.prems(2) by (simp add: ready_def)
  from reads_entry[OF Dir.prems(2) fine pw] obtain st1 where st1:
    "\<And>rest. tree_loop st (entry_line ''tree'' (pre @ ls_name e) e # rest) = tree_loop st1 rest"
    "grown (ts_nodes st) (ts_nodes st1) p [?n]" "length (ts_nodes st1) = Suc ?n"
    "node_shows (ts_nodes st1 ! ?n) ''tree'' pre e" "tn_Children (ts_nodes st1 ! ?n) = []"
    "tn_ParentDir (ts_nodes st1 ! ?n) = Some p" "heap_closed (ts_nodes st1)"
    "ts_currDir st1 = Some ?n" "ts_prevDepth st1 = Suc (count_list pre CHR ''/'')"
    by auto
  have depth: "count_list ?pre CHR ''/'' = Suc (count_list pre CHR ''/'')"
    using entry_path(1)[OF fine pre] by (simp add: count_list_append)
  have "ready st1 ?pre ?n" using st1 depth by (simp add: ready_def)
  then have "reads st1 ?pre ?n ts"
    by (rule reads_forest_if[rotated])
      (use Dir.IH \<open>list_all ftree_fine ts\<close> in \<open>auto simp: list_all_iff\<close>)
  then obtain st2 as where st2:
    "\<And>rest. tree_loop st1 (concat (map (listing_lines ?pre) ts) @ rest) = tree_loop st2 rest"
    "ready st2 ?pre ?n" "grown (ts_nodes st1) (ts_nodes st2) ?n as"
    "holds_forest (Suc ?n) (ts_nodes st2) ?n ?pre as ts"
    using st1(3) by (auto simp: reads_def)
  let ?node = "ts_nodes st2 ! ?n"
  have node: "?node = (ts_nodes st1 ! ?n)\<lparr>tn_Children := as\<rparr>"
    using st2(3) st1(3,5) by (simp add: grown_def)
  have "holds_forest ?n (ts_nodes st2) ?n ?pre as ts"
    by (rule holds_frame(2)[OF _ _ _ st2(4)]) simp_all
  then have "holds_forest ?n (ts_nodes st2) p pre [?n] [Dir e ts]"
    using node st1(3,4,6) st2(3) by (simp add: node_shows_def grown_def)
  moreover have "grown (ts_nodes st) (ts_nodes st2) p [?n]"
    using st1(2,3) st2(3) by (auto simp: grown_def)
  moreover have "ready st2 pre p"
    using ready_parent[OF st2(2) depth pre] node st1(6) by simp
  ultimately show ?case
    unfolding reads_def using st1(1) st2(1)
    by (intro exI[of _ st2] exI[of _ "[?n]"]) simp
qed

lemma reads_forest: "list_all ftree_fine ts \<Longrightarrow> ready st pre p \<Longrightarrow> reads st pre p ts"
  by (rule reads_forest_if) (auto simp: list_all_iff reads_tree)

lemma listing_lines_no_NUL:
  "ftree_fine t \<Longrightarrow> NUL \<notin> set pre \<Longrightarrow> list_all (\<lambda>l. NUL \<notin> set l) (listing_lines pre t)"
proof (induction pre t rule: listing_lines.induct)
  case (1 pre ty e)
  then show ?case
    by (simp add: entry_line_def entry_fine_def plain_word_def size_fine_def)
next
  case (2 pre e ts)
  then have "NUL \<notin> set (ls_name e)" by (simp add: entry_fine_def)
  with 2 show ?case
    by (simp add: entry_line_def entry_fine_def plain_word_def size_fine_def list_all_iff)
qed

lemma ready_init: "ready init_state [] 0"
  by (simp add: ready_def init_state_def heap_closed_def root_node_def)

lemma buildDirectoryTree_holds:
  assumes "list_all ftree_fine ts"
  shows "\<exists>nodes. buildDirectoryTree (ls_tree_printed ts) = Inr nodes \<and>
    holds_forest 1 nodes 0 [] (tn_Children (nodes ! 0)) ts"
proof -
  let ?lines = "concat (map (listing_lines []) ts)"
  have "list_all (\<lambda>l. NUL \<notin> set l) ?lines"
    using assms listing_lines_no_NUL[of _ "[]"] by (fastforce simp: list_all_iff)
  then have split: "split_on NUL (ls_tree_printed ts) = ?lines @ [[]]"
    using split_on_terminated[of NUL ?lines "[]"] by (simp add: ls_tree_printed_def)
  obtain st addrs where st: "\<And>rest. tree_loop init_state (?lines @ rest) = tree_loop st rest"
    "grown (ts_nodes init_state) (ts_nodes st) 0 addrs"
    "holds_forest (length (ts_nodes init_state)) (ts_nodes st) 0 [] addrs ts"
    using reads_forest[OF assms ready_init] by (auto simp: reads_def)
  from st(1)[of "[]"] have "tree_loop init_state ?lines = Inr st" by simp
  moreover have "tn_Children (ts_nodes st ! 0) = addrs"
    using st(2) by (simp add: grown_def init_state_def root_node_def)
  ultimately show ?thesis
    using st(3) split by (simp add: buildDirectoryTree_def init_state_def)
qed

text \<open>
  C1. The tree is the one the listing describes: for every forest of directories, files and
  submodules, building the tree from what \<^verbatim>\<open>git ls-tree -r -t\<close> prints gives a heap whose
  root has exactly that forest below it, in order, every node with its own name, its full
  path, mode, hash and type, and every directory with its parent.
\<close>

theorem BuildDirectoryTree_refines:
  assumes "list_all ftree_fine ts" "git (ls_tree_args repo commit) = Inr (ls_tree_printed ts)"
  shows "\<exists>nodes. BuildDirectoryTree git repo commit = Inr nodes \<and>
    holds_forest 1 nodes 0 [] (tn_Children (nodes ! 0)) ts"
  using buildDirectoryTree_holds[OF assms(1)] assms(2)
  by (simp add: BuildDirectoryTree_def GetLsTreeOutput_def)

theorem BuildDirectoryTree_refines_witness:
  "let e = (\<lambda>s n. \<lparr>ls_mode = ''100644'', ls_hash = ''beef'', ls_size = s, ls_name = n\<rparr>);
       ts = [Dir (e ''-'' ''d'') [Dir (e ''-'' ''e'') [Leaf ''blob'' (e ''12'' ''f'')]],
             Leaf ''blob'' (e ''7'' ''g'')]
   in \<exists>nodes. BuildDirectoryTree (\<lambda>_. Inr (ls_tree_printed ts)) ''r'' ''HEAD'' = Inr nodes \<and>
        holds_forest 1 nodes 0 [] (tn_Children (nodes ! 0)) ts"
proof -
  define e where "e = (\<lambda>s n. \<lparr>ls_mode = ''100644'', ls_hash = ''beef'', ls_size = s, ls_name = n\<rparr>)"
  have trim: "TrimSpace ''-'' = ''-''" "TrimSpace ''12'' = ''12''" "TrimSpace ''7'' = ''7''"
    by (rule TrimSpace_all_graphic, force simp: graphic_def)+
  have num: "ParseInt 8 32 ''100644'' = (33188, None)" "ParseInt 10 64 ''12'' = (12, None)"
    "ParseInt 10 64 ''7'' = (7, None)"
    by (simp_all add: ParseInt_def ParseUint_def is_digit_def digit_value_def Let_def)
  have "entry_fine (e ''-'' ''d'')" "entry_fine (e ''-'' ''e'')" "entry_fine (e ''12'' ''f'')"
    "entry_fine (e ''7'' ''g'')"
    by (simp_all add: e_def entry_fine_def plain_word_def size_fine_def trim num)
  moreover define ts where "ts = [Dir (e ''-'' ''d'') [Dir (e ''-'' ''e'') [Leaf ''blob'' (e ''12'' ''f'')]],
             Leaf ''blob'' (e ''7'' ''g'')]"
  ultimately have "list_all ftree_fine ts" by (simp add: plain_word_def)
  from BuildDirectoryTree_refines[OF this, of "\<lambda>_. Inr (ls_tree_printed ts)" "''r''" "''HEAD''"]
  have "\<exists>nodes. BuildDirectoryTree (\<lambda>_. Inr (ls_tree_printed ts)) ''r'' ''HEAD'' = Inr nodes \<and>
      holds_forest 1 nodes 0 [] (tn_Children (nodes ! 0)) ts" by blast
  then show ?thesis by (simp only: ts_def e_def Let_def)
qed

end
