(* ===== verification/Templates.thy ===== *)
theory Templates
  imports DirTree UnifiedDiff SearchApi GoUrl
begin

text \<open>
  \<^verbatim>\<open>server/templates/templates.go\<close>: the helpers that the HTML templates call, and the file of
  asset hashes. A value of type \<^verbatim>\<open>template.HTML\<close> is put into the page as it is, so whatever a
  helper does not escape reaches the browser. The highlighter (\<^verbatim>\<open>chroma\<close>) is a parameter.
\<close>


section \<open>Parts of a line\<close>

record lineParts =
  lp_Prefix :: string
  lp_Highlighted :: string
  lp_Suffix :: string

definition splitCodeLineIntoParts :: "string \<Rightarrow> int list \<Rightarrow> (unit, lineParts) res" where
  "splitCodeLineIntoParts line bounds =
     bind_res (go_index bounds 0) (\<lambda>start.
     bind_res (go_index bounds 1) (\<lambda>end'.
     bind_res (go_slice line 0 start) (\<lambda>prefix.
     bind_res (go_slice line start end') (\<lambda>highlighted.
     bind_res (go_slice line end' (int (length line))) (\<lambda>suffix.
       Inr \<lparr>lp_Prefix = prefix, lp_Highlighted = highlighted, lp_Suffix = suffix\<rparr>)))))"

record CodePart =
  cdp_Line :: string
  cdp_Match :: bool

text \<open>The loop over the bounds; \<open>bounds\<close> are those still to come.\<close>

fun code_parts_loop :: "string \<Rightarrow> int \<Rightarrow> (int \<times> int) list \<Rightarrow> (unit, CodePart list) res" where
  "code_parts_loop line currIdx [] = Inr []"
| "code_parts_loop line currIdx ((leftBound, rightBound) # bounds) =
     bind_res (if leftBound > currIdx then
         bind_res (go_slice line currIdx leftBound) (\<lambda>s. Inr [\<lparr>cdp_Line = s, cdp_Match = False\<rparr>])
       else Inr []) (\<lambda>prefix.
     bind_res (go_slice line leftBound rightBound) (\<lambda>s.
     bind_res (if bounds = [] \<and> rightBound \<le> int (length line) then
         bind_res (go_slice line rightBound (int (length line))) (\<lambda>s. Inr [\<lparr>cdp_Line = s, cdp_Match = False\<rparr>])
       else code_parts_loop line rightBound bounds) (\<lambda>rest.
       Inr (prefix @ \<lparr>cdp_Line = s, cdp_Match = True\<rparr> # rest))))"

definition renderCodeLine :: "string \<Rightarrow> (int \<times> int) list \<Rightarrow> (unit, CodePart list) res" where
  "renderCodeLine line bounds = code_parts_loop line 0 bounds"

definition min_int :: "int \<Rightarrow> int \<Rightarrow> int" where
  "min_int a b = (if a < b then a else b)"

definition getFirstNFiles :: "FileResult list \<Rightarrow> int \<Rightarrow> (unit, FileResult list) res" where
  "getFirstNFiles s n = go_slice s 0 (min_int n (int (length s)))"

definition shouldInsertBlankLine :: "int \<Rightarrow> ResultLine list \<Rightarrow> (unit, bool) res" where
  "shouldInsertBlankLine currIdx lines =
     (let prevIdx = currIdx - 1 in
      if prevIdx < 0 then Inr False
      else
        bind_res (go_index lines currIdx) (\<lambda>cur.
        bind_res (go_index lines prevIdx) (\<lambda>prev.
          Inr (rl_LineNumber cur - rl_LineNumber prev \<noteq> 1))))"

definition getLineNumberLinkClass :: "(int \<times> int) list \<Rightarrow> string" where
  "getLineNumberLinkClass bounds = (if bounds \<noteq> [] then ''num-link match'' else ''num-link'')"

fun getDiffRowType :: "IDiffRow \<Rightarrow> string" where
  "getDiffRowType (IDiffRowAdded _ _ _ _) = ''added''"
| "getDiffRowType (IDiffRowDeleted _ _ _ _) = ''deleted''"
| "getDiffRowType (IDiffRowContext _ _ _ _ _ _) = ''context''"
| "getDiffRowType (IDiffRowModified _ _ _ _ _) = ''modified''"
| "getDiffRowType (IDiffRowHunk _ _ _ _ _) = ''hunk''"

definition getClassFromRowType :: "string \<Rightarrow> string" where
  "getClassFromRowType rowType = (if rowType = ''hunk'' then ''hunk-row'' else ''row'')"

section \<open>Assets\<close>

text \<open>\<^verbatim>\<open>strings.SplitN(s, sep, 2)\<close>.\<close>

definition split_two :: "string \<Rightarrow> string \<Rightarrow> string list" where
  "split_two s sep =
     (case index_opt s sep of None \<Rightarrow> [s] | Some i \<Rightarrow> [take i s, drop (i + length sep) s])"

text \<open>
  The lines of a \<^verbatim>\<open>bufio.Scanner\<close> with its usual buffer: it stops before a line that does not
  fit, and the loop does not ask why.
\<close>

definition scanned_lines :: "string \<Rightarrow> string list" where
  "scanned_lines input =
     (let ls = split_on NL input
      in map dropCR (takeWhile (\<lambda>l. length l < 65536) (if last ls = [] then butlast ls else ls)))"

fun asset_loop :: "string list \<Rightarrow> (string \<rightharpoonup> string) \<Rightarrow> (string, unit) res \<times> (string \<rightharpoonup> string)" where
  "asset_loop [] m = (Inr (), m)"
| "asset_loop (l # ls) m =
     (case split_two l ''  '' of
        hash # asset # _ \<Rightarrow> asset_loop ls (m(asset \<mapsto> hash))
      | _ \<Rightarrow> (Inl (Panic IndexOutOfRange), m))"

text \<open>The file is what opening and reading it gives; the map is cleared before it is filled.\<close>

definition LoadAssetHashes ::
    "string + string \<Rightarrow> (string \<rightharpoonup> string) \<Rightarrow> (string, unit) res \<times> (string \<rightharpoonup> string)" where
  "LoadAssetHashes f assetHashMap =
     (case f of
        Inl err \<Rightarrow> (Inl (Error err), assetHashMap)
      | Inr contents \<Rightarrow> asset_loop (scanned_lines contents) Map.empty)"

text \<open>\<^verbatim>\<open>hex.DecodeString\<close> gives the bytes before the first error.\<close>

fun hex_decode :: "string \<Rightarrow> string" where
  "hex_decode (a # b # s) =
     (if is_hex_any a \<and> is_hex_any b then char_of (16 * unhex a + unhex b) # hex_decode s else [])"
| "hex_decode _ = []"

definition base64_alphabet :: string where
  "base64_alphabet = ''ABCDEFGHIJKLMNOPQRSTUVWXYZabcdefghijklmnopqrstuvwxyz0123456789+/''"

abbreviation b64 :: "nat \<Rightarrow> char" where
  "b64 n \<equiv> base64_alphabet ! n"

fun base64_encode :: "string \<Rightarrow> string" where
  "base64_encode [] = []"
| "base64_encode [a] = [b64 (byte a div 4), b64 (byte a mod 4 * 16), CHR ''='', CHR ''='']"
| "base64_encode [a, b] =
     [b64 (byte a div 4), b64 (byte a mod 4 * 16 + byte b div 16), b64 (byte b mod 16 * 4), CHR ''='']"
| "base64_encode (a # b # c # s) =
     b64 (byte a div 4) # b64 (byte a mod 4 * 16 + byte b div 16) # b64 (byte b mod 16 * 4 + byte c div 64) #
     b64 (byte c mod 64) # base64_encode s"

definition asset_hash :: "(string \<rightharpoonup> string) \<Rightarrow> string \<Rightarrow> string" where
  "asset_hash m s = map_string m (TrimPrefix s ''/'')"

definition integrity_of :: "string \<Rightarrow> string" where
  "integrity_of hash = ''sha256-'' @ base64_encode (hex_decode hash)"

definition linkTag :: "string \<Rightarrow> string \<Rightarrow> string \<Rightarrow> (string \<rightharpoonup> string) \<Rightarrow> string" where
  "linkTag nonce rel s m =
     (let hash = asset_hash m s; href = s @ ''?v='' @ hash in
      ''<link'' @ nonce @ '' rel='' @ QUOTE # rel @ QUOTE # '' href='' @ QUOTE # href @ QUOTE # '' integrity='' @
      QUOTE # integrity_of hash @ QUOTE # '' />'')"

definition scriptTag :: "string \<Rightarrow> string \<Rightarrow> (string \<rightharpoonup> string) \<Rightarrow> string" where
  "scriptTag nonce s m =
     (let hash = asset_hash m s; href = s @ ''?v='' @ hash in
      ''<script'' @ nonce @ '' src='' @ QUOTE # href @ QUOTE # '' integrity='' @
      QUOTE # integrity_of hash @ QUOTE # ''></script>'')"

section \<open>The tree beside a page\<close>

definition imgLink :: string where
  "imgLink = ''<img src='' @ QUOTE # ''/assets/img/file-icon.svg'' @ QUOTE # '' width='' @ QUOTE # ''16px'' @ QUOTE #
     '' height='' @ QUOTE # ''16px'' @ QUOTE # '' />''"

definition getTreeItemLink :: "TreeNode \<Rightarrow> int \<Rightarrow> string \<Rightarrow> string \<Rightarrow> bool \<Rightarrow> string" where
  "getTreeItemLink node paddingLeft repoName repoRev fileInPath =
     (let link = ''/experimental/'' @ repoName @ ''/'' @ tn_Type node @ ''/'' @ repoRev @ ''/'' @ tn_Path node;
          btnCls = ''arrow'' @ (if fileInPath then '' expanded'' else []);
          buttonExpander = ''<button class='' @ QUOTE # ''expander'' @ QUOTE # ''><div class='' @ QUOTE # btnCls @ QUOTE #
            '' /></button>'';
          leftComp = (if tn_Type node = ''tree'' then buttonExpander else imgLink);
          padding = (if paddingLeft < 0 then 0 else paddingLeft)
      in ''<a style='' @ QUOTE # ''padding-left:'' @ string_of_int padding @ ''px;'' @ QUOTE # '' data-path='' @ QUOTE #
         tn_Path node @ QUOTE # '' data-hash='' @ QUOTE # repoRev @ QUOTE # '' href='' @ QUOTE # link @ QUOTE # ''>'' @
         leftComp @ ''<span>'' @ tn_Name node @ ''</span></a>'')"

definition rootPadding :: int where "rootPadding = - 15"

text \<open>
  \<^verbatim>\<open>RenderDirectoryTree\<close> and its loop over the children of a node, over the heap of nodes. A
  heap with a cycle would make it run for ever, which is \<open>None\<close>.
\<close>

datatype render_task = RenderNode nat int | RenderChildren "nat list" int bool

definition opening_html :: "TreeNode \<Rightarrow> int \<Rightarrow> string \<Rightarrow> string \<Rightarrow> string \<Rightarrow> string" where
  "opening_html node paddingLeft repoName repoRev filepath =
     ''<div class='' @ QUOTE # QUOTE #
     (if paddingLeft = rootPadding then ''id='' @ QUOTE # ''root'' @ QUOTE # ''>''
      else
        (let link = getTreeItemLink node paddingLeft repoName repoRev (HasPrefix filepath (tn_Path node)) in
         ''>'' @
         (if tn_Type node = ''tree'' then ''<div>'' @ link @ ''</div>''
          else ''<div class='' @ QUOTE # (if tn_Path node = filepath then ''selected'' else []) @ QUOTE # ''>'' @
            imgLink @ link @ ''</div>'')))"

definition children_html :: "bool \<Rightarrow> int \<Rightarrow> string \<Rightarrow> string" where
  "children_html fileInPath paddingLeft inner =
     ''<div class='' @ QUOTE # ''children'' @ (if fileInPath \<or> paddingLeft = rootPadding then '' expanded'' else []) @
     QUOTE # ''>'' @ inner @ ''</div>''"

definition leaf_html :: "TreeNode \<Rightarrow> int \<Rightarrow> string \<Rightarrow> string \<Rightarrow> string \<Rightarrow> bool \<Rightarrow> string" where
  "leaf_html child paddingLeft repoName repoRev filepath fileInPath =
     ''<div class='' @ QUOTE # (if tn_Path child = filepath then ''selected'' else []) @ QUOTE # ''>'' @
     getTreeItemLink child (paddingLeft + 15) repoName repoRev fileInPath @ ''</div>''"

definition closing_html :: "int \<Rightarrow> string" where
  "closing_html paddingLeft = ''</div>'' @ (if paddingLeft = rootPadding then ''</nav>'' else [])"

partial_function (option) render_job ::
    "TreeNode list \<Rightarrow> string \<Rightarrow> string \<Rightarrow> string \<Rightarrow> render_task \<Rightarrow> string option" where
  "render_job nodes repoName repoRev filepath job =
     (case job of
        RenderNode a paddingLeft \<Rightarrow>
          (if tn_Children (nodes ! a) = [] then
             Some (opening_html (nodes ! a) paddingLeft repoName repoRev filepath @ closing_html paddingLeft)
           else
             Option.bind (render_job nodes repoName repoRev filepath
                 (RenderChildren (tn_Children (nodes ! a)) paddingLeft (HasPrefix filepath (tn_Path (nodes ! a)))))
               (\<lambda>inner. Some (opening_html (nodes ! a) paddingLeft repoName repoRev filepath @
                  children_html (HasPrefix filepath (tn_Path (nodes ! a))) paddingLeft inner @
                  closing_html paddingLeft)))
      | RenderChildren cs paddingLeft fileInPath \<Rightarrow>
          (case cs of
             [] \<Rightarrow> Some []
           | c # cs' \<Rightarrow>
               Option.bind (if tn_Children (nodes ! c) = []
                   then Some (leaf_html (nodes ! c) paddingLeft repoName repoRev filepath fileInPath)
                   else render_job nodes repoName repoRev filepath (RenderNode c (paddingLeft + 15)))
                 (\<lambda>html. Option.bind (render_job nodes repoName repoRev filepath
                     (RenderChildren cs' paddingLeft fileInPath))
                   (\<lambda>rest. Some (html @ rest)))))"

definition RenderDirectoryTree ::
    "TreeNode list \<Rightarrow> nat option \<Rightarrow> int \<Rightarrow> string \<Rightarrow> string \<Rightarrow> string \<Rightarrow> string option" where
  "RenderDirectoryTree nodes rootDir paddingLeft repoName repoRev filepath =
     (case rootDir of
        None \<Rightarrow> Some []
      | Some a \<Rightarrow> render_job nodes repoName repoRev filepath (RenderNode a paddingLeft))"

section \<open>Highlighting\<close>

text \<open>\<^verbatim>\<open>html.EscapeString\<close>.\<close>

definition escape_char :: "char \<Rightarrow> string" where
  "escape_char c =
     (if c = CHR ''&'' then ''&amp;''
      else if c = CHR 0x27 then ''&#39;''
      else if c = CHR ''<'' then ''&lt;''
      else if c = CHR ''>'' then ''&gt;''
      else if c = QUOTE then ''&#34;''
      else [c])"

definition EscapeString :: "string \<Rightarrow> string" where
  "EscapeString s = concat (map escape_char s)"

type_synonym token = "int \<times> string"

text \<open>What is used of \<^verbatim>\<open>chroma\<close>: finding a lexer, its tokens, and the names of token types.\<close>

record 'l chroma =
  ch_Get :: "string \<Rightarrow> 'l option"
  ch_Match :: "string \<Rightarrow> 'l option"
  ch_Fallback :: 'l
  ch_Tokenise :: "'l \<Rightarrow> string \<Rightarrow> string + token list"
  ch_SplitTokensIntoLines :: "token list \<Rightarrow> token list list"
  ch_StandardTypes :: "int \<Rightarrow> string option"
  ch_Parent :: "int \<Rightarrow> int"

partial_function (option) getChromaClass :: "'l chroma \<Rightarrow> int \<Rightarrow> string option" where
  "getChromaClass ch t =
     (if t \<noteq> 0 then
        (case ch_StandardTypes ch t of
           Some cls \<Rightarrow> Some cls
         | None \<Rightarrow> getChromaClass ch (ch_Parent ch t))
      else Some (case ch_StandardTypes ch t of Some cls \<Rightarrow> cls | None \<Rightarrow> []))"

definition styleAttr :: "'l chroma \<Rightarrow> int \<Rightarrow> string option" where
  "styleAttr ch tt =
     map_option (\<lambda>cls. if cls = [] then [] else '' class='' @ QUOTE # cls @ [QUOTE]) (getChromaClass ch tt)"

fun spans :: "'l chroma \<Rightarrow> token list \<Rightarrow> string option" where
  "spans ch [] = Some []"
| "spans ch ((tt, s) # tokens) =
     Option.bind (styleAttr ch tt) (\<lambda>attr.
     Option.bind (spans ch tokens) (\<lambda>rest.
       Some (''<span'' @ attr @ ''>'' @ EscapeString s @ ''</span>'' @ rest)))"

fun span_lines :: "'l chroma \<Rightarrow> token list list \<Rightarrow> string list option" where
  "span_lines ch [] = Some []"
| "span_lines ch (tokens # ls) =
     Option.bind (spans ch tokens) (\<lambda>l. Option.bind (span_lines ch ls) (\<lambda>rest. Some (l # rest)))"

definition convertContentBlobToArrayOfLines :: "string \<Rightarrow> string list" where
  "convertContentBlobToArrayOfLines content = split_on NL content"

definition getLexerForFilename :: "'l chroma \<Rightarrow> string \<Rightarrow> 'l" where
  "getLexerForFilename ch filename = (case ch_Match ch filename of None \<Rightarrow> ch_Fallback ch | Some l \<Rightarrow> l)"

definition getSyntaxHighlightedLine :: "'l chroma \<Rightarrow> string \<Rightarrow> 'l \<Rightarrow> string option" where
  "getSyntaxHighlightedLine ch line l =
     (if TrimSpace line = [] then Some ''<span></span>''
      else (case ch_Tokenise ch l line of Inl err \<Rightarrow> Some line | Inr tokens \<Rightarrow> spans ch tokens))"

definition getSyntaxHighlightedContent :: "'l chroma \<Rightarrow> string \<Rightarrow> string \<Rightarrow> string \<Rightarrow> string list option" where
  "getSyntaxHighlightedContent ch content language filename =
     (case (case ch_Get ch language of None \<Rightarrow> ch_Match ch filename | Some l \<Rightarrow> Some l) of
        None \<Rightarrow> Some (convertContentBlobToArrayOfLines content)
      | Some l \<Rightarrow>
          (case ch_Tokenise ch l content of
             Inl err \<Rightarrow> Some (convertContentBlobToArrayOfLines content)
           | Inr tokens \<Rightarrow> span_lines ch (ch_SplitTokensIntoLines ch tokens)))"

section \<open>Lines with matches\<close>

fun ordered_bounds :: "int \<Rightarrow> int \<Rightarrow> (int \<times> int) list \<Rightarrow> bool" where
  "ordered_bounds i n [] \<longleftrightarrow> i \<le> n"
| "ordered_bounds i n ((l, r) # bs) \<longleftrightarrow> i \<le> l \<and> l \<le> r \<and> ordered_bounds r n bs"

lemma ordered_bounds_le: "ordered_bounds i n bs \<Longrightarrow> i \<le> n"
  by (induction bs arbitrary: i) fastforce+

text \<open>The piece of a line from one position to another.\<close>

definition piece :: "'a list \<Rightarrow> int \<Rightarrow> int \<Rightarrow> 'a list" where
  "piece s i j = take (nat (j - i)) (drop (nat i) s)"

lemma go_slice_piece: "0 \<le> i \<Longrightarrow> i \<le> j \<Longrightarrow> j \<le> int (length s) \<Longrightarrow> go_slice s i j = Inr (piece s i j)"
  by (simp add: piece_def)

lemma piece_append: "0 \<le> i \<Longrightarrow> i \<le> j \<Longrightarrow> j \<le> k \<Longrightarrow> piece s i j @ piece s j k = piece s i k"
proof -
  assume *: "0 \<le> i" "i \<le> j" "j \<le> k"
  then have "nat (k - i) = nat (j - i) + nat (k - j)" "nat j = nat (j - i) + nat i" by simp_all
  then show ?thesis by (simp add: piece_def take_add)
qed

lemma piece_empty [simp]: "piece s i i = []"
  by (simp add: piece_def)

lemma piece_all: "piece s 0 (int (length s)) = s"
  by (simp add: piece_def)

lemma code_parts_loop_ordered:
  assumes "bounds \<noteq> []" "ordered_bounds i (int (length line)) bounds" "0 \<le> i"
  shows "\<exists>ps. code_parts_loop line i bounds = Inr ps \<and>
    concat (map cdp_Line ps) = piece line i (int (length line)) \<and>
    map cdp_Line (filter cdp_Match ps) = map (\<lambda>(l, r). piece line l r) bounds"
  using assms
proof (induction line i bounds rule: code_parts_loop.induct)
  case (2 line i l r bounds)
  have le: "i \<le> l" "l \<le> r" "r \<le> int (length line)" "0 \<le> l" "0 \<le> r"
    using 2(3,4) ordered_bounds_le[of r] by auto
  let ?pre = "if i < l then [\<lparr>cdp_Line = piece line i l, cdp_Match = False\<rparr>] else []"
  obtain rest where rest: "(if bounds = [] \<and> r \<le> int (length line) then
         bind_res (go_slice line r (int (length line))) (\<lambda>s. Inr [\<lparr>cdp_Line = s, cdp_Match = False\<rparr>])
       else code_parts_loop line r bounds) = Inr rest"
    "concat (map cdp_Line rest) = piece line r (int (length line))"
    "map cdp_Line (filter cdp_Match rest) = map (\<lambda>(l, r). piece line l r) bounds"
  proof (cases "bounds = []")
    case True
    then show thesis
      using le that[of "[\<lparr>cdp_Line = piece line r (int (length line)), cdp_Match = False\<rparr>]"]
      by (simp add: go_slice_piece del: go_slice_ok)
  next
    case False
    then show thesis using 2(1) 2(3) le that by (auto simp: go_slice_piece simp del: go_slice_ok)
  qed
  have "concat (map cdp_Line ?pre) = piece line i l" using le(1) by (cases "i = l") simp_all
  then have "concat (map cdp_Line (?pre @ \<lparr>cdp_Line = piece line l r, cdp_Match = True\<rparr> # rest)) =
      piece line i l @ piece line l r @ piece line r (int (length line))"
    using rest(2) by simp
  also have "\<dots> = piece line i (int (length line))" using le 2(4) by (simp add: piece_append)
  finally have text': "concat (map cdp_Line (?pre @ \<lparr>cdp_Line = piece line l r, cdp_Match = True\<rparr> # rest)) =
      piece line i (int (length line))" .
  have "code_parts_loop line i ((l, r) # bounds) = Inr (?pre @ \<lparr>cdp_Line = piece line l r, cdp_Match = True\<rparr> # rest)"
    using le 2(4) rest(1) by (simp add: go_slice_piece del: go_slice_ok)
  then show ?case using text' rest(3) by auto
qed simp

text \<open>
  A line with matches is rendered without loss: where the bounds lie in the line, in order,
  the parts put together are the line, and the parts that are marked are what the bounds say.
\<close>

theorem renderCodeLine_parts:
  assumes "bounds \<noteq> []" "ordered_bounds 0 (int (length line)) bounds"
  shows "\<exists>ps. renderCodeLine line bounds = Inr ps \<and> concat (map cdp_Line ps) = line \<and>
    map cdp_Line (filter cdp_Match ps) = map (\<lambda>(l, r). take (nat (r - l)) (drop (nat l) line)) bounds"
  using code_parts_loop_ordered[OF assms] unfolding renderCodeLine_def piece_def[symmetric] by (simp add: piece_all)

lemma renderCodeLine_parts_witness:
  "\<exists>ps. renderCodeLine ''int foo'' [(0, 3), (4, 7)] = Inr ps \<and> concat (map cdp_Line ps) = ''int foo'' \<and>
     map cdp_Line (filter cdp_Match ps) = [''int'', ''foo'']"
  using renderCodeLine_parts[of "[(0, 3), (4, 7)]" "''int foo''"] by simp

lemma code_parts_loop_panics:
  "0 \<le> i \<Longrightarrow> is_panic (code_parts_loop line i bounds) \<longleftrightarrow>
     list_ex (\<lambda>(l, r). l < 0 \<or> r < l \<or> int (length line) < r) bounds"
proof (induction line i bounds rule: code_parts_loop.induct)
  case (2 line i l r bounds)
  show ?case
  proof (cases "l < 0 \<or> r < l \<or> int (length line) < r")
    case True
    then have "is_panic (go_slice line l r :: (unit, string) res)" by auto
    then show ?thesis using 2(2) True by (auto simp: is_panic_bind)
  next
    case False
    then show ?thesis using 2 by (auto simp: is_panic_bind)
  qed
qed simp

text \<open>
  Rendering a line panics exactly where some bound is not a range of the line, whatever the
  order of the bounds and however they overlap.
\<close>

theorem renderCodeLine_panics:
  "is_panic (renderCodeLine line bounds) \<longleftrightarrow>
     list_ex (\<lambda>(l, r). l < 0 \<or> r < l \<or> int (length line) < r) bounds"
  unfolding renderCodeLine_def by (rule code_parts_loop_panics) simp

section \<open>Asset hashes\<close>

definition asset_line :: "string \<times> string \<Rightarrow> string" where
  "asset_line = (\<lambda>(asset, hash). hash @ ''  '' @ asset)"

definition asset_fine :: "string \<times> string \<Rightarrow> bool" where
  "asset_fine = (\<lambda>(asset, hash). CHR '' '' \<notin> set hash \<and> NL \<notin> set hash \<and> NL \<notin> set asset \<and> asset \<noteq> [] \<and>
     last asset \<noteq> CR \<and> length hash + length asset + 2 < 65536)"

lemma split_two_line: "CHR '' '' \<notin> set h \<Longrightarrow> split_two (h @ ''  '' @ a) ''  '' = [h, a]"
proof -
  assume "CHR '' '' \<notin> set h"
  then have "index_opt (h @ ''  '' @ a) ''  '' = Some (length h)" by (induction h) auto
  then show ?thesis by (simp add: split_two_def)
qed

lemma asset_loop_lines:
  assumes "list_all asset_fine es"
  shows "asset_loop (map asset_line es) m = (Inr (), m ++ map_of (rev es))"
  using assms
proof (induction es arbitrary: m)
  case (Cons e es)
  obtain a h where e: "e = (a, h)" by (cases e)
  have "split_two (asset_line e) ''  '' = [h, a]"
    using Cons.prems by (simp add: e asset_line_def asset_fine_def split_two_line[simplified])
  then have "asset_loop (map asset_line (e # es)) m = asset_loop (map asset_line es) (m(a \<mapsto> h))" by simp
  also have "\<dots> = (Inr (), m(a \<mapsto> h) ++ map_of (rev es))" using Cons by simp
  finally show ?case by (simp add: e map_add_def fun_eq_iff split: option.splits)
qed simp

lemma scanned_lines_terminated:
  assumes "\<And>l. l \<in> set ls \<Longrightarrow> NL \<notin> set l \<and> length l < 65536"
  shows "scanned_lines (concat (map (\<lambda>l. l @ [NL]) ls)) = map dropCR ls"
proof -
  have "split_on NL (concat (map (\<lambda>l. l @ [NL]) ls)) = ls @ [[]]"
    using assms by (induction ls) (simp_all add: split_on_append)
  moreover have "takeWhile (\<lambda>l. length l < 65536) ls = ls" using assms by simp
  ultimately show ?thesis by (simp add: scanned_lines_def Let_def del: takeWhile_eq_all_conv)
qed

lemma asset_line_fine:
  "asset_fine e \<Longrightarrow> NL \<notin> set (asset_line e) \<and> length (asset_line e) < 65536 \<and> dropCR (asset_line e) = asset_line e"
  by (auto simp: asset_line_def asset_fine_def dropCR_def)

text \<open>
  The file of asset hashes is read back: each asset gets the hash of its last line, and
  nothing of the old map is left.
\<close>

theorem LoadAssetHashes_printed:
  assumes "list_all asset_fine es"
  shows "LoadAssetHashes (Inr (concat (map (\<lambda>e. asset_line e @ [NL]) es))) m = (Inr (), map_of (rev es))"
proof -
  have "scanned_lines (concat (map (\<lambda>l. l @ [NL]) (map asset_line es))) = map dropCR (map asset_line es)"
    using assms asset_line_fine by (intro scanned_lines_terminated) (auto simp: list_all_iff)
  also have "map dropCR (map asset_line es) = map asset_line es"
    using assms asset_line_fine by (auto simp: list_all_iff)
  finally have "scanned_lines (concat (map (\<lambda>e. asset_line e @ [NL]) es)) = map asset_line es"
    by (simp add: o_def)
  then show ?thesis using asset_loop_lines[OF assms] by (simp add: LoadAssetHashes_def)
qed

lemma LoadAssetHashes_printed_witness:
  "LoadAssetHashes (Inr (''ab  js/a b.js'' @ [NL] @ ''cd  css/c'' @ [NL])) m =
     (Inr (), [''js/a b.js'' \<mapsto> ''ab'', ''css/c'' \<mapsto> ''cd''])"
  using LoadAssetHashes_printed[of "[(''js/a b.js'', ''ab''), (''css/c'', ''cd'')]" m]
  by (simp add: asset_fine_def asset_line_def fun_upd_twist)

text \<open>
  A line of the file without two blanks, an empty one too, makes the server panic; the old
  hashes are gone by then.
\<close>

theorem LoadAssetHashes_panics:
  assumes "list_all asset_fine es" "NL \<notin> set l" "length l < 65536" "index_opt (dropCR l) ''  '' = None"
  shows "LoadAssetHashes (Inr (concat (map (\<lambda>e. asset_line e @ [NL]) es) @ l @ [NL])) m =
    (Inl (Panic IndexOutOfRange), map_of (rev es))"
proof -
  let ?ls = "map asset_line es"
  have "scanned_lines (concat (map (\<lambda>l. l @ [NL]) (?ls @ [l]))) = map dropCR (?ls @ [l])"
    using assms(1-3) asset_line_fine by (intro scanned_lines_terminated) (auto simp: list_all_iff)
  moreover have "map dropCR ?ls = ?ls" using assms(1) asset_line_fine by (auto simp: list_all_iff)
  ultimately have "scanned_lines (concat (map (\<lambda>e. asset_line e @ [NL]) es) @ l @ [NL]) = ?ls @ [dropCR l]"
    by (simp add: o_def)
  moreover have "asset_loop (?ls @ [dropCR l]) m' = (Inl (Panic IndexOutOfRange), m' ++ map_of (rev es))" for m'
    using assms(1)
  proof (induction es arbitrary: m')
    case Nil
    then show ?case using assms(4) by (simp add: split_two_def)
  next
    case (Cons e es)
    obtain a h where e: "e = (a, h)" by (cases e)
    have "split_two (asset_line e) ''  '' = [h, a]"
      using Cons.prems by (simp add: e asset_line_def asset_fine_def split_two_line[simplified])
    then show ?case using Cons by (simp add: e map_add_def fun_eq_iff split: option.splits)
  qed
  ultimately show ?thesis by (simp add: LoadAssetHashes_def)
qed

lemma LoadAssetHashes_panics_witness:
  "LoadAssetHashes (Inr (''ab  a.js'' @ [NL] @ [NL])) [''b.js'' \<mapsto> ''cd''] = (Inl (Panic IndexOutOfRange), [''a.js'' \<mapsto> ''ab''])"
  using LoadAssetHashes_panics[of "[(''a.js'', ''ab'')]" "[]" "[''b.js'' \<mapsto> ''cd'']"]
  by (simp add: asset_fine_def asset_line_def dropCR_def)

section \<open>Integrity of assets\<close>

text \<open>Reading base 64 back.\<close>

definition b64_digit :: "char \<Rightarrow> nat" where
  "b64_digit c = length (takeWhile (\<lambda>x. x \<noteq> c) base64_alphabet)"

fun base64_decode :: "string \<Rightarrow> string" where
  "base64_decode (p # q # r # s # rest) =
     (let n = 262144 * b64_digit p + 4096 * b64_digit q in
      if r = CHR ''='' then [char_of (n div 65536)]
      else if s = CHR ''='' then
        (let m = n + 64 * b64_digit r in [char_of (m div 65536), char_of (m div 256)])
      else
        (let m = n + 64 * b64_digit r + b64_digit s in
         char_of (m div 65536) # char_of (m div 256) # char_of m # base64_decode rest))"
| "base64_decode _ = []"

lemma b64_digit_table: "list_all (\<lambda>n. b64_digit (b64 n) = n \<and> b64 n \<noteq> CHR ''='') [0..<64]"
  by code_simp

lemma b64_digit [simp]: "n < 64 \<Longrightarrow> b64_digit (b64 n) = n" "n < 64 \<Longrightarrow> b64 n \<noteq> CHR ''=''"
  using b64_digit_table by (simp_all add: list_all_iff)

lemma char_of_mod: "char_of (n :: nat) = char_of (n mod 256)"
  by (metis char_of_mod_256)

lemma three_bytes:
  assumes "a < 256" "b < 256" "c < (256 :: nat)"
  shows "(65536 * a + 256 * b + c) div 65536 = a" "(65536 * a + 256 * b + c) div 256 = 256 * a + b"
    "(65536 * a + 256 * b + c) mod 256 = c"
proof -
  have "256 * b + c < 65536" using assms by linarith
  then show "(65536 * a + 256 * b + c) div 65536 = a" by (simp add: add.assoc)
  have split: "65536 * a + 256 * b + c = 256 * (256 * a + b) + c" by simp
  show "(65536 * a + 256 * b + c) div 256 = 256 * a + b" unfolding split using assms(3) by simp
  show "(65536 * a + 256 * b + c) mod 256 = c" using assms(3) by (metis split mod_mult_self4 mod_less)
qed

lemma sextets_sum:
  fixes a b c :: nat
  assumes "a = 4 * qa + ra" "b = 16 * qb + rb" "c = 64 * qc + rc"
  shows "262144 * qa + 4096 * (ra * 16 + qb) + 64 * (rb * 4 + qc) + rc = 65536 * a + 256 * b + c"
  using assms by simp

lemmas sextets = sextets_sum[OF mult_div_mod_eq[symmetric] mult_div_mod_eq[symmetric] mult_div_mod_eq[symmetric]]

lemma sextets_lt:
  "a < 256 \<Longrightarrow> a div 4 < (64 :: nat)" "b < 256 \<Longrightarrow> a mod 4 * 16 + b div 16 < (64 :: nat)"
  "c < 256 \<Longrightarrow> b mod 16 * 4 + c div 64 < (64 :: nat)"
proof -
  show "a div 4 < 64" if "a < 256" for a :: nat using that by simp
  show "a mod 4 * 16 + b div 16 < 64" if "b < 256" for a b :: nat
  proof -
    have "a mod 4 < 4" "b div 16 < 16" using that by simp_all
    then show ?thesis by linarith
  qed
  show "b mod 16 * 4 + c div 64 < 64" if "c < 256" for b c :: nat
  proof -
    have "b mod 16 < 16" "c div 64 < 4" using that by simp_all
    then show ?thesis by linarith
  qed
qed

lemma base64_group:
  assumes "a < 256" "b < 256" "c < 256" "p < 64" "q < 64" "r < 64" "t < 64"
    and "262144 * p + 4096 * q + 64 * r + t = 65536 * a + 256 * b + c"
  shows "base64_decode (b64 p # b64 q # b64 r # b64 t # rest) =
      char_of a # char_of b # char_of c # base64_decode rest"
    and "c = 0 \<Longrightarrow> t = 0 \<Longrightarrow> base64_decode [b64 p, b64 q, b64 r, CHR ''=''] = [char_of a, char_of b]"
    and "b = 0 \<Longrightarrow> c = 0 \<Longrightarrow> r = 0 \<Longrightarrow> t = 0 \<Longrightarrow> base64_decode [b64 p, b64 q, CHR ''='', CHR ''=''] = [char_of a]"
proof -
  define m where "m = 65536 * a + 256 * b + c"
  have m: "m div 65536 = a" "m div 256 = 256 * a + b" "m mod 256 = c"
    using three_bytes[OF assms(1-3)] by (simp_all add: m_def)
  have chars: "char_of (m div 65536) = (char_of a :: char)" "char_of (m div 256) = (char_of b :: char)"
      "char_of m = (char_of c :: char)"
    using m assms(2) char_of_mod[of m] char_of_mod[of "256 * a + b"] by simp_all
  note sum = assms(8)[folded m_def]
  show "base64_decode (b64 p # b64 q # b64 r # b64 t # rest) =
      char_of a # char_of b # char_of c # base64_decode rest"
    using assms(4-7) by (simp add: sum chars Let_def)
  show "base64_decode [b64 p, b64 q, b64 r, CHR ''=''] = [char_of a, char_of b]" if "c = 0" "t = 0"
    using assms(4-7) that sum chars by (simp add: Let_def)
  show "base64_decode [b64 p, b64 q, CHR ''='', CHR ''=''] = [char_of a]" if "b = 0" "c = 0" "r = 0" "t = 0"
    using assms(4-7) that sum chars by (simp add: Let_def)
qed

lemma base64_decode_encode: "base64_decode (base64_encode s) = s"
proof (induction s rule: base64_encode.induct)
  case (2 a)
  note group = base64_group(3)[of "byte a" 0 0 "byte a div 4" "byte a mod 4 * 16" 0 0]
  show ?case unfolding base64_encode.simps
    using group sextets[of "byte a" 0 0] sextets_lt(1)[of "byte a"] sextets_lt(2)[of 0 "byte a"] by auto
next
  case (3 a b)
  note group = base64_group(2)[of "byte a" "byte b" 0 "byte a div 4" "byte a mod 4 * 16 + byte b div 16" "byte b mod 16 * 4" 0]
  show ?case unfolding base64_encode.simps
    using group sextets[of "byte a" "byte b" 0] sextets_lt(1)[of "byte a"] sextets_lt(2)[of "byte b" "byte a"]
      sextets_lt(3)[of 0 "byte b"] by auto
next
  case (4 a b c s)
  have "byte c mod 64 < 64" by simp
  note group = base64_group(1)[OF byte_lt_256 byte_lt_256 byte_lt_256 sextets_lt(1)[OF byte_lt_256]
      sextets_lt(2)[OF byte_lt_256] sextets_lt(3)[OF byte_lt_256] this sextets]
  show ?case unfolding base64_encode.simps group using 4 by simp
qed simp

text \<open>The bytes of a hash written in lower-case hexadecimal.\<close>

definition hex_digit :: "nat \<Rightarrow> char" where
  "hex_digit d = (if d < 10 then char_of (48 + d) else char_of (87 + d))"

definition hex_encode :: "string \<Rightarrow> string" where
  "hex_encode s = concat (map (\<lambda>c. [hex_digit (byte c div 16), hex_digit (byte c mod 16)]) s)"

lemma hex_digit [simp]: "d < 16 \<Longrightarrow> is_hex_any (hex_digit d)" "d < 16 \<Longrightarrow> unhex (hex_digit d) = d"
  by (auto simp: hex_digit_def is_hex_any_def is_hex_def is_digit_def unhex_def)

lemma hex_decode_encode: "hex_decode (hex_encode s) = s"
proof (induction s)
  case (Cons c s)
  have "byte c div 16 < 16" "byte c mod 16 < 16" using byte_lt_256[of c] by (simp_all add: div_less_iff_less_mult)
  then show ?case using Cons by (simp add: hex_encode_def)
qed (simp add: hex_encode_def)

text \<open>
  The tag of an asset carries its hash: the version in its address is the recorded hash,
  and the integrity value is its bytes in base 64.
\<close>

theorem linkTag_integrity:
  assumes "m (TrimPrefix s ''/'') = Some (hex_encode digest)"
  shows "\<exists>i. linkTag nonce rel s m =
      ''<link'' @ nonce @ '' rel='' @ QUOTE # rel @ QUOTE # '' href='' @ QUOTE # s @ ''?v='' @ hex_encode digest @
      QUOTE # '' integrity='' @ QUOTE # ''sha256-'' @ i @ QUOTE # '' />'' \<and>
    base64_decode i = digest"
  using assms base64_decode_encode[of digest]
  by (simp add: linkTag_def asset_hash_def map_string_def integrity_of_def hex_decode_encode)

lemma linkTag_integrity_witness:
  "\<exists>i. linkTag [] ''icon'' ''/f.ico'' [''f.ico'' \<mapsto> ''0aff''] = ''<link rel='' @ QUOTE # ''icon'' @ QUOTE # '' href='' @
      QUOTE # ''/f.ico?v=0aff'' @ QUOTE # '' integrity='' @ QUOTE # ''sha256-'' @ i @ QUOTE # '' />'' \<and>
    base64_decode i = [CHR 0x0A, CHR 0xFF]"
proof -
  have "hex_encode [CHR 0x0A, CHR 0xFF] = ''0aff''" by code_simp
  then show ?thesis
    using linkTag_integrity[of "[''f.ico'' \<mapsto> ''0aff'']" "''/f.ico''" "[CHR 0x0A, CHR 0xFF]" "[]" "''icon''"]
    by (simp add: TrimPrefix_def)
qed

section \<open>The links of the tree\<close>

text \<open>Strings that occur in a text one after the other.\<close>

fun in_order :: "string list \<Rightarrow> string \<Rightarrow> bool" where
  "in_order [] s \<longleftrightarrow> True"
| "in_order (l # ls) s \<longleftrightarrow> (\<exists>a b. s = a @ l @ b \<and> in_order ls b)"

lemma in_order_before: "in_order ls s \<Longrightarrow> in_order ls (p @ s)"
proof (cases ls)
  case (Cons l ls')
  moreover assume "in_order ls s"
  ultimately obtain a b where "s = a @ l @ b" "in_order ls' b" by auto
  then have "p @ s = (p @ a) @ l @ b \<and> in_order ls' b" by simp
  then show ?thesis unfolding Cons in_order.simps by blast
qed simp

lemma in_order_append: "in_order xs s \<Longrightarrow> in_order ys t \<Longrightarrow> in_order (xs @ ys) (s @ t)"
proof (induction xs arbitrary: s)
  case Nil
  then show ?case by (simp add: in_order_before)
next
  case (Cons x xs)
  then obtain a b where s: "s = a @ x @ b" "in_order xs b" by auto
  then have "s @ t = a @ x @ (b @ t)" "in_order (xs @ ys) (b @ t)" using Cons by simp_all
  then show ?case unfolding append_Cons in_order.simps by blast
qed

lemma in_order_mid: "s = p @ t @ q \<Longrightarrow> in_order ls t \<Longrightarrow> in_order ls s"
  using in_order_append[of ls t "[]" q] in_order_before[of ls "t @ q" p] by simp

lemma in_order_one: "s = p @ l @ q \<Longrightarrow> in_order [l] s"
  by auto

lemma in_order_infix: "in_order ls s \<Longrightarrow> l \<in> set ls \<Longrightarrow> \<exists>a b. s = a @ l @ b"
proof (induction ls arbitrary: s)
  case (Cons x xs)
  obtain a b where s: "s = a @ x @ b" "in_order xs b" using Cons.prems(1) by auto
  show ?case
  proof (cases "l = x")
    case False
    then obtain a' b' where "b = a' @ l @ b'" using Cons.IH[OF s(2)] Cons.prems(2) by auto
    then have "s = (a @ x @ a') @ l @ b'" using s by simp
    then show ?thesis by blast
  qed (use s in blast)
qed simp

text \<open>The links of a forest, a directory before what is in it.\<close>

definition shown_node :: "string \<Rightarrow> string \<Rightarrow> ls_entry \<Rightarrow> TreeNode" where
  "shown_node typ pre e = \<lparr>tn_Name = ls_name e, tn_Path = pre @ ls_name e, tn_Mode = 0, tn_Hash = ls_hash e,
     tn_ParentDir = None, tn_Type = typ, tn_Children = []\<rparr>"

fun tree_links :: "string \<Rightarrow> string \<Rightarrow> string \<Rightarrow> string \<Rightarrow> int \<Rightarrow> bool \<Rightarrow> ftree \<Rightarrow> string list" where
  "tree_links repo rev' file' pre padding inPath (Leaf typ e) =
     [getTreeItemLink (shown_node typ pre e) (padding + 15) repo rev' inPath]"
| "tree_links repo rev' file' pre padding inPath (Dir e ts) =
     (if ts = [] then [getTreeItemLink (shown_node ''tree'' pre e) (padding + 15) repo rev' inPath]
      else getTreeItemLink (shown_node ''tree'' pre e) (padding + 15) repo rev' (HasPrefix file' (pre @ ls_name e)) #
        concat (map (tree_links repo rev' file' (pre @ ls_name e @ ''/'') (padding + 15)
          (HasPrefix file' (pre @ ls_name e))) ts))"

lemma link_shown:
  "node_shows n typ pre e \<Longrightarrow> getTreeItemLink n padding repo rev' b = getTreeItemLink (shown_node typ pre e) padding repo rev' b"
  by (simp add: getTreeItemLink_def shown_node_def node_shows_def)

definition render_child ::
    "TreeNode list \<Rightarrow> string \<Rightarrow> string \<Rightarrow> string \<Rightarrow> nat \<Rightarrow> int \<Rightarrow> bool \<Rightarrow> string option" where
  "render_child nodes repo rev' file' c padding inPath =
     (if tn_Children (nodes ! c) = [] then Some (leaf_html (nodes ! c) padding repo rev' file' inPath)
      else render_job nodes repo rev' file' (RenderNode c (padding + 15)))"

lemma render_children_simps:
  "render_job nodes repo rev' file' (RenderChildren [] padding inPath) = Some []"
  "render_job nodes repo rev' file' (RenderChildren (c # cs) padding inPath) =
     Option.bind (render_child nodes repo rev' file' c padding inPath) (\<lambda>html.
     Option.bind (render_job nodes repo rev' file' (RenderChildren cs padding inPath)) (\<lambda>rest. Some (html @ rest)))"
  by (subst render_job.simps, simp add: render_child_def)+

lemma render_node_children:
  assumes "tn_Children (nodes ! a) \<noteq> []"
    and "render_job nodes repo rev' file' (RenderChildren (tn_Children (nodes ! a)) padding
      (HasPrefix file' (tn_Path (nodes ! a)))) = Some inner"
  shows "render_job nodes repo rev' file' (RenderNode a padding) =
    Some (opening_html (nodes ! a) padding repo rev' file' @
      children_html (HasPrefix file' (tn_Path (nodes ! a))) padding inner @ closing_html padding)"
  using assms by (subst render_job.simps) simp

lemma in_order_children: "in_order ls inner \<Longrightarrow> in_order ls (children_html b padding inner)"
  by (rule in_order_mid[of _ "''<div class='' @ QUOTE # ''children'' @
    (if b \<or> padding = rootPadding then '' expanded'' else []) @ QUOTE # ''>''" inner "''</div>''"])
    (simp_all add: children_html_def)

lemma in_order_leaf: "in_order [getTreeItemLink c (padding + 15) repo rev' b] (leaf_html c padding repo rev' file' b)"
  by (rule in_order_one[of _ "''<div class='' @ QUOTE # (if tn_Path c = file' then ''selected'' else []) @
    QUOTE # ''>''" _ "''</div>''"]) (simp add: leaf_html_def)

lemma in_order_opening:
  assumes "padding \<noteq> rootPadding" "tn_Type n = ''tree''"
  shows "in_order [getTreeItemLink n padding repo rev' (HasPrefix file' (tn_Path n))] (opening_html n padding repo rev' file')"
  by (rule in_order_one[of _ "''<div class='' @ QUOTE # QUOTE # ''><div>''" _ "''</div>''"])
    (simp add: assms opening_html_def Let_def)

lemma render_holds:
  "holds_tree lo h p pre a t \<Longrightarrow> - 15 \<le> padding \<Longrightarrow>
     \<exists>s. render_child h repo rev' file' a padding inPath = Some s \<and>
       in_order (tree_links repo rev' file' pre padding inPath t) s"
  "holds_forest lo h p pre as ts \<Longrightarrow> - 15 \<le> padding \<Longrightarrow>
     \<exists>s. render_job h repo rev' file' (RenderChildren as padding inPath) = Some s \<and>
       in_order (concat (map (tree_links repo rev' file' pre padding inPath) ts)) s"
proof (induction lo h p pre a t and lo h p pre as ts arbitrary: padding inPath and padding inPath
    rule: holds_tree_holds_forest.induct)
  case (1 lo h p pre a ty e)
  then show ?case
    using in_order_leaf[of "h ! a" padding repo rev' inPath file'] link_shown[of "h ! a" ty pre e]
    by (auto simp: render_child_def)
next
  case (2 lo h p pre a e ts)
  have n: "node_shows (h ! a) ''tree'' pre e" using 2(2) by simp
  then have path: "tn_Path (h ! a) = pre @ ls_name e" "tn_Type (h ! a) = ''tree''" by (simp_all add: node_shows_def)
  have forest: "holds_forest lo h a (pre @ ls_name e @ ''/'') (tn_Children (h ! a)) ts" using 2(2) by simp
  show ?case
  proof (cases "ts = []")
    case True
    then have "tn_Children (h ! a) = []" using forest by (cases "tn_Children (h ! a)") auto
    then show ?thesis
      using True in_order_leaf[of "h ! a" padding repo rev' inPath file'] link_shown[OF n]
      by (auto simp: render_child_def)
  next
    case False
    then have kids: "tn_Children (h ! a) \<noteq> []" using forest by (cases ts) auto
    have "- 15 \<le> padding + 15" using 2(3) by simp
    then obtain inner where inner: "render_job h repo rev' file' (RenderChildren (tn_Children (h ! a)) (padding + 15)
        (HasPrefix file' (pre @ ls_name e))) = Some inner"
      "in_order (concat (map (tree_links repo rev' file' (pre @ ls_name e @ ''/'') (padding + 15)
        (HasPrefix file' (pre @ ls_name e))) ts)) inner"
      using 2(1)[OF forest] by blast
    have "padding + 15 \<noteq> rootPadding" using 2(3) by (simp add: rootPadding_def)
    note begins = in_order_opening[OF this path(2), of repo rev' file', unfolded path(1) link_shown[OF n]]
    show ?thesis
      using render_node_children[OF kids, of repo rev' file' "padding + 15", unfolded path(1), OF inner(1)] False kids
        in_order_append[OF begins in_order_mid[OF refl in_order_children[OF inner(2)]], of "[]"]
      by (auto simp: render_child_def)
  qed
next
  case (4 lo h p pre a as t ts)
  then obtain s1 s2 where "render_child h repo rev' file' a padding inPath = Some s1"
      "in_order (tree_links repo rev' file' pre padding inPath t) s1"
      "render_job h repo rev' file' (RenderChildren as padding inPath) = Some s2"
      "in_order (concat (map (tree_links repo rev' file' pre padding inPath) ts)) s2" by fastforce
  then show ?case by (auto simp: render_children_simps intro: in_order_append)
qed (simp_all add: render_children_simps)

lemma render_built:
  assumes "list_all ftree_fine ts" "git (ls_tree_args repo' commit) = Inr (ls_tree_printed ts)"
  shows "\<exists>nodes html. BuildDirectoryTree git repo' commit = Inr nodes \<and>
    RenderDirectoryTree nodes (Some 0) rootPadding repo rev' file' = Some html \<and>
    in_order (concat (map (tree_links repo rev' file' [] rootPadding (HasPrefix file' (tn_Path (nodes ! 0)))) ts)) html"
proof -
  obtain nodes where nodes: "BuildDirectoryTree git repo' commit = Inr nodes"
      "holds_forest 1 nodes 0 [] (tn_Children (nodes ! 0)) ts"
    using buildDirectoryTree_holds[OF assms(1)] assms(2) by (auto simp: BuildDirectoryTree_def GetLsTreeOutput_def)
  have "- 15 \<le> rootPadding" by (simp add: rootPadding_def)
  then obtain inner where inner: "render_job nodes repo rev' file' (RenderChildren (tn_Children (nodes ! 0)) rootPadding
      (HasPrefix file' (tn_Path (nodes ! 0)))) = Some inner"
    "in_order (concat (map (tree_links repo rev' file' [] rootPadding (HasPrefix file' (tn_Path (nodes ! 0)))) ts)) inner"
    using render_holds(2)[OF nodes(2)] by blast
  show ?thesis
  proof (cases "tn_Children (nodes ! 0) = []")
    case True
    then have "ts = []" using nodes(2) by (cases ts) auto
    then show ?thesis using nodes(1) True by (simp add: RenderDirectoryTree_def) (subst render_job.simps, simp)
  next
    case False
    then show ?thesis
      using nodes(1) render_node_children[OF False inner(1)] in_order_mid[OF refl in_order_children[OF inner(2)]]
      by (simp add: RenderDirectoryTree_def)
  qed
qed

text \<open>
  C35. The tree beside a page has a link for every entry that git lists, a directory before what
  is in it, in the order of the listing, each with its name, its path and its depth.
\<close>

theorem RenderDirectoryTree_links:
  assumes "list_all ftree_fine ts" "git (ls_tree_args repo' commit) = Inr (ls_tree_printed ts)"
  shows "\<exists>nodes html. BuildDirectoryTree git repo' commit = Inr nodes \<and>
    RenderDirectoryTree nodes (Some 0) rootPadding repo rev' file' = Some html \<and>
    in_order (concat (map (tree_links repo rev' file' [] rootPadding (HasPrefix file' (tn_Path (nodes ! 0)))) ts)) html"
  using assms by (rule render_built)

lemma leaf_link_unescaped:
  "\<exists>a b. getTreeItemLink (shown_node ty pre e) padding repo rev' b' = a @ ''<span>'' @ ls_name e @ ''</span></a>'' @ b"
proof -
  let ?link = "\<lambda>name. getTreeItemLink ((shown_node ty pre e)\<lparr>tn_Name := name\<rparr>) padding repo rev' b'"
  have "\<exists>a. \<forall>name. ?link name = a @ ''<span>'' @ name @ ''</span></a>''"
    unfolding getTreeItemLink_def Let_def by (rule exI allI)+ (simp add: shown_node_def)
  then obtain a where "?link (ls_name e) = a @ ''<span>'' @ ls_name e @ ''</span></a>'' @ []" by auto
  moreover have "(shown_node ty pre e)\<lparr>tn_Name := ls_name e\<rparr> = shown_node ty pre e" by (simp add: shown_node_def)
  ultimately show ?thesis by metis
qed

text \<open>
  Names are put into the tree as they are: a file whose name is markup is markup in the page.
\<close>

theorem RenderDirectoryTree_unescaped:
  assumes "list_all ftree_fine ts" "git (ls_tree_args repo' commit) = Inr (ls_tree_printed ts)" "Leaf ty e \<in> set ts"
  shows "\<exists>nodes html. BuildDirectoryTree git repo' commit = Inr nodes \<and>
    RenderDirectoryTree nodes (Some 0) rootPadding repo rev' file' = Some html \<and>
    (\<exists>a b. html = a @ ''<span>'' @ ls_name e @ ''</span></a>'' @ b)"
proof -
  obtain nodes html where r: "BuildDirectoryTree git repo' commit = Inr nodes"
      "RenderDirectoryTree nodes (Some 0) rootPadding repo rev' file' = Some html"
      "in_order (concat (map (tree_links repo rev' file' [] rootPadding (HasPrefix file' (tn_Path (nodes ! 0)))) ts)) html"
    using render_built[of ts git repo' commit repo rev' file', OF assms(1,2)] by blast
  let ?link = "getTreeItemLink (shown_node ty [] e) (rootPadding + 15) repo rev' (HasPrefix file' (tn_Path (nodes ! 0)))"
  have "?link \<in> set (concat (map (tree_links repo rev' file' [] rootPadding (HasPrefix file' (tn_Path (nodes ! 0)))) ts))"
    using assms(3) by force
  then obtain a b where "html = a @ ?link @ b" using in_order_infix[OF r(3)] by blast
  moreover obtain a' b' where "?link = a' @ ''<span>'' @ ls_name e @ ''</span></a>'' @ b'"
    using leaf_link_unescaped by blast
  ultimately have "html = (a @ a') @ ''<span>'' @ ls_name e @ ''</span></a>'' @ (b' @ b)" by simp
  then show ?thesis using r(1,2) by blast
qed

definition some_forest :: "ftree list" where
  "some_forest = [Dir \<lparr>ls_mode = ''040000'', ls_hash = ''aa'', ls_size = ''-'', ls_name = ''d''\<rparr>
     [Leaf ''blob'' \<lparr>ls_mode = ''100644'', ls_hash = ''bb'', ls_size = ''-'', ls_name = ''f''\<rparr>],
   Leaf ''blob'' \<lparr>ls_mode = ''100644'', ls_hash = ''cc'', ls_size = ''-'', ls_name = ''<script>''\<rparr>]"

lemma some_forest_fine: "list_all ftree_fine some_forest"
proof -
  have "TrimSpace ''-'' = ''-''" by (rule TrimSpace_all_graphic) (simp add: graphic_def)
  moreover have "snd (ParseInt 8 32 ''040000'') = None" "snd (ParseInt 8 32 ''100644'') = None"
    by (simp_all add: ParseInt_def ParseUint_def is_digit_def digit_value_def Let_def)
  ultimately show ?thesis by (simp add: some_forest_def entry_fine_def plain_word_def size_fine_def)
qed

lemma RenderDirectoryTree_links_witness:
  "\<exists>nodes html. BuildDirectoryTree (\<lambda>_. Inr (ls_tree_printed some_forest)) ''r'' ''HEAD'' = Inr nodes \<and>
    RenderDirectoryTree nodes (Some 0) rootPadding ''r'' ''HEAD'' ''d/f'' = Some html \<and>
    in_order (concat (map (tree_links ''r'' ''HEAD'' ''d/f'' [] rootPadding
      (HasPrefix ''d/f'' (tn_Path (nodes ! 0)))) some_forest)) html"
  by (rule RenderDirectoryTree_links[OF some_forest_fine]) simp

lemma RenderDirectoryTree_unescaped_witness:
  "\<exists>nodes html. BuildDirectoryTree (\<lambda>_. Inr (ls_tree_printed some_forest)) ''r'' ''HEAD'' = Inr nodes \<and>
    RenderDirectoryTree nodes (Some 0) rootPadding ''r'' ''HEAD'' ''d/f'' = Some html \<and>
    (\<exists>a b. html = a @ ''<span><script></span></a>'' @ b)"
  using RenderDirectoryTree_unescaped[OF some_forest_fine, of "\<lambda>_. Inr (ls_tree_printed some_forest)" "''r''" "''HEAD''"
    "''blob''" "\<lparr>ls_mode = ''100644'', ls_hash = ''cc'', ls_size = ''-'', ls_name = ''<script>''\<rparr>" "''r''" "''HEAD''" "''d/f''"]
  by (simp add: some_forest_def)

section \<open>Highlighted text\<close>

text \<open>What a reader sees of a line of HTML: the text outside the tags, its entities read.\<close>

fun outside_tags :: "bool \<Rightarrow> string \<Rightarrow> string" where
  "outside_tags inTag [] = []"
| "outside_tags inTag (c # s) =
     (if inTag then outside_tags (c \<noteq> CHR ''>'') s
      else if c = CHR ''<'' then outside_tags True s
      else c # outside_tags False s)"

definition entities :: "(string \<times> char) list" where
  "entities = [(''&amp;'', CHR ''&''), (''&#39;'', CHR 0x27), (''&lt;'', CHR ''<''), (''&gt;'', CHR ''>''), (''&#34;'', QUOTE)]"

function unescape :: "string \<Rightarrow> string" where
  "unescape s =
     (case s of
        [] \<Rightarrow> []
      | c # s' \<Rightarrow>
          (case find (\<lambda>(ent, x). HasPrefix s ent) entities of
             None \<Rightarrow> c # unescape s'
           | Some (ent, x) \<Rightarrow> x # unescape (drop (length ent - 1) s')))"
  by pat_completeness auto
termination by (relation "measure length") auto

declare unescape.simps [simp del]

lemma unescape_Nil [simp]: "unescape [] = []"
  by (simp add: unescape.simps)

lemma unescape_escape_char: "unescape (escape_char c @ t) = c # unescape t"
  by (subst unescape.simps) (auto simp: escape_char_def entities_def)

lemma unescape_EscapeString: "unescape (EscapeString s @ t) = s @ unescape t"
  by (induction s) (simp_all add: EscapeString_def unescape_escape_char)

lemma EscapeString_no_tag: "CHR ''<'' \<notin> set (EscapeString s)"
  by (auto simp: EscapeString_def escape_char_def split: if_splits)

lemma outside_tags_plain: "CHR ''<'' \<notin> set s \<Longrightarrow> outside_tags False (s @ t) = s @ outside_tags False t"
  by (induction s) auto

lemma outside_tags_in: "CHR ''>'' \<notin> set s \<Longrightarrow> outside_tags True (s @ CHR ''>'' # t) = outside_tags False t"
  by (induction s) auto

text \<open>
  What is relied on of \<^verbatim>\<open>chroma\<close>: the parent of a token type that has no name is nearer to the
  root type, and the names are class names.
\<close>

definition sane_types :: "'l chroma \<Rightarrow> bool" where
  "sane_types ch \<longleftrightarrow> (\<forall>t. t \<noteq> 0 \<longrightarrow> nat \<bar>ch_Parent ch t\<bar> < nat \<bar>t\<bar>) \<and>
     (\<forall>t cls. ch_StandardTypes ch t = Some cls \<longrightarrow> CHR ''>'' \<notin> set cls)"

lemma getChromaClass_returns:
  assumes "sane_types ch"
  shows "\<exists>cls. getChromaClass ch t = Some cls \<and> CHR ''>'' \<notin> set cls"
proof (induction "nat \<bar>t\<bar>" arbitrary: t rule: less_induct)
  case less
  then show ?case
    using assms by (subst getChromaClass.simps) (auto simp: sane_types_def split: option.splits)
qed

lemma styleAttr_returns:
  assumes "sane_types ch"
  shows "\<exists>attr. styleAttr ch t = Some attr \<and> CHR ''>'' \<notin> set attr"
proof -
  obtain cls where "getChromaClass ch t = Some cls" "CHR ''>'' \<notin> set cls"
    using getChromaClass_returns[OF assms] by blast
  then show ?thesis by (cases "cls = []") (simp_all add: styleAttr_def)
qed

lemma spans_text:
  assumes "sane_types ch"
  shows "\<exists>l. spans ch tokens = Some l \<and> (\<forall>t. unescape (outside_tags False (l @ t)) =
    concat (map snd tokens) @ unescape (outside_tags False t))"
proof (induction tokens)
  case (Cons token tokens)
  obtain tt s where token: "token = (tt, s)" by (cases token)
  obtain attr where attr: "styleAttr ch tt = Some attr" "CHR ''>'' \<notin> set attr"
    using styleAttr_returns[OF assms] by blast
  have "outside_tags False (''<span'' @ attr @ ''>'' @ EscapeString s @ ''</span>'' @ t) =
      EscapeString s @ outside_tags False t" for t
    using outside_tags_in[OF attr(2)] by (simp add: outside_tags_plain[OF EscapeString_no_tag])
  then show ?case using Cons attr(1) token by (auto simp: unescape_EscapeString)
qed simp

lemma span_lines_text:
  assumes "sane_types ch"
  shows "\<exists>ls. span_lines ch lines = Some ls \<and>
    map (\<lambda>l. unescape (outside_tags False l)) ls = map (\<lambda>tokens. concat (map snd tokens)) lines"
proof (induction lines)
  case (Cons tokens lines)
  obtain l where "spans ch tokens = Some l" "unescape (outside_tags False l) = concat (map snd tokens)"
    using spans_text[OF assms, of tokens] by (metis append_Nil2 outside_tags.simps(1) unescape_Nil)
  then show ?case using Cons by auto
qed simp


text \<open>
  Where no lexer is found, or it fails, the lines of the page are the lines of the file as
  they are: markup in the file is markup in the page.
\<close>

theorem getSyntaxHighlightedContent_unescaped:
  assumes "(case ch_Get ch language of None \<Rightarrow> ch_Match ch filename | Some l \<Rightarrow> Some l) = None \<or>
    (\<exists>l err. (case ch_Get ch language of None \<Rightarrow> ch_Match ch filename | Some l \<Rightarrow> Some l) = Some l \<and>
       ch_Tokenise ch l content = Inl err)"
  shows "\<exists>lines. getSyntaxHighlightedContent ch content language filename = Some lines \<and> join [NL] lines = content"
  using assms by (auto simp: getSyntaxHighlightedContent_def convertContentBlobToArrayOfLines_def join_split_on)

definition some_chroma :: "unit chroma" where
  "some_chroma = \<lparr>ch_Get = (\<lambda>lang. if lang = ''C'' then Some () else None), ch_Match = (\<lambda>f. None), ch_Fallback = (),
     ch_Tokenise = (\<lambda>l s. Inr [(1000, s)]), ch_SplitTokensIntoLines = (\<lambda>ts. [ts]),
     ch_StandardTypes = (\<lambda>t. if t = 1000 then Some ''k'' else None), ch_Parent = (\<lambda>t. 0)\<rparr>"


lemma getSyntaxHighlightedContent_unescaped_witness:
  "\<exists>lines. getSyntaxHighlightedContent some_chroma ''<script>'' ''none'' ''x'' = Some lines \<and> join [NL] lines = ''<script>''"
  by (rule getSyntaxHighlightedContent_unescaped) (simp add: some_chroma_def)

end
