(* ===== verification/HttpServer.thy ===== *)
theory HttpServer
  imports RepoRoutes FileView GitBlame GitRefs GitShow UnifiedDiff Templates SearchPages
begin

text \<open>
  The frame of \<^verbatim>\<open>server/server.go\<close>: requests and responses of \<^verbatim>\<open>net/http\<close>, the state of the
  server, pages (\<^verbatim>\<open>renderPage\<close>), JSON replies, and the handlers that ask no git: the search
  page, health, statistics, the status of a backend, and the description for browsers.
\<close>

section \<open>Requests and responses\<close>

text \<open>
  The query holds the parameters of the route, whose names begin with a colon, before those
  of the URL.
\<close>

record request =
  rq_Path :: string
  rq_Query :: url_Values
  rq_Host :: string
  rq_TLS :: bool
  rq_RealProto :: string
  rq_JWT :: string
  rq_ForwardedFor :: string
  rq_ForwardedProto :: string
  rq_RemoteAddr :: string
  rq_URL :: string

definition query_Has :: "url_Values \<Rightarrow> string \<Rightarrow> bool" where
  "query_Has q k \<longleftrightarrow> map_of q k \<noteq> None"

text \<open>
  What a page shows. The fields of \<^verbatim>\<open>FileViewerContext\<close> that only the server fills in extend
  the record of FileView.
\<close>

record view_page = FileViewerContext +
  vp_RepoRev :: string
  vp_HeadRev :: string
  vp_LogLink :: string
  vp_DirectoryTree :: "TreeNode list option"
  vp_Branches :: "GitBranch list"
  vp_Tags :: "GitTag list"
  vp_RepoConfig :: RepoConfig

datatype 'c page_data =
    NoData
  | SearchData "'c Backend list" string
  | CommitData GitShow
  | SimpleLogData SimpleGitLog
  | ViewData view_page
  | PreviewData "SourceFileContent option" "directoryContent option"
  | DiffData "IDiffRow list" string
  | ResultsData "ReplySearchV2 option"
  | OpensearchData string string

datatype script_data =
    NoScript
  | FileScript RepoConfig string string
  | BlobScript RepoConfig string string string
  | ViewerScript RepoConfig string string string string string string string "GitBranch list"

record 'c page =
  pg_Title :: string
  pg_ScriptName :: string
  pg_ScriptData :: script_data
  pg_IncludeHeader :: bool
  pg_Data :: "'c page_data"
  pg_Config :: "Config option"
  pg_AssetHashes :: "string \<rightharpoonup> string"
  pg_Nonce :: string
  pg_BodyId :: string

definition empty_page :: "'c page" where
  "empty_page = \<lparr>pg_Title = [], pg_ScriptName = [], pg_ScriptData = NoScript,
     pg_IncludeHeader = False, pg_Data = NoData, pg_Config = None, pg_AssetHashes = Map.empty,
     pg_Nonce = [], pg_BodyId = []\<rparr>"

text \<open>The values that are sent as JSON, and the errors whose text is part of a reply.\<close>

datatype shown_error =
    GitText git_error
  | LogText log_error
  | RefsText refs_error
  | TreeText tree_error
  | DiffText diff_error
  | NumText string num_error

datatype json =
    BlameJson BlameResult
  | SimpleLogJson SimpleGitLog
  | LogJson GitLog
  | TreeJson "TreeNode list"
  | BranchesJson "GitBranch list"
  | TagsJson "GitTag list"
  | StatsJson int
  | StatusJson BackendStatus
  | SearchJson ReplySearch
  | ErrorJson string "string + shown_error"

text \<open>A body is written piece by piece; what a template makes of a page is not looked into.\<close>

datatype 'c piece =
    Text string
  | Shown shown_error
  | Json json
  | Html string "'c page"
  | Fragment string "'c page_data"

record 'c response =
  w_Status :: "nat option"
  w_Header :: "(string \<times> string) list"
  w_Body :: "'c piece list"

definition new_response :: "'c response" where
  "new_response = \<lparr>w_Status = None, w_Header = [], w_Body = []\<rparr>"

text \<open>Only the first status counts; writing without one, or never writing, means 200.\<close>

definition WriteHeader :: "'c response \<Rightarrow> nat \<Rightarrow> 'c response" where
  "WriteHeader w code = (if w_Status w = None then w\<lparr>w_Status := Some code\<rparr> else w)"

definition Write :: "'c response \<Rightarrow> 'c piece list \<Rightarrow> 'c response" where
  "Write w ps = (WriteHeader w 200)\<lparr>w_Body := w_Body w @ ps\<rparr>"

definition set_header :: "'c response \<Rightarrow> string \<Rightarrow> string \<Rightarrow> 'c response" where
  "set_header w k v = w\<lparr>w_Header := AList.update k v (w_Header w)\<rparr>"

definition status :: "'c response \<Rightarrow> nat" where
  "status w = (case w_Status w of None \<Rightarrow> 200 | Some s \<Rightarrow> s)"

definition http_Error :: "'c response \<Rightarrow> 'c piece list \<Rightarrow> nat \<Rightarrow> 'c response" where
  "http_Error w ps code =
     Write (WriteHeader (set_header (set_header w ''Content-Type'' ''text/plain; charset=utf-8'')
       ''X-Content-Type-Options'' ''nosniff'') code) (ps @ [Text [NL]])"

text \<open>\<^verbatim>\<open>http.Redirect\<close> of a GET request to an absolute path of plain characters.\<close>

definition Redirect :: "'c response \<Rightarrow> string \<Rightarrow> 'c response" where
  "Redirect w url =
     Write (WriteHeader (set_header (set_header w ''Location'' url)
       ''Content-Type'' ''text/html; charset=utf-8'') 303)
       [Text (''<a href='' @ [CHR 0x22] @ url @ [CHR 0x22] @ ''>See Other</a>.'' @ [NL, NL])]"

text \<open>How a handler ends. \<^verbatim>\<open>net/http\<close> catches a panic and drops the connection.\<close>

datatype 'c outcome = Answer "'c response" | Crash panic | Hang

definition on_res :: "('e, 'a) res \<Rightarrow> ('e \<Rightarrow> 'c outcome) \<Rightarrow> ('a \<Rightarrow> 'c outcome) \<Rightarrow> 'c outcome" where
  "on_res r bad good = (case r of
     Inl (Panic p) \<Rightarrow> Crash p | Inl (Error e) \<Rightarrow> bad e | Inr a \<Rightarrow> good a)"

text \<open>For a call that returns no error and can only panic.\<close>

definition no_error :: "'e \<Rightarrow> 'c outcome" where
  "no_error e = Crash (PanicMessage ''no error is returned here'')"

lemma on_res_simps [simp]:
  "on_res (Inl (Panic p)) bad good = Crash p"
  "on_res (Inl (Error e)) bad good = bad e"
  "on_res (Inr a) bad good = good a"
  by (simp_all add: on_res_def)

section \<open>JSON\<close>

text \<open>
  \<^verbatim>\<open>encoding/json\<close> follows every pointer of a tree node, to its parent and to its children,
  and refuses a value that leads back to itself. A walk of as many steps as there are nodes
  comes to one of them twice.
\<close>

definition tree_pointers :: "TreeNode list \<Rightarrow> nat \<Rightarrow> nat list" where
  "tree_pointers nodes a =
     (case tn_ParentDir (nodes ! a) of None \<Rightarrow> [] | Some p \<Rightarrow> [p]) @ tn_Children (nodes ! a)"

fun walk_of :: "TreeNode list \<Rightarrow> nat \<Rightarrow> nat \<Rightarrow> bool" where
  "walk_of nodes 0 a = True"
| "walk_of nodes (Suc n) a = list_ex (walk_of nodes n) (tree_pointers nodes a)"

definition json_fails :: "json \<Rightarrow> bool" where
  "json_fails j = (case j of TreeJson nodes \<Rightarrow> walk_of nodes (length nodes) 0 | _ \<Rightarrow> False)"

text \<open>A value that cannot be encoded is only logged: the status is sent and the body is empty.\<close>

definition replyJSON :: "'c response \<Rightarrow> nat \<Rightarrow> json \<Rightarrow> 'c response" where
  "replyJSON w code j =
     (let w' = WriteHeader w code in if json_fails j then w' else Write w' [Json j, Text [NL]])"

definition writeError :: "'c response \<Rightarrow> nat \<Rightarrow> string \<Rightarrow> string + shown_error \<Rightarrow> 'c response" where
  "writeError w code errCode message = replyJSON w code (ErrorJson errCode message)"

section \<open>The server and the world around it\<close>

text \<open>
  The map of backends is given in the order in which it happens to be walked; \<open>sv_Templates\<close>
  are the names of the templates that were loaded, and \<open>sv_mu\<close> tells whether the mutex that
  guards them is held while no one is at work on them.
\<close>

record 'c server =
  sv_config :: Config
  sv_bk :: "'c backends"
  sv_bkOrder :: "string list"
  sv_repos :: repo_map
  sv_newRepos :: parents
  sv_regex :: "string list"
  sv_Templates :: "string list"
  sv_AssetHashes :: "string \<rightharpoonup> string"
  sv_mu :: bool

text \<open>
  git is run in four ways: for its whole output, for the pieces in which the output arrives,
  for the lines of a blame, and for a diff. The routing library gives \<^verbatim>\<open>pat.Tail\<close>.
\<close>

record 'c world =
  wd_git :: git
  wd_show :: "string list \<Rightarrow> string + string list"
  wd_blame :: "string list \<Rightarrow> string + string list"
  wd_diff :: "string list \<Rightarrow> string + (string \<times> diff_error option)"
  wd_sort_entries :: "directoryListEntry list \<Rightarrow> directoryListEntry list"
  wd_sort_chunks :: "BlameChunk list \<Rightarrow> BlameChunk list"
  wd_sort_results :: "Result list \<Rightarrow> Result list"
  wd_arrangement :: arrangement
  wd_rpc :: "'c search_rpc"
  wd_now :: int
  wd_elapsed :: int
  wd_GetState :: "'c \<Rightarrow> conn_state"
  wd_tail :: "string \<Rightarrow> string \<Rightarrow> string"

definition renderPage :: "'c server \<Rightarrow> 'c response \<Rightarrow> string \<Rightarrow> 'c page \<Rightarrow> 'c response" where
  "renderPage s w templateName pageData =
     (if templateName \<notin> set (sv_Templates s) then w
      else Write w [Html templateName
        (pageData\<lparr>pg_Config := Some (sv_config s), pg_AssetHashes := sv_AssetHashes s\<rparr>)])"

section \<open>Handlers without git\<close>

definition ServeRoot :: "'c outcome" where
  "ServeRoot = Answer (Redirect new_response ''/search'')"

definition ServeHelp :: "'c outcome" where
  "ServeHelp = Answer (Redirect new_response ''/search'')"

definition TestHandler :: "'c outcome" where
  "TestHandler = Answer (Write new_response [Text ''hello''])"

definition ServeHealthZ :: "'c outcome" where
  "ServeHealthZ = Answer (WriteHeader new_response 200)"

definition ServeAbout :: "'c server \<Rightarrow> 'c outcome" where
  "ServeAbout s = Answer (renderPage s new_response ''about.html''
     (empty_page\<lparr>pg_Title := ''about'', pg_IncludeHeader := True\<rparr>))"

definition ServeAboutFileviewer :: "'c server \<Rightarrow> 'c outcome" where
  "ServeAboutFileviewer s = Answer (renderPage s new_response ''fileviewer_about.html''
     (empty_page\<lparr>pg_Title := ''fileviewer about'', pg_IncludeHeader := True\<rparr>))"

text \<open>The first tree of the first backend that has one with a name.\<close>

definition sample_step :: "string \<Rightarrow> 'c Backend \<Rightarrow> string" where
  "sample_step sampleRepo bk =
     (if sampleRepo = [] then (case i_Trees (bk_I bk) of [] \<Rightarrow> [] | t # _ \<Rightarrow> t_Name t) else sampleRepo)"

definition backend_at :: "'c server \<Rightarrow> string \<Rightarrow> ('e, 'c Backend) res" where
  "backend_at s i = (case map_of (sv_bk s) i of None \<Rightarrow> Inl (Panic NilDereference) | Some b \<Rightarrow> Inr b)"

definition ServeSearch :: "'c server \<Rightarrow> 'c outcome" where
  "ServeSearch s =
     on_res (map_res (backend_at s) (sv_bkOrder s) :: (unit, 'c Backend list) res) no_error (\<lambda>backends.
       Answer (renderPage s new_response ''index.html''
         (empty_page\<lparr>pg_Title := ''code search'', pg_ScriptName := ''codesearch'',
            pg_IncludeHeader := True,
            pg_Data := SearchData backends (foldl sample_step [] backends)\<rparr>)))"

definition unhealthy :: "'c Backend \<Rightarrow> bool" where
  "unhealthy bk \<longleftrightarrow> i_IndexTime (bk_I bk) = zero_time"

definition ServeHealthcheck :: "'c server \<Rightarrow> 'c outcome" where
  "ServeHealthcheck s =
     (case find unhealthy (map snd (sv_bk s)) of
        Some bk \<Rightarrow> Answer (http_Error new_response
          [Text (''unhealthy backend '' @ [CHR 0x27] @ bk_Id bk @ [CHR 0x27] @ '' '' @ [CHR 0x27]
             @ bk_Addr bk @ [CHR 0x27] @ [NL])] 500)
      | None \<Rightarrow> Answer (Write new_response [Text (''ok'' @ [NL])]))"

text \<open>\<^verbatim>\<open>Time.Sub\<close> stays within the durations that 64 bits can hold; a quotient is cut towards zero.\<close>

definition time_Sub :: "int \<Rightarrow> int \<Rightarrow> int" where
  "time_Sub a b = max (- (2 ^ 63)) (min (2 ^ 63 - 1) (a - b))"

definition second :: int where "second = 1000000000"

definition stats_step :: "int \<Rightarrow> int \<Rightarrow> 'c Backend \<Rightarrow> int" where
  "stats_step now maxBkAge bk =
     (if unhealthy bk then maxBkAge
      else let bkAge = time_Sub now (i_IndexTime (bk_I bk)) in if maxBkAge < bkAge then bkAge else maxBkAge)"

definition seconds :: "int \<Rightarrow> int" where
  "seconds d = (if d < 0 then - ((- d) div second) else d div second)"

definition ServeStats :: "'c world \<Rightarrow> 'c server \<Rightarrow> 'c outcome" where
  "ServeStats wd s =
     Answer (replyJSON new_response 200
       (StatsJson (seconds (foldl (stats_step (wd_now wd)) (- second) (map snd (sv_bk s))))))"

definition ServeBackendStatus :: "'c world \<Rightarrow> 'c server \<Rightarrow> request \<Rightarrow> 'c outcome" where
  "ServeBackendStatus wd s r =
     (let backendName = values_Get (rq_Query r) '':backend'';
          reply = (\<lambda>bk. Answer (replyJSON new_response 200 (StatusJson (getStatus (wd_GetState wd) (wd_now wd) bk))))
      in if backendName \<noteq> [] then
           (case map_of (sv_bk s) backendName of
              None \<Rightarrow> Answer (writeError new_response 400 ''bad_backend'' (Inl (''Unknown backend: '' @ backendName)))
            | Some bk \<Rightarrow> reply bk)
         else (case sv_bk s of [] \<Rightarrow> Crash NilDereference | (i, bk) # _ \<Rightarrow> reply bk))"

definition requestProtocol :: "'c server \<Rightarrow> request \<Rightarrow> string" where
  "requestProtocol s r =
     (if cfg_ReverseProxy (sv_config s) \<and> rq_RealProto r \<noteq> [] then rq_RealProto r
      else if rq_TLS r then ''https'' else ''http'')"

definition ServeOpensearch :: "'c server \<Rightarrow> request \<Rightarrow> 'c outcome" where
  "ServeOpensearch s r =
     (let name = (case find (\<lambda>bk. i_Name (bk_I bk) \<noteq> []) (map snd (sv_bk s)) of
                    None \<Rightarrow> [] | Some bk \<Rightarrow> i_Name (bk_I bk))
      in Answer (Write (set_header new_response ''Content-Type'' ''application/xml'')
           [Fragment ''opensearch.xml''
             (OpensearchData name (requestProtocol s r @ ''://'' @ rq_Host r @ ''/''))]))"

section \<open>Handlers of searches\<close>

definition ServeAPISearch_reply :: "'c world \<Rightarrow> 'c server \<Rightarrow> request \<Rightarrow> 'c outcome" where
  "ServeAPISearch_reply wd s r =
     on_res (ServeAPISearch (wd_sort_results wd) (wd_elapsed wd) (wd_rpc wd) (sv_config s) (sv_bk s) (rq_Query r))
       no_error
       (\<lambda>reply. case reply of
          JSONReply x \<Rightarrow> Answer (replyJSON new_response 200 (SearchJson x))
        | JSONError code c msg \<Rightarrow> Answer (writeError new_response code c (Inl msg)))"

definition ServeRenderedSearchResults :: "'c world \<Rightarrow> 'c server \<Rightarrow> request \<Rightarrow> 'c outcome" where
  "ServeRenderedSearchResults wd s r =
     on_res (ServerSideAPISearchV2 (wd_arrangement wd) (wd_now wd) (wd_elapsed wd) (wd_rpc wd)
         (sv_config s) (sv_bk s) (rq_Query r))
       no_error
       (\<lambda>(data, statusCode, errorMsg, errorMsgLong).
          if 200 < statusCode then Answer (Write (WriteHeader new_response statusCode) [Text errorMsgLong])
          else Answer (renderPage s new_response ''searchresults_partial.html''
            (empty_page\<lparr>pg_Data := ResultsData data\<rparr>)))"

section \<open>Health and statistics\<close>

text \<open>A round of polling in which the backend tells about its index.\<close>

definition answered :: "poll_round \<Rightarrow> bool" where
  "answered r \<longleftrightarrow> (case (pr_quick r, pr_info r) of (Inr t, Inr info) \<Rightarrow> True | _ \<Rightarrow> False)"

text \<open>No index is as old as the first instant of the year 1.\<close>

definition dated :: "poll_round \<Rightarrow> bool" where
  "dated r \<longleftrightarrow> (case pr_quick r of Inr t \<Rightarrow> zero_time < time_Unix t | Inl _ \<Rightarrow> True) \<and>
     (case pr_info r of Inr info \<Rightarrow> zero_time < time_Unix (si_IndexTime info) | Inl _ \<Rightarrow> True)"

lemma poll_step_reported:
  assumes "poll_step r (i, av) = Inr (i', av')" "dated r" "zero_time \<le> i_IndexTime i"
  shows "zero_time \<le> i_IndexTime i' \<and>
    (zero_time < i_IndexTime i' \<longleftrightarrow> zero_time < i_IndexTime i \<or> answered r)"
  using assms
  by (auto simp: poll_step_def dated_def answered_def wants_info_def getInfo_def res_simps
      dest!: refresh_IndexTime split: sum.splits if_splits)

lemma poll_reported:
  assumes "poll rs (i, av) = Inr (i', av')" "list_all dated rs" "zero_time \<le> i_IndexTime i"
  shows "zero_time \<le> i_IndexTime i' \<and>
    (zero_time < i_IndexTime i' \<longleftrightarrow> zero_time < i_IndexTime i \<or> list_ex answered rs)"
  using assms
proof (induction rs arbitrary: i av)
  case (Cons r rs)
  obtain i1 av1 where step: "poll_step r (i, av) = Inr (i1, av1)" "poll rs (i1, av1) = Inr (i', av')"
    using Cons.prems(1) by (auto simp: res_simps)
  have "zero_time \<le> i_IndexTime i1 \<and> (zero_time < i_IndexTime i1 \<longleftrightarrow> zero_time < i_IndexTime i \<or> answered r)"
    using poll_step_reported[OF step(1)] Cons.prems by simp
  then show ?case using Cons.IH[OF step(2)] Cons.prems(2) by auto
qed simp

text \<open>
  C19. The health check answers with 200 exactly where every backend has told about its index in
  some round of polling, in whatever order the backends are walked: what the comment in the
  code asks for.
\<close>

theorem ServeHealthcheck_reported:
  assumes "\<forall>(i, bk)\<in>set (sv_bk s). \<exists>name av. poll (rounds i) (new_I name, new_Availability) = Inr (bk_I bk, av)"
    and "\<forall>i. list_all dated (rounds i)"
  shows "(\<exists>w. ServeHealthcheck s = Answer w \<and> status w = 200) \<longleftrightarrow>
    list_all (\<lambda>(i, bk). list_ex answered (rounds i)) (sv_bk s)"
proof -
  have "unhealthy bk \<longleftrightarrow> \<not> list_ex answered (rounds i)" if bk: "(i, bk) \<in> set (sv_bk s)" for i bk
  proof -
    obtain name av where "poll (rounds i) (new_I name, new_Availability) = Inr (bk_I bk, av)"
      using assms(1) bk by blast
    from poll_reported[OF this] show ?thesis
      using assms(2) by (auto simp: unhealthy_def new_I_def)
  qed
  then have "(\<exists>b\<in>set (map snd (sv_bk s)). unhealthy b) \<longleftrightarrow>
      (\<exists>(i, bk)\<in>set (sv_bk s). \<not> list_ex answered (rounds i))" by force
  moreover have "(\<exists>w. ServeHealthcheck s = Answer w \<and> status w = 200) \<longleftrightarrow>
      find unhealthy (map snd (sv_bk s)) = None"
    by (auto simp: ServeHealthcheck_def status_def http_Error_def Write_def WriteHeader_def
        set_header_def new_response_def split: option.split)
  ultimately show ?thesis by (auto simp: find_None_iff list_all_iff)
qed

text \<open>The stalest index decides, and every order of the backends gives the same age.\<close>

definition index_ages :: "'c world \<Rightarrow> 'c server \<Rightarrow> int set" where
  "index_ages wd s = (\<lambda>bk. time_Sub (wd_now wd) (i_IndexTime (bk_I bk))) `
     {bk \<in> snd ` set (sv_bk s). \<not> unhealthy bk}"

lemma stats_fold: "foldl (stats_step now) m bks =
    Max (insert m ((\<lambda>bk. time_Sub now (i_IndexTime (bk_I bk))) ` {bk \<in> set bks. \<not> unhealthy bk}))"
proof (induction bks arbitrary: m)
  case (Cons bk bks)
  have set: "{b \<in> set (bk # bks). \<not> unhealthy b} =
      (if unhealthy bk then {b \<in> set bks. \<not> unhealthy b} else insert bk {b \<in> set bks. \<not> unhealthy b})"
    by auto
  have max: "Max (insert (if a < b then b else a) A) = Max (insert a (insert b A))" if "finite A" for a b :: int and A
    using that by (cases "A = {}") (auto simp: max_def)
  show ?case
    unfolding foldl_Cons Cons.IH set by (simp add: stats_step_def Let_def max)
qed simp

text \<open>
  The statistics give the age of the stalest index of those that have one, in seconds, and
  -1 where no backend has told about its index or all claim to come from the future.
\<close>

theorem ServeStats_stalest:
  "ServeStats wd s = Answer (replyJSON new_response 200
     (StatsJson (seconds (Max (insert (- second) (index_ages wd s))))))"
  by (simp add: ServeStats_def stats_fold index_ages_def)

section \<open>A small server\<close>

definition empty_server :: "'c server" where
  "empty_server = \<lparr>sv_config = some_Config, sv_bk = [], sv_bkOrder = [], sv_repos = [],
     sv_newRepos = Map.empty, sv_regex = [], sv_Templates = [], sv_AssetHashes = Map.empty,
     sv_mu = False\<rparr>"

definition one_round :: poll_round where
  "one_round = \<lparr>pr_now = 0, pr_quick = Inr 10,
     pr_info = Inr \<lparr>si_Name = ''x'', si_Trees = [], si_IndexTime = 10\<rparr>\<rparr>"

lemma ServeHealthcheck_reported_witness:
  "let up = Backend ''a'' ''h:1'' \<lparr>i_Name = ''x'', i_Trees = [], i_IndexTime = time_Unix 10\<rparr> () new_Availability None False True;
       down = Backend ''b'' ''h:2'' (new_I ''b'') () new_Availability None False True
   in (\<exists>w. ServeHealthcheck (empty_server\<lparr>sv_bk := [(''a'', up)]\<rparr>) = Answer w \<and> status w = 200) \<and>
      (\<nexists>w. ServeHealthcheck (empty_server\<lparr>sv_bk := [(''a'', up), (''b'', down)]\<rparr>) = Answer w \<and> status w = 200)"
proof -
  let ?up = "Backend ''a'' ''h:1'' \<lparr>i_Name = ''x'', i_Trees = [], i_IndexTime = time_Unix 10\<rparr> () new_Availability None False True"
  let ?down = "Backend ''b'' ''h:2'' (new_I ''b'') () new_Availability None False True"
  let ?rounds = "\<lambda>i. if i = ''a'' then [one_round] else []"
  have a: "\<exists>name av. poll (?rounds ''a'') (new_I name, new_Availability) = Inr (bk_I ?up, av)"
    by (simp add: one_round_def poll_step_def wants_info_def getInfo_def refresh_def new_I_def
        new_Availability_def)
  have b: "\<exists>name av. poll (?rounds ''b'') (new_I name, new_Availability) = Inr (bk_I ?down, av)"
    by auto
  have c: "\<forall>i. list_all dated (?rounds i)"
    by (simp add: one_round_def dated_def zero_time_def time_Unix_def)
  show ?thesis
    using ServeHealthcheck_reported[of "empty_server\<lparr>sv_bk := [(''a'', ?up)]\<rparr>" ?rounds]
      ServeHealthcheck_reported[of "empty_server\<lparr>sv_bk := [(''a'', ?up), (''b'', ?down)]\<rparr>" ?rounds] a b c
    by (simp add: answered_def one_round_def)
qed

end
