(* ===== verification/FileHandlers.thy ===== *)
theory FileHandlers
  imports HttpServer
begin

text \<open>
  The handlers of \<^verbatim>\<open>server/server.go\<close> that show repositories: each finds the repository that
  the request names, runs git through the functions of \<^verbatim>\<open>fileviewer\<close>, and renders a page or
  replies with JSON. The theorem at the end bounds what they run git on.
\<close>

section \<open>Finding the repository\<close>

abbreviation param :: "request \<Rightarrow> string \<Rightarrow> string" where
  "param r k \<equiv> values_Get (rq_Query r) k"

definition full_name :: "request \<Rightarrow> string" where
  "full_name r = param r '':parent'' @ CHR ''/'' # param r '':repo''"

text \<open>The two lookups the handlers begin with: in the flat map, and in the nested one.\<close>

definition with_repo ::
    "'c server \<Rightarrow> string \<Rightarrow> (RepoConfig \<Rightarrow> 'c outcome) \<Rightarrow> 'c outcome" where
  "with_repo s name serve =
     (if sv_repos s = [] then
        Answer (http_Error new_response [Text ''File browsing and git commands not enabled''] 404)
      else case map_of (sv_repos s) name of
          None \<Rightarrow> Answer (http_Error new_response [Text ''No such repo''] 404)
        | Some repoConfig \<Rightarrow> serve repoConfig)"

definition with_parent ::
    "'c server \<Rightarrow> request \<Rightarrow> (string \<Rightarrow> 'c response) \<Rightarrow> (RepoConfig \<Rightarrow> 'c outcome) \<Rightarrow> 'c outcome" where
  "with_parent s r missing serve =
     (case sv_newRepos s (param r '':parent'') of
        None \<Rightarrow> Answer (missing (''parent: '' @ param r '':parent'' @ '' not found'' @ [NL]))
      | Some parentMap \<Rightarrow>
          (case parentMap (param r '':repo'') of
             None \<Rightarrow> Answer (missing (''repo: '' @ param r '':repo'' @ '' not found'' @ [NL]))
           | Some repoConfig \<Rightarrow> serve repoConfig))"

definition written :: "string \<Rightarrow> 'c response" where
  "written msg = Write new_response [Text msg]"

text \<open>The message is not formatted: the \<^verbatim>\<open>%s\<close> is sent as it is.\<close>

definition filebrowseEnabled :: "'c server \<Rightarrow> string \<Rightarrow> string + RepoConfig" where
  "filebrowseEnabled s repo =
     (if sv_repos s = [] then Inl ''File browsing and git commands not enabled''
      else case map_of (sv_repos s) repo of
          None \<Rightarrow> Inl (''repo: %s not found. Maybe reload the server to read the latest config.'' @ [NL])
        | Some repoConfig \<Rightarrow> Inr repoConfig)"

definition zoekt_path :: "'c server \<Rightarrow> request \<Rightarrow> string" where
  "zoekt_path s r = cfg_ZoektRepoCache (sv_config s) @ CHR ''/'' # param r '':parent'' @ CHR ''/'' #
     param r '':repo'' @ ''.git''"

section \<open>Commits, blame, logs and trees\<close>

definition ServeGitShow :: "'c world \<Rightarrow> 'c server \<Rightarrow> request \<Rightarrow> 'c outcome" where
  "ServeGitShow wd s r =
     with_repo s (full_name r) (\<lambda>repoConfig.
       let commit = param r '':commitHash'' in
       if commit = [] then Answer (http_Error new_response [Text ''commit is empty''] 500)
       else on_res (GitShowCommit (wd_show wd) repoConfig commit)
         (\<lambda>e. Answer (http_Error new_response
            [Text ''error doing git-show: '', Shown (GitText e), Text [NL]] 500))
         (\<lambda>data. Answer (renderPage s new_response ''gitshowcommit.html''
            (empty_page\<lparr>pg_Title := ''Git Show'', pg_Data := CommitData data\<rparr>))))"

definition ServeGitBlameJson :: "'c world \<Rightarrow> 'c server \<Rightarrow> request \<Rightarrow> 'c outcome" where
  "ServeGitBlameJson wd s r =
     (let path = wd_tail wd ''/api/v2/json/git-blame/:parent/:repo/:rev/'' (rq_Path r) in
      with_repo s (full_name r) (\<lambda>repoConfig.
        case GitBlameBlob (wd_blame wd) (wd_sort_chunks wd) path repoConfig (param r '':rev'') of
          None \<Rightarrow> Hang
        | Some res \<Rightarrow>
            on_res res (\<lambda>e. Answer (WriteHeader new_response 500))
              (\<lambda>blameData. Answer (replyJSON new_response 200 (BlameJson blameData)))))"

text \<open>After an error the handler goes on, and uses the data that it has not got.\<close>

definition ServeSimpleGitLogJson :: "'c world \<Rightarrow> 'c server \<Rightarrow> request \<Rightarrow> 'c outcome" where
  "ServeSimpleGitLogJson wd s r =
     (let path = wd_tail wd ''/api/v2/json/git-log/:parent/:repo/:rev/'' (rq_Path r) in
      with_repo s (full_name r) (\<lambda>repo.
        on_res (BuildSimpleGitLogData (wd_git wd) path (param r '':rev'') repo)
          (\<lambda>e. Crash NilDereference)
          (\<lambda>data. Answer (replyJSON new_response 200
             (SimpleLogJson (data\<lparr>sgl_CommitLinkPrefix := ''/delve/'' @ full_name r\<rparr>))))))"

definition ServeListAllBranchesForZoekt :: "'c world \<Rightarrow> 'c server \<Rightarrow> request \<Rightarrow> 'c outcome" where
  "ServeListAllBranchesForZoekt wd s r =
     on_res (ListAllBranches (wd_git wd) (zoekt_path s r))
       (\<lambda>e. Answer (http_Error new_response [Text ''could not list branches for repo provided''] 500))
       (\<lambda>branches. Answer (replyJSON new_response 200 (BranchesJson branches)))"

definition ServeListAllTagsForZoekt :: "'c world \<Rightarrow> 'c server \<Rightarrow> request \<Rightarrow> 'c outcome" where
  "ServeListAllTagsForZoekt wd s r =
     on_res (ListAllTags (wd_git wd) (zoekt_path s r))
       (\<lambda>e. Answer (http_Error new_response [Text ''could not list branches for repo provided''] 500))
       (\<lambda>tags. Answer (replyJSON new_response 200 (TagsJson tags)))"

text \<open>The numbers of a request for a log; one that is absent is zero.\<close>

definition parse_count :: "request \<Rightarrow> string \<Rightarrow> shown_error + 64 word" where
  "parse_count r k =
     (if \<not> query_Has (rq_Query r) k then Inr 0
      else case ParseUint 10 64 (param r k) of
          (n, None) \<Rightarrow> Inr (word_of_nat n)
        | (n, Some e) \<Rightarrow> Inl (NumText (param r k) e))"

definition serve_log ::
    "'c world \<Rightarrow> request \<Rightarrow> string \<Rightarrow> string \<Rightarrow> string \<Rightarrow> 'c outcome" where
  "serve_log wd r rv path repoPath =
     (case parse_count r ''first'' of
        Inl e \<Rightarrow> Answer (http_Error new_response [Text ''could not parse first: '', Shown e, Text [NL]] 500)
      | Inr firstVal \<Rightarrow>
          (case parse_count r ''afterCursor'' of
             Inl e \<Rightarrow> Answer (http_Error new_response
               [Text ''could not parse afterCursor: '', Shown e, Text [NL]] 500)
           | Inr afterCursorVal \<Rightarrow>
               on_res (BuildGitLog (wd_git wd)
                   \<lparr>co_Range = rv, co_N = firstVal, co_SkipN = afterCursorVal, co_Path = path,
                    co_Follow = False, co_NoEnsureRevision = False, co_NameOnly = False\<rparr> repoPath)
                 (\<lambda>e. Answer (http_Error new_response [Shown (LogText e)] 500))
                 (\<lambda>commitLog. Answer (replyJSON new_response 200 (LogJson commitLog)))))"

definition ServeGitLogForZoekt :: "'c world \<Rightarrow> 'c server \<Rightarrow> request \<Rightarrow> 'c outcome" where
  "ServeGitLogForZoekt wd s r =
     (let (rv, path) = splitRevPath
            (wd_tail wd ''/api/v2/getGitLogForZoekt/:parent/:repo/+/'' (rq_Path r))
      in serve_log wd r rv path (zoekt_path s r))"

definition ServeGitLogJson :: "'c world \<Rightarrow> 'c server \<Rightarrow> request \<Rightarrow> 'c outcome" where
  "ServeGitLogJson wd s r =
     (case filebrowseEnabled s (full_name r) of
        Inl msg \<Rightarrow> Answer (http_Error new_response [Text msg] 500)
      | Inr repoConfig \<Rightarrow>
          serve_log wd r (param r ''revspec'') (param r ''path'') (rc_Path repoConfig))"

definition ServeGitLsTreeForZoekt :: "'c world \<Rightarrow> 'c server \<Rightarrow> request \<Rightarrow> 'c outcome" where
  "ServeGitLsTreeForZoekt wd s r =
     (let (rv, path) = splitRevPath
            (wd_tail wd ''/api/v2/getDirectoryTreeForZoekt/:parent/:repo/+/'' (rq_Path r))
      in on_res (GetLsTreeOutput (wd_git wd) (zoekt_path s r) rv)
           (\<lambda>e. Answer (writeError new_response 500 [] (Inr (TreeText e))))
           (\<lambda>data. Answer (Write new_response [Text data])))"

definition ServeGitLsTreeJson :: "'c world \<Rightarrow> 'c server \<Rightarrow> request \<Rightarrow> 'c outcome" where
  "ServeGitLsTreeJson wd s r =
     with_repo s (full_name r) (\<lambda>repo.
       on_res (BuildDirectoryTree (wd_git wd) (rc_Path repo) (param r '':rev''))
         (\<lambda>e. Answer (writeError new_response 500 [] (Inr (TreeText e))))
         (\<lambda>data. Answer (replyJSON new_response 200 (TreeJson data))))"

definition ServeGitLsTreeRendered :: "'c world \<Rightarrow> 'c server \<Rightarrow> request \<Rightarrow> 'c outcome" where
  "ServeGitLsTreeRendered wd s r =
     (let rv = param r '':rev'';
          path = wd_tail wd ''/api/v2/getRenderedFileTree/:parent/:repo/:rev/'' (rq_Path r)
      in with_repo s (full_name r) (\<lambda>repo.
        on_res (BuildDirectoryTree (wd_git wd) (rc_Path repo) rv)
          (\<lambda>e. Answer (writeError new_response 500 [] (Inr (TreeText e))))
          (\<lambda>data. case RenderDirectoryTree data (Some 0) (- 15) (rc_Name repo) rv path of
             None \<Rightarrow> Hang
           | Some rendered \<Rightarrow> Answer (Write new_response [Text rendered]))))"

text \<open>A page of the log, whole or, for the script that loads the next one, in part.\<close>

definition log_headers :: "SimpleGitLog \<Rightarrow> 'c response" where
  "log_headers data =
     (if sgl_MaybeLastPage data then new_response
      else set_header (set_header new_response ''X-Next-Parent'' (sgl_NextParent data)) ''X-Maybe-Last'' ''false'')"

definition ServeSimpleGitLog :: "'c world \<Rightarrow> 'c server \<Rightarrow> request \<Rightarrow> 'c outcome" where
  "ServeSimpleGitLog wd s r =
     (let path = wd_tail wd ''/delve/:parent/:repo/commits/:rev/'' (rq_Path r);
          firstParent = (if param r ''firstParent'' = [] then param r '':rev'' else param r ''firstParent'')
      in with_repo s (full_name r) (\<lambda>repo.
        on_res (BuildSimpleGitLogData (wd_git wd) path firstParent repo)
          (\<lambda>e. Answer (http_Error new_response
             [Text ''Error building log data: '', Shown (LogText e), Text [NL]] 500))
          (\<lambda>data0. let data = data0\<lparr>sgl_CommitLinkPrefix := ''/delve/'' @ full_name r\<rparr>;
                        w = log_headers data;
                        templateName = ''simplegitlogpaginated.html''
             in if param r ''partial'' = ''true'' then
                  (if templateName \<notin> set (sv_Templates s) then Answer w
                   else Answer (Write w [Fragment templateName (SimpleLogData data)]))
                else Answer (renderPage s w ''simplegitlog.html''
                  (empty_page\<lparr>pg_Title := ''simplegitlog'', pg_ScriptName := ''gitlog'',
                     pg_Data := SimpleLogData data\<rparr>)))))"

section \<open>Files and diffs\<close>

definition ServeSyntaxHighlightedFileForZoekt :: "'c world \<Rightarrow> 'c server \<Rightarrow> request \<Rightarrow> 'c outcome" where
  "ServeSyntaxHighlightedFileForZoekt wd s r =
     (let (rv, path) = splitRevPath
            (wd_tail wd ''/api/v2/getSyntaxHighlightedFileForZoekt/:parent/:repo/+/'' (rq_Path r))
      in on_res (BuildFileDataForZoektFilePreview (wd_sort_entries wd) (wd_git wd) path
               (zoekt_path s r) (full_name r) rv)
           (\<lambda>e. Answer (http_Error new_response
              [Text ''Error reading file or tree - '', Shown (GitText e)] 500))
           (\<lambda>(fileContent, dirContent). Answer (renderPage s new_response ''raw_blob_or_tree.html''
              (empty_page\<lparr>pg_Data := PreviewData fileContent dirContent\<rparr>))))"

definition view_of :: "FileViewerContext \<Rightarrow> view_page" where
  "view_of data = FileViewerContext.extend data
     \<lparr>vp_RepoRev = [], vp_HeadRev = [], vp_LogLink = [], vp_DirectoryTree = None,
      vp_Branches = [], vp_Tags = [], vp_RepoConfig = zero_repo\<rparr>"

definition delve_links :: "string \<Rightarrow> string \<Rightarrow> string \<Rightarrow> view_page \<Rightarrow> view_page" where
  "delve_links repoName rv path data0 =
     (let data = data0\<lparr>vp_LogLink := ''/delve/'' @ repoName @ ''/commits/'' @ rv @ CHR ''/'' # path\<rparr> in
      if fc_Permalink data \<noteq> [] then
        data\<lparr>fc_Permalink := ''/delve/'' @ repoName @ ''/blob/'' @ fc_CommitHash data @ CHR ''/'' # path\<rparr>
      else if fc_Headlink data \<noteq> [] then
        data\<lparr>fc_Headlink := ''/delve/'' @ repoName @ ''/blob/'' @ ''HEAD'' @ CHR ''/'' # path\<rparr>
      else data)"

text \<open>\<^verbatim>\<open>data.PathSegments[len(data.PathSegments)-1].Name\<close>\<close>

definition last_segment :: "view_page \<Rightarrow> (git_error, string) res" where
  "last_segment data =
     bind_res (go_index (fc_PathSegments data) (int (length (fc_PathSegments data)) - 1)) (\<lambda>e. Inr (bce_Name e))"

definition render_file ::
    "'c server \<Rightarrow> string \<Rightarrow> string \<Rightarrow> script_data \<Rightarrow> view_page \<Rightarrow> 'c outcome" where
  "render_file s templateName scriptName script data =
     on_res (last_segment data) no_error (\<lambda>title.
       Answer (renderPage s new_response templateName
         (empty_page\<lparr>pg_Title := title, pg_ScriptName := scriptName, pg_ScriptData := script,
            pg_Data := ViewData data\<rparr>)))"

definition ServeGitBlobRaw :: "'c world \<Rightarrow> 'c server \<Rightarrow> request \<Rightarrow> 'c outcome" where
  "ServeGitBlobRaw wd s r =
     (let (rv, path) = splitRevPath (wd_tail wd ''/raw-blob/:parent/:repo/+/'' (rq_Path r)) in
      with_parent s r written (\<lambda>repoConfig.
        on_res (BuildFileData (wd_sort_entries wd) (wd_git wd) path repoConfig rv)
          (\<lambda>e. Answer (http_Error new_response [Text ''Error reading file - '', Shown (GitText e)] 500))
          (\<lambda>data. render_file s ''raw_blob_or_tree.html'' [] NoScript
             (delve_links (full_name r) rv path (view_of data)))))"

definition ServeGitBlob :: "'c world \<Rightarrow> 'c server \<Rightarrow> request \<Rightarrow> 'c outcome" where
  "ServeGitBlob wd s r =
     (let rv = param r '':rev'';
          path = (if HasPrefix (rq_Path r) (''/delve/'' @ full_name r @ ''/tree/'')
                  then wd_tail wd ''/delve/:parent/:repo/tree/:rev/'' (rq_Path r)
                  else wd_tail wd ''/delve/:parent/:repo/blob/:rev/'' (rq_Path r))
      in with_parent s r (\<lambda>msg. http_Error new_response [Text (''delve-error: '' @ msg)] 500) (\<lambda>repoConfig.
        on_res (BuildFileData (wd_sort_entries wd) (wd_git wd) path repoConfig rv)
          (\<lambda>e. Answer (http_Error new_response
             [Text (''delve-error: Error reading file path='' @ path @ '', rev='' @ rv @ '' - ''),
              Shown (GitText e)] 500))
          (\<lambda>data0. let data = delve_links (full_name r) rv path (view_of data0)
             in render_file s ''fileview.html'' ''fileview''
                  (BlobScript repoConfig path rv (fc_CommitHash data)) data)))"

definition ServeFile :: "'c world \<Rightarrow> 'c server \<Rightarrow> request \<Rightarrow> 'c outcome" where
  "ServeFile wd s r =
     (case getRepoPathFromURL (wd_tail wd) (sv_regex s) (rq_Path r) ''/view/'' of
        Inl msg \<Rightarrow> Answer (http_Error new_response [Text msg] 400)
      | Inr (repoName, path) \<Rightarrow>
          let commit = (if param r ''commit'' = [] then ''HEAD'' else param r ''commit'') in
          if sv_repos s = [] then Answer (http_Error new_response [Text ''File browsing not enabled''] 404)
          else case map_of (sv_repos s) repoName of
              None \<Rightarrow> Answer (http_Error new_response [Text (''Error: No such repo: '' @ repoName)] 500)
            | Some repo \<Rightarrow>
                on_res (BuildFileData (wd_sort_entries wd) (wd_git wd) path repo commit)
                  (\<lambda>e. Answer (http_Error new_response [Text ''Error: reading file - '', Shown (GitText e)] 500))
                  (\<lambda>data. render_file s ''fileview.html'' ''fileview''
                     (FileScript repo path commit) (view_of data)))"

text \<open>
  Whatever is wrong, there is no diff, and that is looked at first: the test of the error after
  the rows is never true.
\<close>

definition ServeDiff :: "'c world \<Rightarrow> 'c server \<Rightarrow> request \<Rightarrow> 'c outcome" where
  "ServeDiff wd s r =
     (let revA = param r '':revA''; revB = param r '':revB'';
          path = wd_tail wd ''/diff/:parent/:repo/:revA/:revB/'' (rq_Path r);
          none = Answer (if revA = revB then written ''Commits for comparison are identical.''
                         else WriteHeader new_response 500)
      in with_parent s r written (\<lambda>repoConfig.
        on_res (GetDiffBetweenTwoCommits (wd_diff wd) path (rc_Path repoConfig) revA revB False)
          (\<lambda>e. none)
          (\<lambda>diff. case diff of
             None \<Rightarrow> none
           | Some d \<Rightarrow>
               on_res (GetDiffRowsSplit d) no_error (\<lambda>rows.
                 Answer (renderPage s new_response ''splitdiff.html''
                   (empty_page\<lparr>pg_Title := ''Diff'', pg_Data := DiffData rows (path_Base path)\<rparr>))))))"

section \<open>The new viewer\<close>

definition head_failed :: "string \<Rightarrow> string" where
  "head_failed repo = ''failed to fetch HEAD ref'' @ [NL] @ ''%!(EXTRA string='' @ repo @ '')''"

text \<open>The page of a path that could not be read: everything else stays as it is in an empty one.\<close>

definition invalid_file :: "RepoConfig \<Rightarrow> string \<Rightarrow> string \<Rightarrow> FileViewerContext" where
  "invalid_file repoConfig commit path =
     \<lparr>fc_PathSegments = [], fc_Repo = repoConfig, fc_Commit = commit, fc_CommitHash = commit,
      fc_ShortCommitHash = [], fc_DirContent = None,
      fc_FileContent = Some \<lparr>sf_Content = [], sf_LineCount = 0, sf_Language = [],
        sf_FileName = path_Base path, sf_FilePath = path, sf_Invalid = True\<rparr>,
      fc_ExternalDomain = [], fc_Permalink = [], fc_Headlink = [],
      fc_FilePath = path, fc_FileName = path_Base path, fc_MigrationUrl = []\<rparr>"

text \<open>
  The parts that are only logged when they fail: the tree, the branches and the tags. Each is
  given with the value the handler then goes on with.
\<close>

definition or_logged :: "('e, 'a) res \<Rightarrow> 'b \<Rightarrow> ('a \<Rightarrow> 'b) \<Rightarrow> ('b \<Rightarrow> 'c outcome) \<Rightarrow> 'c outcome" where
  "or_logged x dflt f k = on_res x (\<lambda>e. k dflt) (\<lambda>a. k (f a))"

definition viewer_script :: "RepoConfig \<Rightarrow> view_page \<Rightarrow> script_data" where
  "viewer_script repoConfig data = ViewerScript repoConfig (rc_Name repoConfig) (fc_Commit data)
     (fc_CommitHash data) (vp_RepoRev data) (vp_HeadRev data) (fc_FilePath data)
     (fc_FileName data) (vp_Branches data)"

definition viewer_page ::
    "'c world \<Rightarrow> 'c server \<Rightarrow> RepoConfig \<Rightarrow> string \<Rightarrow> string \<Rightarrow> FileViewerContext \<Rightarrow> 'c outcome" where
  "viewer_page wd s repoConfig headRev repoRev data0 =
     or_logged (BuildDirectoryTree (wd_git wd) (rc_Path repoConfig) repoRev) None Some (\<lambda>tree.
     or_logged (ListAllBranches (wd_git wd) (rc_Path repoConfig)) [] (\<lambda>b. b) (\<lambda>branches.
     or_logged (ListAllTags (wd_git wd) (rc_Path repoConfig)) [] (\<lambda>t. t) (\<lambda>tags.
       let data = (view_of data0)\<lparr>vp_DirectoryTree := tree, vp_Branches := branches, vp_Tags := tags,
             vp_RepoRev := repoRev, vp_RepoConfig := repoConfig, vp_HeadRev := headRev\<rparr>
       in Answer (renderPage s new_response ''experimental.html''
            (empty_page\<lparr>pg_Title := ''experimental'', pg_ScriptName := ''experimental'',
               pg_ScriptData := viewer_script repoConfig data, pg_Data := ViewData data,
               pg_BodyId := ''fileviewer-body''\<rparr>)))))"

text \<open>The commit to show the file at: the one asked for, else the last that touched it.\<close>

definition file_commit ::
    "git \<Rightarrow> string \<Rightarrow> string \<Rightarrow> string \<Rightarrow> string \<Rightarrow> (string \<Rightarrow> 'c outcome) \<Rightarrow> 'c outcome" where
  "file_commit git dataFileCommit path repoPath repoRev k =
     (if dataFileCommit \<noteq> [] then k dataFileCommit
      else or_logged (GitGetLastRevToTouchPath git path repoPath repoRev) repoRev (\<lambda>lastRev. lastRev) k)"

definition ServeExperimental :: "'c world \<Rightarrow> 'c server \<Rightarrow> request \<Rightarrow> 'c outcome" where
  "ServeExperimental wd s r =
     (let (repoRev0, path) = splitRevPath (wd_tail wd ''/experimental/:parent/:repo/+/'' (rq_Path r)) in
      with_parent s r written (\<lambda>repoConfig.
        on_res (GitRevParseAbbrev (wd_git wd) ''HEAD'' (rc_Path repoConfig))
          (\<lambda>e. Answer (written (head_failed (param r '':repo''))))
          (\<lambda>headRev.
             let repoRev = (if repoRev0 = ''HEAD'' then headRev else repoRev0) in
             file_commit (wd_git wd) (param r ''dfc'') path (rc_Path repoConfig) repoRev (\<lambda>commit.
             or_logged (BuildFileData (wd_sort_entries wd) (wd_git wd) path repoConfig commit)
               (invalid_file repoConfig commit path) (\<lambda>data. data)
               (viewer_page wd s repoConfig headRev repoRev)))))"

section \<open>Trees as JSON\<close>

text \<open>As long as only files have come, nothing points up and nothing points on from a file.\<close>

definition flat :: "tree_state \<Rightarrow> bool" where
  "flat st \<longleftrightarrow> ts_currDir st = Some 0 \<and> ts_prevDepth st = 0 \<and> ts_nodes st \<noteq> [] \<and>
     (\<forall>n\<in>set (ts_nodes st). tn_Type n \<noteq> ''tree'' \<and> tn_ParentDir n = None) \<and>
     (\<forall>n\<in>set (tl (ts_nodes st)). tn_Children n = []) \<and>
     (\<forall>a\<in>set (tn_Children (ts_nodes st ! 0)). 0 < a \<and> a < length (ts_nodes st))"

text \<open>A directory below the root that points back to it.\<close>

definition looped :: "TreeNode list \<Rightarrow> bool" where
  "looped nodes \<longleftrightarrow> (\<exists>a. 0 < a \<and> a < length nodes \<and> a \<in> set (tn_Children (nodes ! 0)) \<and>
     tn_ParentDir (nodes ! a) = Some 0 \<and> tn_Type (nodes ! a) = ''tree'')"

lemma add_entry_nodes:
  assumes "add_entry st entry = Inr st'"
  shows "\<exists>dir node. ts_nodes st' = (ts_nodes st)[dir := (ts_nodes st ! dir)
      \<lparr>tn_Children := tn_Children (ts_nodes st ! dir) @ [length (ts_nodes st)]\<rparr>] @ [node] \<and>
    climb (ts_nodes st) (ts_currDir st) (ts_prevDepth st - count_list (tn_Path entry) CHR ''/'') = (Inr (Some dir) :: (tree_error, nat option) res) \<and>
    (if tn_Type entry = ''tree'' then node = entry\<lparr>tn_Name := path_Base (tn_Name entry), tn_ParentDir := Some dir\<rparr>
     else node = entry\<lparr>tn_Name := path_Base (tn_Name entry)\<rparr> \<and> ts_currDir st' = Some dir \<and>
       ts_prevDepth st' = min (ts_prevDepth st) (count_list (tn_Path entry) CHR ''/''))"
  using assms by (auto simp: add_entry_def Let_def res_simps split: option.splits if_splits)

lemma nth_update: "xs[d := x] ! b = (if d = b \<and> b < length xs then x else xs ! b)"
  by (cases "d = b") (simp_all add: list_update_beyond not_less)

lemma looped_add:
  assumes "looped (ts_nodes st)" "add_entry st entry = Inr st'"
  shows "looped (ts_nodes st')"
proof -
  obtain a where a: "0 < a" "a < length (ts_nodes st)" "a \<in> set (tn_Children (ts_nodes st ! 0))"
    "tn_ParentDir (ts_nodes st ! a) = Some 0" "tn_Type (ts_nodes st ! a) = ''tree''"
    using assms(1) by (auto simp: looped_def)
  from add_entry_nodes[OF assms(2)] show ?thesis
    using a by (auto simp: looped_def nth_append nth_update intro!: exI[of _ a])
qed

lemma flat_add:
  assumes "flat st" "add_entry st entry = Inr st'" "tn_Children entry = []" "tn_ParentDir entry = None"
  shows "if tn_Type entry = ''tree'' then looped (ts_nodes st') else flat st'"
proof -
  from add_entry_nodes[OF assms(2)] obtain dir node where
    nodes: "ts_nodes st' = (ts_nodes st)[dir := (ts_nodes st ! dir)
      \<lparr>tn_Children := tn_Children (ts_nodes st ! dir) @ [length (ts_nodes st)]\<rparr>] @ [node]"
    and dir: "climb (ts_nodes st) (ts_currDir st) (ts_prevDepth st - count_list (tn_Path entry) CHR ''/'') =
      (Inr (Some dir) :: (tree_error, nat option) res)"
    and node: "if tn_Type entry = ''tree'' then node = entry\<lparr>tn_Name := path_Base (tn_Name entry), tn_ParentDir := Some dir\<rparr>
      else node = entry\<lparr>tn_Name := path_Base (tn_Name entry)\<rparr> \<and> ts_currDir st' = Some dir \<and>
        ts_prevDepth st' = min (ts_prevDepth st) (count_list (tn_Path entry) CHR ''/'')"
    by blast
  have 0: "dir = 0" using dir assms(1) by (simp add: flat_def)
  obtain root rest where st: "ts_nodes st = root # rest" using assms(1) by (cases "ts_nodes st") (auto simp: flat_def)
  show ?thesis
    using assms(1,3,4) nodes node unfolding 0 st
    by (auto simp: flat_def looped_def st nth_append)
qed

lemma tree_loop_json:
  assumes "tree_loop st lines = Inr st'" "flat st \<or> looped (ts_nodes st)"
  shows "flat st' \<or> looped (ts_nodes st')"
  using assms
proof (induction lines arbitrary: st)
  case (Cons line lines)
  then obtain entry st1 where step: "parse_ls_tree_line line = Inr entry" "add_entry st entry = Inr st1"
      "tree_loop st1 lines = Inr st'"
    by (auto simp: res_simps)
  then show ?case
    using Cons.IH[OF step(3)] Cons.prems(2) looped_add[OF _ step(2)] flat_add[OF _ step(2)]
      parse_ls_tree_line_fresh[OF step(1)] by metis
qed simp

lemma walk_of_loop:
  assumes "a \<in> set (tn_Children (nodes ! 0))" "tn_ParentDir (nodes ! a) = Some 0"
  shows "walk_of nodes n 0 \<and> walk_of nodes n a"
proof (induction n)
  case (Suc n)
  then show ?case using assms by (auto simp: list_ex_iff tree_pointers_def)
qed simp

lemma json_fails_iff:
  assumes "buildDirectoryTree out = Inr nodes"
  shows "json_fails (TreeJson nodes) \<longleftrightarrow> list_ex (\<lambda>n. tn_Type n = ''tree'') nodes"
proof -
  obtain st where st: "tree_loop init_state (butlast (split_on NUL out)) = Inr st" "nodes = ts_nodes st"
    using assms by (auto simp: buildDirectoryTree_def res_simps)
  have "flat init_state" by (simp add: flat_def init_state_def root_node_def)
  then consider "flat st" | "looped (ts_nodes st)" using tree_loop_json[OF st(1)] by blast
  then show ?thesis
  proof cases
    case 1
    obtain root rest where nodes: "nodes = root # rest" using 1 st(2) by (metis flat_def list.exhaust)
    have none: "\<not> walk_of nodes (Suc n) a" if "0 < a" "a < length nodes" for a n
    proof -
      have "nodes ! a \<in> set (tl nodes)" using that nodes by (cases a) auto
      then show ?thesis using 1 st(2) that by (auto simp: flat_def tree_pointers_def list_ex_iff)
    qed
    have "\<not> walk_of nodes (length nodes) 0"
    proof (cases rest)
      case Nil
      then have one: "ts_nodes st = [root]" using nodes st(2) by simp
      then have "tn_Children root = []" using 1 by (cases "tn_Children root") (auto simp: flat_def)
      then show ?thesis using 1 st(2) one by (simp add: flat_def tree_pointers_def)
    next
      case (Cons x xs)
      then have "length nodes = Suc (Suc (length xs))" using nodes by simp
      then show ?thesis
        using none 1 st(2) nodes by (auto simp: flat_def tree_pointers_def list_ex_iff)
    qed
    then show ?thesis using 1 st(2) by (auto simp: json_fails_def flat_def list_ex_iff)
  next
    case 2
    then show ?thesis using walk_of_loop st(2) by (auto simp: looped_def json_fails_def list_ex_iff)
  qed
qed

text \<open>
  C29. The reply of \<^verbatim>\<open>/api/v2/json/git-ls-tree\<close> is empty, with status 200, for every
  revision that has a directory: a directory points to its parent, which JSON cannot express.
  Only a repository without directories is sent.
\<close>

theorem ServeGitLsTreeJson_lost:
  assumes "map_of (sv_repos s) (full_name r) = Some repo"
    and "BuildDirectoryTree (wd_git wd) (rc_Path repo) (param r '':rev'') = Inr nodes"
  shows "ServeGitLsTreeJson wd s r = Answer
    (if list_ex (\<lambda>n. tn_Type n = ''tree'') nodes then WriteHeader new_response 200
     else Write (WriteHeader new_response 200) [Json (TreeJson nodes), Text [NL]])"
proof -
  obtain out where "buildDirectoryTree out = Inr nodes"
    using assms(2) by (auto simp: BuildDirectoryTree_def res_simps)
  from json_fails_iff[OF this] show ?thesis
    using assms by (auto simp: ServeGitLsTreeJson_def with_repo_def replyJSON_def)
qed

definition one_directory :: string where
  "one_directory = ''040000 tree 9 -'' @ TAB # ''d'' @ [NUL]"

lemma one_directory_tree:
  "buildDirectoryTree one_directory =
    Inr [root_node\<lparr>tn_Children := [1]\<rparr>,
      \<lparr>tn_Name = ''d'', tn_Path = ''d'', tn_Mode = 16384, tn_Hash = ''9'', tn_ParentDir = Some 0,
       tn_Type = ''tree'', tn_Children = []\<rparr>]"
proof -
  have num: "ParseInt 8 32 ''040000'' = (16384, None)"
    by (simp add: ParseInt_def ParseUint_def is_digit_def digit_value_def Let_def)
  have dash: "TrimSpace ''-'' = ''-''" by (rule TrimSpace_all_graphic) (force simp: graphic_def)
  have words: "splitn_on 4 CHR '' '' ''040000 tree 9 -'' = [''040000'', ''tree'', ''9'', ''-'']"
    by (simp add: numeral_eq_Suc splitn_on.simps)
  have "butlast (split_on NUL one_directory) = [''040000 tree 9 -'' @ TAB # ''d'']"
    by (simp add: one_directory_def)
  moreover have "parse_ls_tree_line (''040000 tree 9 -'' @ TAB # ''d'') =
      Inr \<lparr>tn_Name = ''d'', tn_Path = ''d'', tn_Mode = 16384, tn_Hash = ''9'', tn_ParentDir = None,
        tn_Type = ''tree'', tn_Children = []\<rparr>"
    using num dash words by (simp add: parse_ls_tree_line_def)
  moreover have "path_Base ''d'' = ''d''" by (simp add: path_Base_def strip_slashes_def after_last_slash_def)
  ultimately show ?thesis
    by (simp add: buildDirectoryTree_def init_state_def root_node_def add_entry_def Let_def)
qed

definition some_world :: "unit world" where
  "some_world = \<lparr>wd_git = (\<lambda>_. Inr one_directory), wd_show = (\<lambda>_. Inl ''no git''),
     wd_blame = (\<lambda>_. Inl ''no git''), wd_diff = (\<lambda>_. Inl ''no git''), wd_sort_entries = (\<lambda>xs. xs),
     wd_sort_chunks = (\<lambda>xs. xs), wd_sort_results = (\<lambda>xs. xs),
     wd_arrangement = \<lparr>ar_results = (\<lambda>xs. xs), ar_lines = (\<lambda>xs. xs), ar_exts = (\<lambda>xs. xs)\<rparr>,
     wd_rpc = (\<lambda>_ _. Inl \<lparr>re_Code = InvalidArgument, re_Desc = [], re_Error = []\<rparr>),
     wd_now = 0, wd_elapsed = 0, wd_GetState = (\<lambda>_. ConnReady),
     wd_tail = (\<lambda>pattern url. ''d'')\<rparr>"

definition small_server :: "unit server" where
  "small_server = empty_server\<lparr>sv_repos := [(''a/b'', some_repo)],
     sv_newRepos := [''a'' \<mapsto> [''b'' \<mapsto> some_repo]],
     sv_Templates := [''fileview.html'', ''experimental.html'']\<rparr>"

definition request_of :: "(string \<times> string) list \<Rightarrow> request" where
  "request_of ps = \<lparr>rq_Path = ''/'', rq_Query = map (\<lambda>(k, v). (k, [v])) ps, rq_Host = ''h'',
     rq_TLS = False, rq_RealProto = [], rq_JWT = [], rq_ForwardedFor = [], rq_ForwardedProto = [],
     rq_RemoteAddr = [], rq_URL = []\<rparr>"

definition named :: "(string \<times> string) list" where
  "named = [('':parent'', ''a''), ('':repo'', ''b''), ('':rev'', ''main'')]"

lemma small_full_name [simp]: "full_name (request_of (named @ ps)) = ''a/b''"
  by (simp add: full_name_def request_of_def named_def values_Get_def)

lemma small_repo [simp]: "map_of (sv_repos small_server) ''a/b'' = Some some_repo"
  by (simp add: small_server_def)

lemma ServeGitLsTreeJson_lost_witness:
  "ServeGitLsTreeJson some_world small_server (request_of named) = Answer (WriteHeader new_response 200)"
proof -
  have "BuildDirectoryTree (wd_git some_world) (rc_Path some_repo) (param (request_of named) '':rev'') =
      Inr [root_node\<lparr>tn_Children := [1]\<rparr>,
        \<lparr>tn_Name = ''d'', tn_Path = ''d'', tn_Mode = 16384, tn_Hash = ''9'', tn_ParentDir = Some 0,
         tn_Type = ''tree'', tn_Children = []\<rparr>]"
    using one_directory_tree by (simp add: BuildDirectoryTree_def GetLsTreeOutput_def some_world_def)
  then show ?thesis
    using ServeGitLsTreeJson_lost[of small_server "request_of named" some_repo some_world] small_full_name[of "[]"]
    by (simp del: small_full_name)
qed

section \<open>The log and its arguments\<close>

text \<open>
  The page of a log runs git with the \<^verbatim>\<open>firstParent\<close> of the URL as an argument of its own
  before the \<^verbatim>\<open>--\<close>, whatever it is: one that begins with a dash is an option of git. What git
  makes of it is what the page says.
\<close>

theorem ServeSimpleGitLog_runs:
  assumes "map_of (sv_repos s) (full_name r) = Some repo" "param r ''firstParent'' \<noteq> []"
    and "wd_git wd [''-C'', rc_Path repo, ''log'', ''-n'', ''1000'', ''-z'', ''--no-abbrev'',
      ''--pretty='' @ customGitLogFormat, param r ''firstParent'', ''--'',
      path_Clean (wd_tail wd ''/delve/:parent/:repo/commits/:rev/'' (rq_Path r))] = Inl err"
  shows "ServeSimpleGitLog wd s r = Answer (http_Error new_response
    [Text ''Error building log data: '', Shown (LogText (GitLogFailed err)), Text [NL]] 500)"
  using assms by (auto simp: ServeSimpleGitLog_def with_repo_def BuildSimpleGitLogData_def Let_def)

lemma ServeSimpleGitLog_runs_witness:
  "ServeSimpleGitLog (some_world\<lparr>wd_git := (\<lambda>args. if ''--output=/etc/motd'' \<in> set args then Inl ''permission denied'' else Inr [])\<rparr>)
     small_server (request_of (named @ [(''firstParent'', ''--output=/etc/motd'')])) =
   Answer (http_Error new_response
     [Text ''Error building log data: '', Shown (LogText (GitLogFailed ''permission denied'')), Text [NL]] 500)"
  by (rule ServeSimpleGitLog_runs[where repo = some_repo])
    (simp_all add: named_def request_of_def values_Get_def some_world_def full_name_def small_server_def)

section \<open>Pages of files\<close>

lemma last_segment_ok: "fc_PathSegments data \<noteq> [] \<Longrightarrow> \<exists>title. last_segment data = Inr title"
  by (cases "fc_PathSegments data" rule: rev_cases) (auto simp: last_segment_def go_index_def)

lemma delve_links_segments [simp]: "fc_PathSegments (delve_links n rv p data) = fc_PathSegments data"
  by (simp add: delve_links_def Let_def)

lemma view_of_segments [simp]: "fc_PathSegments (view_of data) = fc_PathSegments data"
  by (simp add: view_of_def FileViewerContext.defs)

lemma render_file_answers: "fc_PathSegments data \<noteq> [] \<Longrightarrow> \<exists>w. render_file s t n sc data = Answer w"
  using last_segment_ok[of data] by (auto simp: render_file_def)



section \<open>The new viewer without a file\<close>

lemma or_logged_fails: "\<not> is_panic x \<Longrightarrow> or_logged x dflt f k = k (case x of Inr a \<Rightarrow> f a | Inl _ \<Rightarrow> dflt)"
  by (cases x; cases "projl x") (auto simp: or_logged_def)

definition shown_file :: "'c outcome \<Rightarrow> view_page option" where
  "shown_file out =
     (case out of
        Answer w \<Rightarrow>
          (case w_Body w of
             [Html name page] \<Rightarrow>
               (case pg_Data page of ViewData data \<Rightarrow> if name = ''experimental.html'' then Some data else None | _ \<Rightarrow> None)
           | _ \<Rightarrow> None)
      | _ \<Rightarrow> None)"

lemma viewer_page_shows:
  assumes "''experimental.html'' \<in> set (sv_Templates s)"
    and "\<not> is_panic (BuildDirectoryTree (wd_git wd) (rc_Path repo) repoRev)"
    and "\<not> is_panic (ListAllBranches (wd_git wd) (rc_Path repo))" "\<not> is_panic (ListAllTags (wd_git wd) (rc_Path repo))"
  shows "\<exists>data. shown_file (viewer_page wd s repo headRev repoRev ctx) = Some data \<and>
    fc_FileContent data = fc_FileContent ctx \<and> fc_FilePath data = fc_FilePath ctx \<and>
    vp_RepoRev data = repoRev \<and> vp_HeadRev data = headRev"
  using assms
  by (simp add: viewer_page_def or_logged_fails shown_file_def renderPage_def Write_def WriteHeader_def
      new_response_def empty_page_def view_of_def FileViewerContext.defs Let_def)

text \<open>
  The new viewer shows a page for every path, also one that does not exist at the commit:
  then the file is marked invalid and named by the path that was asked for, beside the tree and
  the branches, and \<^verbatim>\<open>HEAD\<close> is shown as the branch it points to.
\<close>

theorem ServeExperimental_missing_file:
  assumes "in_parents (sv_newRepos s) (param r '':parent'') (param r '':repo'') = Some repo"
    and "''experimental.html'' \<in> set (sv_Templates s)"
    and "splitRevPath (wd_tail wd ''/experimental/:parent/:repo/+/'' (rq_Path r)) = (rv, path)"
    and "GitRevParseAbbrev (wd_git wd) ''HEAD'' (rc_Path repo) = Inr headRev"
    and "BuildFileData (wd_sort_entries wd) (wd_git wd) path repo (param r ''dfc'') = Inl (Error e)"
    and "param r ''dfc'' \<noteq> []"
    and "\<not> is_panic (BuildDirectoryTree (wd_git wd) (rc_Path repo) (if rv = ''HEAD'' then headRev else rv))"
    and "\<not> is_panic (ListAllBranches (wd_git wd) (rc_Path repo))" "\<not> is_panic (ListAllTags (wd_git wd) (rc_Path repo))"
  shows "\<exists>data f. shown_file (ServeExperimental wd s r) = Some data \<and>
    fc_FileContent data = Some f \<and> sf_Invalid f \<and> sf_FilePath f = path \<and> fc_FilePath data = path \<and>
    vp_RepoRev data = (if rv = ''HEAD'' then headRev else rv) \<and> vp_HeadRev data = headRev"
proof -
  have parent: "\<exists>m. sv_newRepos s (param r '':parent'') = Some m \<and> m (param r '':repo'') = Some repo"
    using assms(1) by (auto simp: in_parents_def bind_eq_Some_conv)
  have "ServeExperimental wd s r = viewer_page wd s repo headRev
      (if rv = ''HEAD'' then headRev else rv) (invalid_file repo (param r ''dfc'') path)"
    using parent assms(3-6)
    by (auto simp: ServeExperimental_def with_parent_def file_commit_def or_logged_def Let_def)
  then show ?thesis
    using viewer_page_shows[OF assms(2,7-9), of headRev "invalid_file repo (param r ''dfc'') path"]
    by (auto simp: invalid_file_def)
qed

definition no_files :: git where
  "no_files args = (if take 1 (drop 2 args) = [''rev-parse''] then Inr (''main'' @ [NL]) else Inl ''no'')"

lemma ServeExperimental_missing_file_witness:
  "\<exists>data f. shown_file (ServeExperimental (some_world\<lparr>wd_git := no_files\<rparr>)
      small_server (request_of (named @ [(''dfc'', ''0123'')]))) = Some data \<and>
    fc_FileContent data = Some f \<and> sf_Invalid f \<and> sf_FilePath f = [] \<and> fc_FilePath data = [] \<and>
    vp_RepoRev data = ''d'' \<and> vp_HeadRev data = ''main''"
proof -
  let ?wd = "some_world\<lparr>wd_git := no_files\<rparr>"
  let ?r = "request_of (named @ [(''dfc'', ''0123'')])"
  have main: "TrimSpace (''main'' @ [NL]) = ''main''"
    by (rule TrimSpace_newline) (simp_all add: graphic_def)
  have hash: "resolve_commit no_files c d = Inr ''main''" for c d
    by (simp add: no_files_def resolve_commit_def gitCommitHash_def git_res_def Index_def)
  have path: "splitRevPath ''d'' = (''d'', [])" by (simp add: splitRevPath_def)
  have content: "BuildFileData arr no_files [] some_repo c = Inl (Error (GitFailed ''no''))" for arr c
    by (simp add: no_files_def[of "[''-C'', d, ''cat-file'', ''-t'', x]" for d x] BuildFileData_def hash object_content_def gitObjectType_def git_res_def Let_def)
  show ?thesis
    using ServeExperimental_missing_file[of small_server ?r some_repo ?wd "''d''" "[]" "''main''" "GitFailed ''no''"]
      main path content
    by (simp add: small_server_def in_parents_def named_def request_of_def values_Get_def some_world_def
        GitRevParseAbbrev_def git_res_def BuildDirectoryTree_def GetLsTreeOutput_def ls_tree_args_def
        ListAllBranches_def ListAllTags_def refs_args_def no_files_def[of "''-C'' # d # x # y" for d x y])
qed

end
