(* ===== verification/ServerRoutes.thy ===== *)
theory ServerRoutes
  imports FileHandlers
begin

text \<open>
  The table of routes that \<^verbatim>\<open>New\<close> registers, the dispatch of a request to its handler, and
  what holds of all handlers at once: git is run only inside the repository that the request
  names, with the same result however the rest of the machine looks.
\<close>

section \<open>Routes\<close>

datatype handler =
    HealthZ | Healthcheck | Stats | Search | File | GitBlob | GitShowPage | SimpleLog | DiffPage
  | BlobRaw | Experimental | About | AboutFileviewer | Help | Opensearch | Root
  | APISearch | BkStatus | RenderedResults | LsTreeRendered | LogReply | BlameReply | LsTreeReply
  | HighlightedZoekt | LsTreeZoekt | LogZoekt | BranchesZoekt | TagsZoekt | Test

definition routes :: "(string \<times> handler) list" where
  "routes =
   [(''/healthz'', HealthZ), (''/debug/healthcheck'', Healthcheck), (''/debug/stats'', Stats),
    (''/search/:backend'', Search), (''/search/'', Search), (''/view/'', File),
    (''/delve/:parent/:repo/tree/:rev/'', GitBlob), (''/delve/:parent/:repo/blob/:rev/'', GitBlob),
    (''/delve/:parent/:repo/commit/:commitHash/'', GitShowPage),
    (''/delve/:parent/:repo/commits/:rev/'', SimpleLog), (''/delve/'', File),
    (''/diff/:parent/:repo/:revA/:revB/'', DiffPage), (''/raw-blob/:parent/:repo/+/'', BlobRaw),
    (''/experimental/:parent/:repo/+/'', Experimental), (''/simple-git-log/'', SimpleLog),
    (''/git-show/'', GitShowPage), (''/about'', About), (''/about-fileviewer'', AboutFileviewer),
    (''/help'', Help), (''/opensearch.xml'', Opensearch), (''/'', Root),
    (''/api/v1/search/:backend'', APISearch), (''/api/v1/search/'', APISearch),
    (''/api/v1/bkstatus/:backend'', BkStatus), (''/api/v1/bkstatus/'', BkStatus),
    (''/api/v2/getRenderedSearchResults/:backend'', RenderedResults),
    (''/api/v2/getRenderedSearchResults/'', RenderedResults),
    (''/api/v2/getRenderedFileTree/:parent/:repo/:rev/'', LsTreeRendered),
    (''/api/v2/json/git-log/:parent/:repo/'', LogReply),
    (''/api/v2/json/git-blame/:parent/:repo/:rev/'', BlameReply),
    (''/api/v2/json/git-ls-tree/:parent/:repo/:rev/'', LsTreeReply),
    (''/api/v2/getSyntaxHighlightedFileForZoekt/:parent/:repo/+/'', HighlightedZoekt),
    (''/api/v2/getDirectoryTreeForZoekt/:parent/:repo/+/'', LsTreeZoekt),
    (''/api/v2/getGitLogForZoekt/:parent/:repo/+/'', LogZoekt),
    (''/api/v2/getAllBranchesForZoekt/:parent/:repo/+/'', BranchesZoekt),
    (''/api/v2/getAllTagsForZoekt/:parent/:repo/+/'', TagsZoekt),
    (''/api/v2/getDirectoryTreeForZoekt/'', Test)]"

definition serve :: "handler \<Rightarrow> 'c world \<Rightarrow> 'c server \<Rightarrow> request \<Rightarrow> 'c outcome" where
  "serve h wd s r =
     (case h of
        HealthZ \<Rightarrow> ServeHealthZ
      | Healthcheck \<Rightarrow> ServeHealthcheck s
      | Stats \<Rightarrow> ServeStats wd s
      | Search \<Rightarrow> ServeSearch s
      | File \<Rightarrow> ServeFile wd s r
      | GitBlob \<Rightarrow> ServeGitBlob wd s r
      | GitShowPage \<Rightarrow> ServeGitShow wd s r
      | SimpleLog \<Rightarrow> ServeSimpleGitLog wd s r
      | DiffPage \<Rightarrow> ServeDiff wd s r
      | BlobRaw \<Rightarrow> ServeGitBlobRaw wd s r
      | Experimental \<Rightarrow> ServeExperimental wd s r
      | About \<Rightarrow> ServeAbout s
      | AboutFileviewer \<Rightarrow> ServeAboutFileviewer s
      | Help \<Rightarrow> ServeHelp
      | Opensearch \<Rightarrow> ServeOpensearch s r
      | Root \<Rightarrow> ServeRoot
      | APISearch \<Rightarrow> ServeAPISearch_reply wd s r
      | BkStatus \<Rightarrow> ServeBackendStatus wd s r
      | RenderedResults \<Rightarrow> ServeRenderedSearchResults wd s r
      | LsTreeRendered \<Rightarrow> ServeGitLsTreeRendered wd s r
      | LogReply \<Rightarrow> ServeGitLogJson wd s r
      | BlameReply \<Rightarrow> ServeGitBlameJson wd s r
      | LsTreeReply \<Rightarrow> ServeGitLsTreeJson wd s r
      | HighlightedZoekt \<Rightarrow> ServeSyntaxHighlightedFileForZoekt wd s r
      | LsTreeZoekt \<Rightarrow> ServeGitLsTreeForZoekt wd s r
      | LogZoekt \<Rightarrow> ServeGitLogForZoekt wd s r
      | BranchesZoekt \<Rightarrow> ServeListAllBranchesForZoekt wd s r
      | TagsZoekt \<Rightarrow> ServeListAllTagsForZoekt wd s r
      | Test \<Rightarrow> TestHandler)"

text \<open>
  The routing library picks a route by the patterns, and puts its parameters before the query
  of the URL. A path that no pattern fits is answered by the library.
\<close>

definition dispatch ::
    "(string list \<Rightarrow> request \<Rightarrow> (nat \<times> url_Values) option) \<Rightarrow> (request \<Rightarrow> 'c outcome)
     \<Rightarrow> 'c world \<Rightarrow> 'c server \<Rightarrow> request \<Rightarrow> 'c outcome" where
  "dispatch pick unrouted wd s r =
     (case pick (map fst routes) r of
        None \<Rightarrow> unrouted r
      | Some (i, params) \<Rightarrow> serve (snd (routes ! i)) wd s (r\<lparr>rq_Query := params @ rq_Query r\<rparr>))"

section \<open>Where git runs\<close>

text \<open>The directory in which a handler may run git for a request.\<close>

definition git_dir :: "handler \<Rightarrow> 'c world \<Rightarrow> 'c server \<Rightarrow> request \<Rightarrow> string option" where
  "git_dir h wd s r =
     (if h \<in> {GitShowPage, BlameReply, LogReply, LsTreeReply, LsTreeRendered, SimpleLog} then
        map_option rc_Path (map_of (sv_repos s) (full_name r))
      else if h \<in> {GitBlob, BlobRaw, DiffPage, Experimental} then
        map_option rc_Path (in_parents (sv_newRepos s) (param r '':parent'') (param r '':repo''))
      else if h = File then
        (case getRepoPathFromURL (wd_tail wd) (sv_regex s) (rq_Path r) ''/view/'' of
           Inl _ \<Rightarrow> None
         | Inr (name, path) \<Rightarrow> map_option rc_Path (map_of (sv_repos s) name))
      else if h \<in> {HighlightedZoekt, LsTreeZoekt, LogZoekt, BranchesZoekt, TagsZoekt} then
        Some (zoekt_path s r)
      else None)"

text \<open>Two worlds that look alike from a directory, and differ in nothing but git.\<close>

definition same_git :: "string option \<Rightarrow> 'c world \<Rightarrow> 'c world \<Rightarrow> bool" where
  "same_git dir wd wd' \<longleftrightarrow>
     (\<exists>g sh bl df. wd' = wd\<lparr>wd_git := g, wd_show := sh, wd_blame := bl, wd_diff := df\<rparr>) \<and>
     (\<forall>d args. dir = Some d \<longrightarrow>
        wd_git wd (''-C'' # d # args) = wd_git wd' (''-C'' # d # args) \<and>
        wd_show wd (''-C'' # d # args) = wd_show wd' (''-C'' # d # args) \<and>
        wd_blame wd (''-C'' # d # args) = wd_blame wd' (''-C'' # d # args) \<and>
        wd_diff wd (''-C'' # d # args) = wd_diff wd' (''-C'' # d # args))"

section \<open>What the library functions run\<close>

definition agree :: "string \<Rightarrow> (string list \<Rightarrow> 'a) \<Rightarrow> (string list \<Rightarrow> 'a) \<Rightarrow> bool" where
  "agree d git git' \<longleftrightarrow> (\<forall>args. git (''-C'' # d # args) = git' (''-C'' # d # args))"

named_theorems confined \<open>a function runs git in one directory only\<close>

lemma confined_objects [confined]:
  assumes "agree d git git'"
  shows "gitCommitHash git ref d = gitCommitHash git' ref d"
    "gitObjectType git obj d = gitObjectType git' obj d"
    "gitListDir git obj d = gitListDir git' obj d"
    "gitCatBlob git obj d = gitCatBlob git' obj d"
    "GitRevParseAbbrev git rv d = GitRevParseAbbrev git' rv d"
    "GitGetLastRevToTouchPath git p d rv = GitGetLastRevToTouchPath git' p d rv"
  using assms
  by (simp_all add: agree_def gitCommitHash_def gitObjectType_def gitListDir_def gitCatBlob_def
      GitRevParseAbbrev_def GitGetLastRevToTouchPath_def)

lemma confined_content [confined]:
  assumes "agree d git git'"
  shows "resolve_commit git commit d = resolve_commit git' commit d"
    "buildDirectoryListEntry git te p n d c u = buildDirectoryListEntry git' te p n d c u"
    "read_readme git d p rm = read_readme git' d p rm"
  by (simp_all add: resolve_commit_def buildDirectoryListEntry_def read_readme_def Let_def
      confined_objects[OF assms])

lemma confined_object_content [confined]:
  assumes "agree d git git'"
  shows "object_content arr git u k p d n = object_content arr git' u k p d n"
  by (rule ext) (simp add: object_content_def confined_objects[OF assms] confined_content[OF assms] cong: if_cong)

lemma confined_files [confined]:
  assumes "agree d git git'"
  shows "rc_Path repo = d \<Longrightarrow> BuildFileData arr git p repo c = BuildFileData arr git' p repo c"
    "BuildFileDataForZoektFilePreview arr git p d n c = BuildFileDataForZoektFilePreview arr git' p d n c"
  by (simp_all add: BuildFileData_def BuildFileDataForZoektFilePreview_def
      confined_content[OF assms] confined_object_content[OF assms])

lemma confined_refs [confined]:
  assumes "agree d git git'"
  shows "ListAllBranches git d = ListAllBranches git' d" "ListAllTags git d = ListAllTags git' d"
    "GetLsTreeOutput git d c = GetLsTreeOutput git' d c"
    "BuildDirectoryTree git d c = BuildDirectoryTree git' d c"
  using assms
  by (simp_all add: agree_def ListAllBranches_def ListAllTags_def refs_args_def GetLsTreeOutput_def
      BuildDirectoryTree_def ls_tree_args_def)

lemma confined_logs [confined]:
  assumes "agree d git git'"
  shows "BuildGitLog git opts d = BuildGitLog git' opts d"
    "rc_Path repo = d \<Longrightarrow> BuildSimpleGitLogData git p f repo = BuildSimpleGitLogData git' p f repo"
  using assms
  by (auto simp: agree_def BuildGitLog_def genLogArgs_def BuildSimpleGitLogData_def split: option.split)

lemma confined_show [confined]:
  "agree (rc_Path repo) git git' \<Longrightarrow> GitShowCommit git repo c = GitShowCommit git' repo c"
  by (simp add: agree_def GitShowCommit_def git_show_args_def)

lemma confined_blame [confined]:
  "agree (rc_Path repo) git git' \<Longrightarrow> GitBlameBlob git ord p repo c = GitBlameBlob git' ord p repo c"
  by (simp add: agree_def GitBlameBlob_def blame_args_def)

lemma confined_diff [confined]:
  "agree d git git' \<Longrightarrow>
    GetDiffBetweenTwoCommits git p d a b w = GetDiffBetweenTwoCommits git' p d a b w"
  by (simp add: agree_def GetDiffBetweenTwoCommits_def diff_args_def)

section \<open>The handlers are confined\<close>

lemma same_git_world:
  assumes "same_git dir wd wd'"
  shows "wd_sort_entries wd' = wd_sort_entries wd" "wd_sort_chunks wd' = wd_sort_chunks wd"
    "wd_tail wd' = wd_tail wd" "wd_sort_results wd' = wd_sort_results wd"
    "wd_arrangement wd' = wd_arrangement wd" "wd_rpc wd' = wd_rpc wd" "wd_now wd' = wd_now wd"
    "wd_elapsed wd' = wd_elapsed wd" "wd_GetState wd' = wd_GetState wd"
  using assms by (auto simp: same_git_def)

lemma same_git_agree:
  assumes "same_git (Some d) wd wd'"
  shows "agree d (wd_git wd) (wd_git wd')" "agree d (wd_show wd) (wd_show wd')"
    "agree d (wd_blame wd) (wd_blame wd')" "agree d (wd_diff wd) (wd_diff wd')"
  using assms by (simp_all add: same_git_def agree_def)

lemma with_repo_cong:
  "(\<And>c. map_of (sv_repos s) name = Some c \<Longrightarrow> f c = g c) \<Longrightarrow> with_repo s name f = with_repo s name g"
  by (simp add: with_repo_def split: option.split)

lemma with_parent_cong:
  "(\<And>c. in_parents (sv_newRepos s) (param r '':parent'') (param r '':repo'') = Some c \<Longrightarrow> f c = g c) \<Longrightarrow>
    with_parent s r m f = with_parent s r m g"
  by (simp add: with_parent_def in_parents_def split: option.split)

lemma confined_by_name:
  assumes "same_git (map_option rc_Path (map_of (sv_repos s) (full_name r))) wd wd'"
  shows "ServeGitShow wd s r = ServeGitShow wd' s r" "ServeGitBlameJson wd s r = ServeGitBlameJson wd' s r"
    "ServeGitLsTreeJson wd s r = ServeGitLsTreeJson wd' s r"
    "ServeGitLsTreeRendered wd s r = ServeGitLsTreeRendered wd' s r"
    "ServeSimpleGitLog wd s r = ServeSimpleGitLog wd' s r"
proof -
  note world = same_git_world[OF assms]
  have run: "agree (rc_Path c) (wd_git wd) (wd_git wd')" "agree (rc_Path c) (wd_show wd) (wd_show wd')"
      "agree (rc_Path c) (wd_blame wd) (wd_blame wd')" if "map_of (sv_repos s) (full_name r) = Some c" for c
    using same_git_agree[of "rc_Path c" wd wd'] assms that by simp_all
  show "ServeGitShow wd s r = ServeGitShow wd' s r"
    unfolding ServeGitShow_def Let_def by (rule with_repo_cong) (simp add: confined_show[OF run(2)])
  show "ServeGitBlameJson wd s r = ServeGitBlameJson wd' s r"
    unfolding ServeGitBlameJson_def Let_def
    by (rule with_repo_cong) (simp add: confined_blame[OF run(3)] world)
  show "ServeGitLsTreeJson wd s r = ServeGitLsTreeJson wd' s r"
    unfolding ServeGitLsTreeJson_def by (rule with_repo_cong) (simp add: confined_refs[OF run(1)])
  show "ServeGitLsTreeRendered wd s r = ServeGitLsTreeRendered wd' s r"
    unfolding ServeGitLsTreeRendered_def Let_def
    by (rule with_repo_cong) (simp add: confined_refs[OF run(1)] world)
  show "ServeSimpleGitLog wd s r = ServeSimpleGitLog wd' s r"
    unfolding ServeSimpleGitLog_def Let_def
    by (rule with_repo_cong) (simp add: confined_logs[OF run(1)] world)
qed

lemma confined_serve_log:
  "agree d (wd_git wd) (wd_git wd') \<Longrightarrow> serve_log wd r rv p d = serve_log wd' r rv p d"
  by (simp add: serve_log_def confined_logs split: sum.split)

lemma confined_log_json:
  assumes "same_git (map_option rc_Path (map_of (sv_repos s) (full_name r))) wd wd'"
  shows "ServeGitLogJson wd s r = ServeGitLogJson wd' s r"
  using same_git_agree(1)[of _ wd wd'] assms
  by (auto simp: ServeGitLogJson_def filebrowseEnabled_def split: sum.split option.split
      intro!: confined_serve_log)

lemma confined_by_parent:
  assumes "same_git (map_option rc_Path
      (in_parents (sv_newRepos s) (param r '':parent'') (param r '':repo''))) wd wd'"
  shows "ServeGitBlob wd s r = ServeGitBlob wd' s r" "ServeGitBlobRaw wd s r = ServeGitBlobRaw wd' s r"
    "ServeDiff wd s r = ServeDiff wd' s r" "ServeExperimental wd s r = ServeExperimental wd' s r"
proof -
  note world = same_git_world[OF assms]
  have run: "agree (rc_Path c) (wd_git wd) (wd_git wd')" "agree (rc_Path c) (wd_diff wd) (wd_diff wd')"
    if "in_parents (sv_newRepos s) (param r '':parent'') (param r '':repo'') = Some c" for c
    using same_git_agree[of "rc_Path c" wd wd'] assms that by simp_all
  show "ServeGitBlob wd s r = ServeGitBlob wd' s r"
    unfolding ServeGitBlob_def Let_def
    by (rule with_parent_cong) (simp add: confined_files[OF run(1)] world)
  show "ServeGitBlobRaw wd s r = ServeGitBlobRaw wd' s r"
    unfolding ServeGitBlobRaw_def Let_def world
    by (intro prod.case_cong refl with_parent_cong) (simp add: confined_files[OF run(1)])
  show "ServeDiff wd s r = ServeDiff wd' s r"
    unfolding ServeDiff_def Let_def
    by (rule with_parent_cong) (simp add: confined_diff[OF run(2)] world)
  have page: "viewer_page wd s c h v = viewer_page wd' s c h v"
    if "in_parents (sv_newRepos s) (param r '':parent'') (param r '':repo'') = Some c" for c h v
    by (rule ext) (simp add: viewer_page_def confined_refs[OF run(1)[OF that]])
  show "ServeExperimental wd s r = ServeExperimental wd' s r"
    unfolding ServeExperimental_def Let_def world
    by (intro prod.case_cong refl with_parent_cong)
      (simp add: confined_objects[OF run(1)] confined_files[OF run(1)] file_commit_def page
        cong: if_cong)
qed

lemma confined_file:
  assumes "same_git (git_dir File wd s r) wd wd'"
  shows "ServeFile wd s r = ServeFile wd' s r"
proof -
  note world = same_git_world[OF assms]
  have "BuildFileData arr (wd_git wd) path c commit = BuildFileData arr (wd_git wd') path c commit"
    if "getRepoPathFromURL (wd_tail wd) (sv_regex s) (rq_Path r) ''/view/'' = Inr (name, path)"
      "map_of (sv_repos s) name = Some c" for name path c arr commit
    using same_git_agree(1)[of "rc_Path c" wd wd'] assms that
    by (intro confined_files(1)[OF _ refl]) (simp add: git_dir_def)
  then show ?thesis by (auto simp: ServeFile_def world Let_def split: sum.split option.split)
qed

lemma confined_zoekt:
  assumes "same_git (Some (zoekt_path s r)) wd wd'"
  shows "ServeSyntaxHighlightedFileForZoekt wd s r = ServeSyntaxHighlightedFileForZoekt wd' s r"
    "ServeGitLsTreeForZoekt wd s r = ServeGitLsTreeForZoekt wd' s r"
    "ServeGitLogForZoekt wd s r = ServeGitLogForZoekt wd' s r"
    "ServeListAllBranchesForZoekt wd s r = ServeListAllBranchesForZoekt wd' s r"
    "ServeListAllTagsForZoekt wd s r = ServeListAllTagsForZoekt wd' s r"
  using same_git_agree(1)[OF assms] same_git_world[OF assms]
  by (simp_all add: ServeSyntaxHighlightedFileForZoekt_def ServeGitLsTreeForZoekt_def
      ServeGitLogForZoekt_def ServeListAllBranchesForZoekt_def ServeListAllTagsForZoekt_def
      confined_files(2) confined_refs confined_serve_log cong: prod.case_cong)

lemma confined_no_git:
  assumes "same_git dir wd wd'"
  shows "ServeStats wd s = ServeStats wd' s" "ServeBackendStatus wd s r = ServeBackendStatus wd' s r"
    "ServeAPISearch_reply wd s r = ServeAPISearch_reply wd' s r"
    "ServeRenderedSearchResults wd s r = ServeRenderedSearchResults wd' s r"
  by (simp_all add: ServeStats_def ServeBackendStatus_def ServeAPISearch_reply_def
      ServeRenderedSearchResults_def same_git_world[OF assms])

text \<open>
  C7. Whatever is asked, git runs only in the directory of the repository that the request
  names, or of none: two machines on which git says the same inside that directory give the
  same answer. A request for a repository that is not configured never runs git at all, except
  on the routes for Zoekt, whose directory is built from the URL.
\<close>

theorem serve_confined:
  assumes "same_git (git_dir h wd s r) wd wd'"
  shows "serve h wd s r = serve h wd' s r"
  using assms confined_by_name[of s r wd wd'] confined_log_json[of s r wd wd']
    confined_by_parent[of s r wd wd'] confined_file[of wd s r wd'] confined_zoekt[of s r wd wd']
    confined_no_git[of "git_dir h wd s r" wd wd' s]
  by (cases h) (simp_all add: serve_def git_dir_def)

lemma serve_confined_witness:
  "serve LsTreeRendered some_world small_server (request_of named) =
     serve LsTreeRendered (some_world\<lparr>wd_git := (\<lambda>args. if take 2 args = [''-C'', ''/r''] then Inr one_directory else Inl ''elsewhere'')\<rparr>)
       small_server (request_of named) \<and>
   serve GitShowPage some_world small_server (request_of [('':parent'', ''x''), ('':repo'', ''b'')]) =
     serve GitShowPage (some_world\<lparr>wd_show := (\<lambda>_. Inr [])\<rparr>) small_server (request_of [('':parent'', ''x''), ('':repo'', ''b'')])"
proof
  have "full_name (request_of named) = ''a/b''" using small_full_name[of "[]"] by (simp del: small_full_name)
  then have "git_dir LsTreeRendered some_world small_server (request_of named) = Some ''/r''"
    by (simp add: git_dir_def some_repo_def)
  then show "serve LsTreeRendered some_world small_server (request_of named) =
     serve LsTreeRendered (some_world\<lparr>wd_git := (\<lambda>args. if take 2 args = [''-C'', ''/r''] then Inr one_directory else Inl ''elsewhere'')\<rparr>)
       small_server (request_of named)"
    by (intro serve_confined) (auto simp: same_git_def some_world_def)
  have "git_dir GitShowPage some_world small_server (request_of [('':parent'', ''x''), ('':repo'', ''b'')]) = None"
    by (simp add: git_dir_def full_name_def request_of_def values_Get_def small_server_def)
  then show "serve GitShowPage some_world small_server (request_of [('':parent'', ''x''), ('':repo'', ''b'')]) =
     serve GitShowPage (some_world\<lparr>wd_show := (\<lambda>_. Inr [])\<rparr>) small_server (request_of [('':parent'', ''x''), ('':repo'', ''b'')])"
    by (intro serve_confined) (auto simp: same_git_def some_world_def)
qed

end
