(* ===== verification/ServerStart.thy ===== *)
theory ServerStart
  imports ServerRoutes
begin

text \<open>
  How the server comes up and what stands in front of it: \<^verbatim>\<open>New\<close> of \<^verbatim>\<open>server/server.go\<close>, the
  handler that reloads the templates, \<^verbatim>\<open>server/middleware\<close>, and \<^verbatim>\<open>main\<close> of
  \<^verbatim>\<open>cmd/livegrep\<close>, which puts them together.
\<close>

section \<open>Starting\<close>

text \<open>
  What the start depends on: the template files (the names that were parsed, or an error),
  the file of asset hashes, the search backends, the StatsD client, and \<^verbatim>\<open>sort.Slice\<close>.
\<close>

record 'c startup =
  su_templates :: "string + string list"
  su_opensearch :: "string option"
  su_hashes :: "string + string"
  su_dial :: "string \<Rightarrow> int \<Rightarrow> string + 'c"
  su_statsd :: "StatsD \<Rightarrow> string option"
  su_sort :: "string list \<Rightarrow> string list"

definition panic_of :: "string \<Rightarrow> (string, 'a) res" where
  "panic_of msg = Inl (Panic (PanicMessage msg))"

definition load_hashes :: "'c startup \<Rightarrow> (string, string \<rightharpoonup> string) res" where
  "load_hashes su =
     (case LoadAssetHashes (su_hashes su) Map.empty of
        (Inl (Error err), m) \<Rightarrow> panic_of (''loading templates: '' @ err)
      | (Inl (Panic p), m) \<Rightarrow> Inl (Panic p)
      | (Inr _, m) \<Rightarrow> Inr m)"

definition loadTemplates :: "'c startup \<Rightarrow> 'c server \<Rightarrow> (string, 'c server) res" where
  "loadTemplates su s =
     (case su_templates su of
        Inl err \<Rightarrow> panic_of (''loading templates: '' @ err)
      | Inr names \<Rightarrow>
          (case su_opensearch su of
             Some err \<Rightarrow> panic_of err
           | None \<Rightarrow> bind_res (load_hashes su) (\<lambda>m.
               Inr (s\<lparr>sv_Templates := names, sv_AssetHashes := m\<rparr>))))"

text \<open>The first tag is looked at without asking whether there is one.\<close>

definition init_statsd :: "'c startup \<Rightarrow> StatsD \<Rightarrow> (string, unit) res" where
  "init_statsd su sd =
     (if sd_Address sd = [] then Inr ()
      else bind_res (go_index (sd_Tags sd) 0) (\<lambda>tag.
        if tag \<noteq> [] \<and> sd_TagsFormat sd \<noteq> ''datadog'' \<and> sd_TagsFormat sd \<noteq> ''influxdb'' then
          panic_of (''Invalid TagsFormat: %s. Only '' @ [CHR 0x27] @ ''datadog'' @ [CHR 0x27] @ '' and ''
            @ [CHR 0x27] @ ''influxdb'' @ [CHR 0x27] @ '' allowed'' @ sd_TagsFormat sd)
        else (case su_statsd su sd of
                Some err \<Rightarrow> panic_of (''could not initialize StatsD client: '' @ err)
              | None \<Rightarrow> Inr ())))"

fun open_backends ::
    "(string \<Rightarrow> int \<Rightarrow> string + 'c) \<Rightarrow> Backend_config list \<Rightarrow> 'c backends \<times> string list
     \<Rightarrow> (string, 'c backends \<times> string list) res" where
  "open_backends dial [] st = Inr st"
| "open_backends dial (bk # bks) (m, order) =
     bind_res (NewBackend dial bk) (\<lambda>be.
       open_backends dial bks (AList.update (bk_Id be) (Start be) m, order @ [bk_Id be]))"

definition New :: "'c startup \<Rightarrow> Config \<Rightarrow> (string, 'c server) res" where
  "New su cfg =
     bind_res (loadTemplates su \<lparr>sv_config = cfg, sv_bk = [], sv_bkOrder = [], sv_repos = [],
         sv_newRepos = Map.empty, sv_regex = [], sv_Templates = [], sv_AssetHashes = Map.empty,
         sv_mu = False\<rparr>) (\<lambda>srv.
     bind_res (init_statsd su (cfg_StatsD cfg)) (\<lambda>_.
     bind_res (if cfg_FileviewerOnly cfg then Inr ([], [])
               else open_backends (su_dial su) (cfg_Backends cfg) ([], [])) (\<lambda>(bk, bkOrder).
       let (repos, repoNames) = load_repos (ic_Repositories (cfg_IndexConfig cfg));
           (regex, sorted) = buildRepoRegex (su_sort su) repoNames
       in bind_res (buildReposAndParents repos sorted) (\<lambda>parents.
          bind_res regex (\<lambda>alts.
            Inr (srv\<lparr>sv_bk := bk, sv_bkOrder := bkOrder, sv_repos := repos, sv_newRepos := parents,
                   sv_regex := alts\<rparr>))))))"

section \<open>The handlers in front\<close>

text \<open>
  The outermost mux serves the assets from their directory. With \<^verbatim>\<open>reload\<close> every other
  request reads the templates again under a mutex. A panic of the reading is caught by
  \<^verbatim>\<open>net/http\<close>, and the mutex is not given back.
\<close>

definition ServeHTTP ::
    "(request \<Rightarrow> 'c outcome) \<Rightarrow> (string list \<Rightarrow> request \<Rightarrow> (nat \<times> url_Values) option)
     \<Rightarrow> (request \<Rightarrow> 'c outcome) \<Rightarrow> 'c startup \<Rightarrow> 'c world \<Rightarrow> 'c server \<Rightarrow> request \<Rightarrow> 'c outcome \<times> 'c server" where
  "ServeHTTP assets pick unrouted su wd s r =
     (if HasPrefix (rq_Path r) ''/assets/'' then (assets r, s)
      else if cfg_Reload (sv_config s) then
        (if sv_mu s then (Hang, s)
         else case loadTemplates su s of
           Inl (Panic p) \<Rightarrow> (Crash p, s\<lparr>sv_mu := True\<rparr>)
         | Inl (Error e) \<Rightarrow> (no_error e, s)
         | Inr s' \<Rightarrow> (dispatch pick unrouted wd s' r, s'))
      else (dispatch pick unrouted wd s r, s))"

text \<open>
  \<^verbatim>\<open>UnwrapProxyHeaders\<close>. \<open>rq_URL\<close> is what the URL of the request prints after scheme and
  host.
\<close>

definition UnwrapProxyHeaders ::
    "(request \<Rightarrow> 'c outcome \<times> 's) \<Rightarrow> 's \<Rightarrow> request \<Rightarrow> 'c outcome \<times> 's" where
  "UnwrapProxyHeaders inner s r =
     (let r = (if rq_ForwardedFor r \<noteq> [] then r\<lparr>rq_RemoteAddr := hd (splitn_on 2 CHR '','' (rq_ForwardedFor r))\<rparr> else r) in
      if rq_ForwardedProto r = ''http'' then
        (Answer (WriteHeader (set_header new_response ''Location'' (''https://'' @ rq_Host r @ rq_URL r)) 301), s)
      else inner r)"

definition ShouldEnableGoogleIAP :: "GoogleIAPConfig \<Rightarrow> bool" where
  "ShouldEnableGoogleIAP cfg =
     (if iap_ProjectNumber cfg = [] then False
      else if iap_BackendServiceID cfg = [] \<and> iap_ProjectID cfg = [] then False
      else if iap_BackendServiceID cfg \<noteq> [] \<and> iap_ProjectID cfg \<noteq> [] then False
      else True)"

definition audience :: "GoogleIAPConfig \<Rightarrow> string" where
  "audience cfg =
     (if iap_BackendServiceID cfg \<noteq> [] then
        ''/projects/'' @ iap_ProjectNumber cfg @ ''/global/backendServices/'' @ iap_BackendServiceID cfg
      else ''/projects/'' @ iap_ProjectNumber cfg @ ''/apps/'' @ iap_ProjectID cfg)"

text \<open>\<open>validate\<close> is \<^verbatim>\<open>idtoken.Validate\<close>: whether a token is valid for an audience.\<close>

definition iap_ServeHTTP ::
    "(string \<Rightarrow> string \<Rightarrow> bool) \<Rightarrow> GoogleIAPConfig \<Rightarrow> (request \<Rightarrow> 'c outcome \<times> 's) \<Rightarrow> 's \<Rightarrow> request
     \<Rightarrow> 'c outcome \<times> 's" where
  "iap_ServeHTTP validate cfg inner s r =
     (if rq_Path r = ''/healthz'' then inner r
      else if \<not> validate (rq_JWT r) (audience cfg) then
        (Answer (http_Error new_response [Text ''Unauthorized''] 401), s)
      else inner r)"

section \<open>The program\<close>

record livegrep_flags =
  lf_listen :: string
  lf_connect :: string
  lf_connect_backup :: string
  lf_fileviewer_only :: bool
  lf_docroot :: string
  lf_index_config :: string
  lf_reload :: bool
  lf_zoekt_repo_cache :: string
  lf_args :: "string list"

text \<open>The executable, the environment, files, and the two decoders of JSON, which fill in a value.\<close>

record livegrep_os =
  lo_Executable :: "string + string"
  lo_Getenv :: "string \<Rightarrow> string"
  lo_ReadFile :: "string \<Rightarrow> string + string"
  lo_decode_index :: "string \<Rightarrow> IndexConfig \<Rightarrow> string + IndexConfig"
  lo_decode_config :: "string \<Rightarrow> Config \<Rightarrow> string + Config"

definition runfilesPath :: "livegrep_os \<Rightarrow> string \<Rightarrow> string + string" where
  "runfilesPath os sourcePath =
     (case lo_Executable os of
        Inl err \<Rightarrow> Inl err
      | Inr programPath \<Rightarrow>
          Inr (path_Join [programPath @ ''.runfiles'', ''com_github_livegrep_livegrep'', sourcePath]))"

definition flag_config :: "livegrep_os \<Rightarrow> livegrep_flags \<Rightarrow> string \<Rightarrow> Config" where
  "flag_config os fl docRoot =
     \<lparr>cfg_DocRoot = docRoot, cfg_Feedback_MailTo = [], cfg_GoogleAnalyticsId = [],
      cfg_GoogleIAPConfig =
        \<lparr>iap_ProjectNumber = lo_Getenv os ''GOOGLE_IAP_PROJECT_NUMBER'',
         iap_BackendServiceID = lo_Getenv os ''GOOGLE_IAP_BACKEND_SERVICE_ID'',
         iap_ProjectID = lo_Getenv os ''GOOGLE_IAP_PROJECT_ID''\<rparr>,
      cfg_ReverseProxy = False,
      cfg_Backends = [Backend_config [] (lf_connect fl) 0
        (Some (Backend_config ''backup-idx'' (lf_connect_backup fl) 0 None))],
      cfg_Listen = lf_listen fl, cfg_HeaderHTML = [], cfg_FooterHTML = [], cfg_Sentry_URI = [],
      cfg_Reload = lf_reload fl,
      cfg_StatsD = \<lparr>sd_Address = lo_Getenv os ''STATSD_ADDRESS'', sd_Prefix = lo_Getenv os ''STATSD_PREFIX'',
        sd_Tags = split_on CHR '','' (lo_Getenv os ''STATSD_TAGS''),
        sd_TagsFormat = lo_Getenv os ''STATSD_TAGS_FORMAT''\<rparr>,
      cfg_DefaultMaxMatches = 50, cfg_IndexConfig = \<lparr>ic_Name = [], ic_Repositories = []\<rparr>,
      cfg_DefaultSearchRepos = [], cfg_LinkConfigs = [],
      cfg_ZoektRepoCache = lf_zoekt_repo_cache fl, cfg_FileviewerOnly = lf_fileviewer_only fl\<rparr>"

text \<open>\<^verbatim>\<open>flag.Arg(0)\<close> is empty where there is no argument.\<close>

definition flag_Arg0 :: "livegrep_flags \<Rightarrow> string" where
  "flag_Arg0 fl = (case lf_args fl of [] \<Rightarrow> [] | a # _ \<Rightarrow> a)"

definition read_index_config :: "livegrep_os \<Rightarrow> livegrep_flags \<Rightarrow> Config \<Rightarrow> string + Config" where
  "read_index_config os fl cfg =
     (if lf_index_config fl = [] then Inr cfg
      else case lo_ReadFile os (lf_index_config fl) of
          Inl err \<Rightarrow> Inl err
        | Inr data \<Rightarrow>
            (case lo_decode_index os data (cfg_IndexConfig cfg) of
               Inl err \<Rightarrow> Inl (''reading '' @ flag_Arg0 fl @ '': '' @ err)
             | Inr ic \<Rightarrow> Inr (cfg\<lparr>cfg_IndexConfig := ic\<rparr>)))"

definition read_config :: "livegrep_os \<Rightarrow> livegrep_flags \<Rightarrow> Config \<Rightarrow> string + Config" where
  "read_config os fl cfg =
     (case lf_args fl of
        [] \<Rightarrow> Inr cfg
      | a # _ \<Rightarrow>
          (case lo_ReadFile os a of
             Inl err \<Rightarrow> Inl err
           | Inr data \<Rightarrow>
               (case lo_decode_config os data cfg of
                  Inl err \<Rightarrow> Inl (''reading '' @ a @ '': '' @ err)
                | Inr cfg' \<Rightarrow> Inr cfg')))"

text \<open>The configuration \<^verbatim>\<open>main\<close> starts the server with, or the message it ends with.\<close>

definition livegrep_config :: "livegrep_os \<Rightarrow> livegrep_flags \<Rightarrow> string + Config" where
  "livegrep_config os fl =
     (case (if lf_docroot fl = [] then runfilesPath os ''web'' else Inr (lf_docroot fl)) of
        Inl err \<Rightarrow> Inl err
      | Inr docRoot \<Rightarrow>
          (case read_index_config os fl (flag_config os fl docRoot) of
             Inl err \<Rightarrow> Inl err
           | Inr cfg \<Rightarrow> read_config os fl cfg))"

text \<open>The handler that \<^verbatim>\<open>main\<close> registers: the check of tokens is the outermost.\<close>

definition livegrep_handler ::
    "(string \<Rightarrow> string \<Rightarrow> bool) \<Rightarrow> Config \<Rightarrow> ('s \<Rightarrow> request \<Rightarrow> 'c outcome \<times> 's) \<Rightarrow> 's \<Rightarrow> request
     \<Rightarrow> 'c outcome \<times> 's" where
  "livegrep_handler validate cfg handler s =
     (let unwrapped = (if cfg_ReverseProxy cfg then UnwrapProxyHeaders (handler s) s else handler s)
      in if ShouldEnableGoogleIAP (cfg_GoogleIAPConfig cfg)
         then iap_ServeHTTP validate (cfg_GoogleIAPConfig cfg) unwrapped s
         else unwrapped)"

text \<open>
  The mux that \<^verbatim>\<open>main\<close> registers the handler in is the default one of the process, in which
  the packages \<^verbatim>\<open>expvar\<close> and \<^verbatim>\<open>net/http/pprof\<close>, imported for nothing else, have put their own
  pages. A path is the cleaned one: the mux redirects any other to it.
\<close>

definition debug_path :: "string \<Rightarrow> bool" where
  "debug_path p \<longleftrightarrow> p = ''/debug/vars'' \<or> p = ''/debug/pprof'' \<or> HasPrefix p ''/debug/pprof/''"

definition DefaultServeMux ::
    "(request \<Rightarrow> 'c outcome) \<Rightarrow> ('s \<Rightarrow> request \<Rightarrow> 'c outcome \<times> 's) \<Rightarrow> 's \<Rightarrow> request \<Rightarrow> 'c outcome \<times> 's" where
  "DefaultServeMux debug handler s r =
     (if debug_path (rq_Path r) then (debug r, s) else handler s r)"

section \<open>What a server that has started holds\<close>

lemma load_repos_names: "mset (snd (load_repos rs)) = mset (map rc_Name rs)"
  by (simp add: load_repos_def)

text \<open>The parts of a successful start.\<close>

lemma New_parts:
  assumes "New su cfg = Inr s"
  shows "sv_config s = cfg \<and> \<not> sv_mu s \<and>
    sv_repos s = fst (load_repos (ic_Repositories (cfg_IndexConfig cfg))) \<and>
    (buildReposAndParents (sv_repos s)
      (su_sort su (snd (load_repos (ic_Repositories (cfg_IndexConfig cfg))))) :: (string, parents) res) = Inr (sv_newRepos s) \<and>
    fst (buildRepoRegex (su_sort su) (snd (load_repos (ic_Repositories (cfg_IndexConfig cfg))))) = Inr (sv_regex s) \<and>
    (if cfg_FileviewerOnly cfg then sv_bk s = [] \<and> sv_bkOrder s = []
     else open_backends (su_dial su) (cfg_Backends cfg) ([], []) = Inr (sv_bk s, sv_bkOrder s))"
proof -
  obtain repos names where repos: "load_repos (ic_Repositories (cfg_IndexConfig cfg)) = (repos, names)"
    by (meson surj_pair)
  obtain regex where regex: "buildRepoRegex (su_sort su) names = (regex, su_sort su names)"
    by (simp add: buildRepoRegex_def Let_def)
  obtain t where t: "loadTemplates su (empty_server\<lparr>sv_config := cfg\<rparr>) = Inr t" "sv_config t = cfg" "\<not> sv_mu t"
    using assms
    by (auto simp: New_def res_simps empty_server_def loadTemplates_def panic_of_def
        split: sum.splits option.splits)
  obtain bk order where bk: "(if cfg_FileviewerOnly cfg then Inr ([], [])
      else open_backends (su_dial su) (cfg_Backends cfg) ([], [])) = Inr (bk, order)"
    using assms unfolding New_def by (auto simp: res_simps)
  show ?thesis
    using assms t bk
    by (auto simp: New_def res_simps empty_server_def repos regex split: if_splits)
qed

text \<open>
  C9. Once the server runs, every page finds the same repository for the same parent and name,
  whichever of the two maps it looks in: the last one of the configuration with that full name.
\<close>

theorem New_repositories:
  assumes "New su cfg = Inr s" "\<forall>ns. mset (su_sort su ns) = mset ns" "CHR ''/'' \<notin> set p"
  shows "in_parents (sv_newRepos s) p r = map_of (sv_repos s) (p @ CHR ''/'' # r) \<and>
    map_of (sv_repos s) (p @ CHR ''/'' # r) =
      find (\<lambda>c. rc_Name c = p @ CHR ''/'' # r) (rev (ic_Repositories (cfg_IndexConfig cfg)))"
proof -
  let ?rs = "ic_Repositories (cfg_IndexConfig cfg)"
  have parts: "sv_repos s = fst (load_repos ?rs)"
      "(buildReposAndParents (fst (load_repos ?rs)) (su_sort su (snd (load_repos ?rs))) :: (string, parents) res) = Inr (sv_newRepos s)"
    using New_parts[OF assms(1)] by metis+
  have "mset (su_sort su (snd (load_repos ?rs))) = mset (snd (load_repos ?rs))" using assms(2) by blast
  from buildReposAndParents_agrees[OF parts(2) this assms(3), of r]
  show ?thesis unfolding parts(1) by metis
qed

text \<open>A start with templates and hashes in place.\<close>

definition some_start :: "unit startup" where
  "some_start = \<lparr>su_templates = Inr [''index.html''], su_opensearch = None, su_hashes = Inr [],
     su_dial = (\<lambda>_ _. Inr ()), su_statsd = (\<lambda>_. None), su_sort = (\<lambda>ns. ns)\<rparr>"

definition two_repos :: "RepoConfig list" where
  "two_repos = [zero_repo\<lparr>rc_Name := ''a/b'', rc_Path := ''/old''\<rparr>, zero_repo\<lparr>rc_Name := ''a/b/c''\<rparr>,
     zero_repo\<lparr>rc_Name := ''a/b'', rc_Path := ''/new''\<rparr>]"

definition viewer_config :: Config where
  "viewer_config = some_Config\<lparr>cfg_IndexConfig := \<lparr>ic_Name = [], ic_Repositories = two_repos\<rparr>,
     cfg_FileviewerOnly := True, cfg_StatsD := \<lparr>sd_Address = [], sd_Prefix = [], sd_Tags = [], sd_TagsFormat = []\<rparr>\<rparr>"

lemma load_hashes_start: "load_hashes some_start = Inr Map.empty"
  by (simp add: load_hashes_def some_start_def LoadAssetHashes_def scanned_lines_def)

lemma New_viewer: "\<exists>s. New some_start viewer_config = Inr s"
proof -
  have names: "map rc_Name two_repos = [''a/b'', ''a/b/c'', ''a/b'']" by (simp add: two_repos_def)
  have utf8: "list_all utf8_valid [''a/b'', ''a/b/c'', ''a/b'']" by (simp add: utf8_valid.simps)
  have "\<not> is_panic (buildReposAndParents (fst (load_repos two_repos)) [''a/b'', ''a/b/c'', ''a/b''] :: (string, parents) res)"
    unfolding buildReposAndParents_panics by simp
  moreover have "buildReposAndParents (fst (load_repos two_repos)) [''a/b'', ''a/b/c'', ''a/b''] \<noteq> Inl (Error e)" for e :: string
    unfolding buildReposAndParents_def by (rule parents_loop_no_error)
  ultimately obtain ps where
    "(buildReposAndParents (fst (load_repos two_repos)) [''a/b'', ''a/b/c'', ''a/b''] :: (string, parents) res) = Inr ps"
    by (metis failure.exhaust is_panic_simps(3) sumE)
  then show ?thesis
    using load_hashes_start names utf8
    by (simp add: New_def loadTemplates_def init_statsd_def viewer_config_def some_start_def
        buildRepoRegex_def load_repos_def Let_def)
qed

lemma New_repositories_witness:
  "\<exists>s. New some_start viewer_config = Inr s \<and>
    in_parents (sv_newRepos s) ''a'' ''b'' = Some (zero_repo\<lparr>rc_Name := ''a/b'', rc_Path := ''/new''\<rparr>)"
proof -
  obtain s where s: "New some_start viewer_config = Inr s" using New_viewer by blast
  have "\<forall>ns. mset (su_sort some_start ns) = mset ns" by (simp add: some_start_def)
  from New_repositories[OF s this, of "''a''" "''b''"]
  show ?thesis using s by (simp add: viewer_config_def two_repos_def zero_repo_def)
qed

section \<open>Starts that fail\<close>

text \<open>
  With everything it reads in place the server dies at the start exactly where StatsD is
  configured without tags or with a format other than the two it knows, or where a repository
  has a name without a slash.
\<close>

theorem New_panics:
  assumes "loadTemplates su (empty_server\<lparr>sv_config := cfg\<rparr>) = Inr t" "cfg_FileviewerOnly cfg"
    and "\<forall>sd. su_statsd su sd = None" "\<forall>ns. mset (su_sort su ns) = mset ns"
  shows "is_panic (New su cfg) \<longleftrightarrow>
    (sd_Address (cfg_StatsD cfg) \<noteq> [] \<and>
      (case sd_Tags (cfg_StatsD cfg) of
         [] \<Rightarrow> True
       | tag # _ \<Rightarrow> tag \<noteq> [] \<and> sd_TagsFormat (cfg_StatsD cfg) \<notin> {''datadog'', ''influxdb''})) \<or>
    list_ex (\<lambda>c. CHR ''/'' \<notin> set (rc_Name c)) (ic_Repositories (cfg_IndexConfig cfg))"
proof -
  let ?rs = "ic_Repositories (cfg_IndexConfig cfg)"
  obtain repos names where repos: "load_repos ?rs = (repos, names)" by (meson surj_pair)
  obtain regex where regex: "buildRepoRegex (su_sort su) names = (regex, su_sort su names)" "\<not> is_panic regex"
    by (simp add: buildRepoRegex_def Let_def)
  have names: "set (su_sort su names) = rc_Name ` set ?rs"
    using mset_eq_setD[of "su_sort su names" names] assms(4) repos by (auto simp: load_repos_def)
  have start: "loadTemplates su \<lparr>sv_config = cfg, sv_bk = [], sv_bkOrder = [], sv_repos = [],
      sv_newRepos = Map.empty, sv_regex = [], sv_Templates = [], sv_AssetHashes = Map.empty, sv_mu = False\<rparr> = Inr t"
    using assms(1) by (simp add: empty_server_def)
  have "is_panic (init_statsd su (cfg_StatsD cfg)) \<longleftrightarrow> sd_Address (cfg_StatsD cfg) \<noteq> [] \<and>
      (case sd_Tags (cfg_StatsD cfg) of
         [] \<Rightarrow> True
       | tag # _ \<Rightarrow> tag \<noteq> [] \<and> sd_TagsFormat (cfg_StatsD cfg) \<notin> {''datadog'', ''influxdb''})"
    using assms(3) by (auto simp: init_statsd_def panic_of_def go_index_def split: list.split)
  moreover have "init_statsd su (cfg_StatsD cfg) = Inr () \<or> is_panic (init_statsd su (cfg_StatsD cfg))"
    using assms(3) by (auto simp: init_statsd_def panic_of_def go_index_def)
  moreover have "is_panic (buildReposAndParents repos (su_sort su names) :: (string, parents) res) \<longleftrightarrow>
      list_ex (\<lambda>c. CHR ''/'' \<notin> set (rc_Name c)) ?rs"
    unfolding buildReposAndParents_panics by (auto simp: list_ex_iff names)
  ultimately show ?thesis
    using regex(2) assms(2)
    by (auto simp: New_def start repos regex(1) is_panic_bind)
qed

lemma New_panics_witness:
  "is_panic (New some_start (viewer_config\<lparr>cfg_StatsD := \<lparr>sd_Address = ''s'', sd_Prefix = [], sd_Tags = [], sd_TagsFormat = []\<rparr>\<rparr>)) \<and>
   is_panic (New some_start (viewer_config\<lparr>cfg_IndexConfig := \<lparr>ic_Name = [], ic_Repositories = [zero_repo]\<rparr>\<rparr>))"
proof -
  have start: "su_templates some_start = Inr [''index.html'']" "su_opensearch some_start = None"
    by (simp_all add: some_start_def)
  have t: "loadTemplates some_start (empty_server\<lparr>sv_config := cfg\<rparr>) =
      Inr ((empty_server\<lparr>sv_config := cfg\<rparr>)\<lparr>sv_Templates := [''index.html''], sv_AssetHashes := Map.empty\<rparr>)" for cfg
    using load_hashes_start start by (simp add: loadTemplates_def)
  have "\<forall>sd. su_statsd some_start sd = None" "\<forall>ns. mset (su_sort some_start ns) = mset ns"
    by (simp_all add: some_start_def)
  from New_panics[OF t _ this] show ?thesis by (simp add: viewer_config_def zero_repo_def)
qed

text \<open>
  A server started for files only has no backends, and does not refuse to search: a request
  for the status of its backend, and every well-formed search, follow a nil pointer.
\<close>

theorem fileviewer_only_panics:
  assumes "New su cfg = Inr s" "cfg_FileviewerOnly cfg" "param r '':backend'' = []"
    and "request_query (cfg_DefaultMaxMatches cfg) (map_of (rq_Query r)) = Inr q"
  shows "serve BkStatus wd s r = Crash NilDereference \<and> serve APISearch wd s r = Crash NilDereference"
proof -
  have bk: "sv_bk s = []" and cfg: "sv_config s = cfg" using New_parts[OF assms(1)] assms(2) by simp_all
  show ?thesis
    using assms(3,4) bk cfg
    by (simp add: serve_def ServeBackendStatus_def ServeAPISearch_reply_def ServeAPISearch_def
        getBackendFromQuery_def)
qed

lemma fileviewer_only_panics_witness:
  "\<exists>s. New some_start viewer_config = Inr s \<and>
    serve BkStatus some_world s (request_of [(''line'', ''x'')]) = Crash NilDereference"
proof -
  obtain s where s: "New some_start viewer_config = Inr s" using New_viewer by blast
  let ?r = "request_of [(''line'', ''x'')]"
  have "\<exists>q. request_query (cfg_DefaultMaxMatches viewer_config) (map_of (rq_Query ?r)) = Inr q"
    by (simp add: request_query_def request_of_def extractQuery_def is_regex_def set_pattern_def
        set_fold_case_def empty_Query_def)
  then obtain q where "request_query (cfg_DefaultMaxMatches viewer_config) (map_of (rq_Query ?r)) = Inr q" ..
  from fileviewer_only_panics[OF s _ _ this, of some_world]
  have "serve BkStatus some_world s ?r = Crash NilDereference"
    by (simp add: viewer_config_def request_of_def values_Get_def)
  then show ?thesis using s by blast
qed

section \<open>Reloading\<close>



section \<open>In front of the server\<close>

text \<open>
  Where the check of tokens is on, a request without a valid token for the configured
  project gets 401 and reaches nothing of the server, neither a handler nor the reload of the
  templates, \<^verbatim>\<open>/healthz\<close> excepted. But the pages of \<^verbatim>\<open>expvar\<close> and \<^verbatim>\<open>pprof\<close> are not behind the
  check: whoever asks for them gets them.
\<close>

theorem livegrep_handler_guarded:
  assumes "ShouldEnableGoogleIAP (cfg_GoogleIAPConfig cfg)" "rq_Path r \<noteq> ''/healthz''"
    and "\<not> validate (rq_JWT r) (audience (cfg_GoogleIAPConfig cfg))"
  shows "DefaultServeMux debug (livegrep_handler validate cfg handler) s r =
    (if debug_path (rq_Path r) then debug r
     else Answer (http_Error new_response [Text ''Unauthorized''] 401), s)"
  using assms by (simp add: DefaultServeMux_def livegrep_handler_def iap_ServeHTTP_def)

lemma livegrep_handler_guarded_witness:
  "let serve = DefaultServeMux (\<lambda>_. ServeHealthZ) (livegrep_handler (\<lambda>jwt aud. jwt = ''token for '' @ aud)
       (some_Config\<lparr>cfg_GoogleIAPConfig := \<lparr>iap_ProjectNumber = ''1'', iap_BackendServiceID = [], iap_ProjectID = ''p''\<rparr>\<rparr>)
       (\<lambda>s r. (ServeAbout s, s))) small_server
   in serve (request_of []) = (Answer (http_Error new_response [Text ''Unauthorized''] 401), small_server) \<and>
      serve ((request_of [])\<lparr>rq_Path := ''/debug/vars''\<rparr>) = (ServeHealthZ, small_server)"
  unfolding Let_def
  by (subst livegrep_handler_guarded; simp add: ShouldEnableGoogleIAP_def request_of_def debug_path_def
      audience_def HasPrefix_def)+

text \<open>
  Behind a proxy nothing is served over plain HTTP: whatever is asked, the browser is sent
  to the same address over HTTPS.
\<close>

theorem livegrep_handler_https:
  assumes "cfg_ReverseProxy cfg" "rq_ForwardedProto r = ''http''"
    and "ShouldEnableGoogleIAP (cfg_GoogleIAPConfig cfg) \<longrightarrow>
      validate (rq_JWT r) (audience (cfg_GoogleIAPConfig cfg))"
  shows "livegrep_handler validate cfg handler s r =
    (Answer (WriteHeader (set_header new_response ''Location'' (''https://'' @ rq_Host r @ rq_URL r)) 301), s)"
  using assms
  by (simp add: livegrep_handler_def iap_ServeHTTP_def UnwrapProxyHeaders_def Let_def)

lemma livegrep_handler_https_witness:
  "livegrep_handler (\<lambda>jwt aud. False) (some_Config\<lparr>cfg_ReverseProxy := True\<rparr>) (\<lambda>s r. (ServeAbout s, s))
     small_server ((request_of [])\<lparr>rq_ForwardedProto := ''http'', rq_URL := ''/search?q=x''\<rparr>) =
   (Answer (WriteHeader (set_header new_response ''Location'' ''https://h/search?q=x'') 301), small_server)"
  by (subst livegrep_handler_https) (simp_all add: request_of_def ShouldEnableGoogleIAP_def some_Config_def)

end
