(* ===== verification/GoChannels.thy ===== *)
theory GoChannels
  imports GoPrelude
begin

text \<open>
  Goroutines and channels. A program of several goroutines is a relation between states; one
  step is one communication or one piece of work that nothing else can observe. What every
  such program shares is stated once in a locale: an invariant holds in every state that can
  be reached, and a measure that every step takes down bounds every run.
\<close>

section \<open>One of several\<close>

text \<open>Replacing one element of a list in a sum over it.\<close>

lemma sum_list_map_update:
  assumes "i < length xs"
  shows "sum_list (map f (xs[i := x])) + f (xs ! i) = sum_list (map f xs) + (f x :: 'b :: comm_monoid_add)"
  using assms
proof (induction xs arbitrary: i)
  case (Cons y ys)
  show ?case
  proof (cases i)
    case (Suc k)
    then have "sum_list (map f (ys[k := x])) + f (ys ! k) = sum_list (map f ys) + f x"
      using Cons.IH[of k] Cons.prems by simp
    then show ?thesis using Suc by (simp add: add.assoc)
  qed (simp add: ac_simps)
qed simp

lemma set_update_other: "i < length xs \<Longrightarrow> x \<noteq> xs ! i \<Longrightarrow> x \<noteq> y \<Longrightarrow> x \<in> set (xs[i := y]) \<longleftrightarrow> x \<in> set xs"
  by (metis in_set_conv_nth length_list_update nth_list_update_eq nth_list_update_neq)

lemma set_update_keeps: "x \<in> set xs \<Longrightarrow> i < length xs \<Longrightarrow> x \<noteq> xs ! i \<Longrightarrow> x \<in> set (xs[i := y])"
  by (cases "x = y") (simp_all add: set_update_other set_update_memI)

section \<open>Steps, an invariant and a measure\<close>

locale step_system =
  fixes step :: "'s \<Rightarrow> 's \<Rightarrow> bool"
    and init :: 's
    and inv :: "'s \<Rightarrow> bool"
    and msr :: "'s \<Rightarrow> nat"
  assumes inv_init: "inv init"
    and inv_step: "inv s \<Longrightarrow> step s t \<Longrightarrow> inv t"
    and msr_step: "inv s \<Longrightarrow> step s t \<Longrightarrow> msr t < msr s"
begin

lemma reachable_inv: "step\<^sup>*\<^sup>* init s \<Longrightarrow> inv s"
  by (induction rule: rtranclp_induct) (simp_all add: inv_init inv_step)

text \<open>From every reachable state a state is reached in which nothing can happen any more.\<close>

lemma run_ends_from: "inv s \<Longrightarrow> \<exists>t. step\<^sup>*\<^sup>* s t \<and> (\<forall>u. \<not> step t u)"
proof (induction "msr s" arbitrary: s rule: less_induct)
  case less
  show ?case
  proof (cases "\<exists>t. step s t")
    case True
    then obtain t where t: "step s t" by blast
    then obtain u where "step\<^sup>*\<^sup>* t u" "\<forall>v. \<not> step u v"
      using less.hyps[of t] less.prems inv_step msr_step by blast
    then show ?thesis using t by (meson converse_rtranclp_into_rtranclp)
  next
    case False
    then show ?thesis by blast
  qed
qed

lemma run_ends: "step\<^sup>*\<^sup>* init s \<Longrightarrow> \<exists>t. step\<^sup>*\<^sup>* init t \<and> step\<^sup>*\<^sup>* s t \<and> (\<forall>u. \<not> step t u)"
  using run_ends_from[OF reachable_inv] by (meson rtranclp_trans)

text \<open>No run goes on for ever: a run of \<open>n\<close> steps has \<open>n\<close> at most the measure at its start.\<close>

lemma run_bounded: "inv s \<Longrightarrow> (step ^^ n) s t \<Longrightarrow> n + msr t \<le> msr s"
proof (induction n arbitrary: t)
  case (Suc n)
  then obtain u where u: "(step ^^ n) s u" "step u t" by auto
  then have "inv u" using Suc.prems(1) inv_step
    by (metis relpowp_imp_rtranclp rtranclp_induct)
  then show ?case using Suc.IH[OF Suc.prems(1) u(1)] msr_step[OF _ u(2)] by simp
qed simp

end

end
