(* ===== verification/GithubLoad.thy ===== *)
theory GithubLoad
  imports GoChannels
begin

text \<open>
  The goroutines of \<^verbatim>\<open>cmd/livegrep-github-reindex\<close>: \<^verbatim>\<open>callGitHubConcurrently\<close> asks GitHub for
  the pages of a list with a bounded number of calls at once, and \<^verbatim>\<open>loadRepos\<close> hands its jobs
  to a pool of workers. What GitHub answers is a parameter, \<open>answer\<close> for a page and \<open>outcome\<close>
  for a job.
\<close>

section \<open>Pages\<close>

datatype caller = Starting | Calling | Releasing | Gone

datatype ('e, 'r) reader = Reading | Read "'e + 'r list"

text \<open>
  Caller \<open>i\<close> asks for page \<open>i + 2\<close>. The semaphore is held by the callers that call or have not
  released it yet; the stream of answers has room for one of each caller.
\<close>

record ('e, 'r) pages =
  pg_callers :: "caller list"
  pg_stream :: "(nat \<times> ('e + 'r list)) list"
  pg_closed :: bool
  pg_matrix :: "'r list list"
  pg_main :: "('e, 'r) reader"

definition holds :: "caller \<Rightarrow> bool" where
  "holds c \<longleftrightarrow> c = Calling \<or> c = Releasing"

definition held :: "('e, 'r) pages \<Rightarrow> nat" where
  "held s = length (filter holds (pg_callers s))"

definition init_pages :: "nat \<Rightarrow> 'r list \<Rightarrow> ('e, 'r) pages" where
  "init_pages n firstResult =
     \<lparr>pg_callers = replicate n Starting, pg_stream = [], pg_closed = False,
      pg_matrix = firstResult # replicate n [], pg_main = Reading\<rparr>"

inductive pages_step ::
    "nat \<Rightarrow> (nat \<Rightarrow> 'e + 'r list) \<Rightarrow> ('e, 'r) pages \<Rightarrow> ('e, 'r) pages \<Rightarrow> bool"
  for limit answer where
    acquire: "i < length (pg_callers s) \<Longrightarrow> pg_callers s ! i = Starting \<Longrightarrow> held s < limit \<Longrightarrow>
      pages_step limit answer s (s\<lparr>pg_callers := (pg_callers s)[i := Calling]\<rparr>)"
  | respond: "i < length (pg_callers s) \<Longrightarrow> pg_callers s ! i = Calling \<Longrightarrow>
      length (pg_stream s) < length (pg_callers s) \<Longrightarrow>
      pages_step limit answer s (s\<lparr>pg_callers := (pg_callers s)[i := Releasing],
        pg_stream := pg_stream s @ [(i + 2, answer (i + 2))]\<rparr>)"
  | release: "i < length (pg_callers s) \<Longrightarrow> pg_callers s ! i = Releasing \<Longrightarrow>
      pages_step limit answer s (s\<lparr>pg_callers := (pg_callers s)[i := Gone]\<rparr>)"
  | close_stream: "set (pg_callers s) \<subseteq> {Gone} \<Longrightarrow> \<not> pg_closed s \<Longrightarrow>
      pages_step limit answer s (s\<lparr>pg_closed := True\<rparr>)"
  | receive: "pg_main s = Reading \<Longrightarrow> pg_stream s = (p, Inr repos) # rest \<Longrightarrow>
      pages_step limit answer s (s\<lparr>pg_stream := rest, pg_matrix := (pg_matrix s)[p - 1 := repos]\<rparr>)"
  | receive_error: "pg_main s = Reading \<Longrightarrow> pg_stream s = (p, Inl e) # rest \<Longrightarrow>
      pages_step limit answer s (s\<lparr>pg_stream := rest, pg_main := Read (Inl e)\<rparr>)"
  | all_read: "pg_main s = Reading \<Longrightarrow> pg_stream s = [] \<Longrightarrow> pg_closed s \<Longrightarrow>
      pages_step limit answer s (s\<lparr>pg_main := Read (Inr (concat (pg_matrix s)))\<rparr>)"

inductive_simps pages_step_iff: "pages_step limit answer s t"

abbreviation pages_reach ::
    "nat \<Rightarrow> (nat \<Rightarrow> 'e + 'r list) \<Rightarrow> nat \<Rightarrow> 'r list \<Rightarrow> ('e, 'r) pages \<Rightarrow> bool" where
  "pages_reach limit answer n firstResult \<equiv> (pages_step limit answer)\<^sup>*\<^sup>* (init_pages n firstResult)"

section \<open>The measure of the pages\<close>

definition caller_weight :: "caller \<Rightarrow> nat" where
  "caller_weight c = (case c of Starting \<Rightarrow> 4 | Calling \<Rightarrow> 3 | Releasing \<Rightarrow> 1 | Gone \<Rightarrow> 0)"

definition pages_measure :: "('e, 'r) pages \<Rightarrow> nat" where
  "pages_measure s = sum_list (map caller_weight (pg_callers s)) + length (pg_stream s) +
     (if pg_closed s then 0 else 1) + (if pg_main s = Reading then 1 else 0)"

lemma pages_measure_step: "pages_step limit answer s t \<Longrightarrow> pages_measure t < pages_measure s"
proof (induction rule: pages_step.induct)
  case (acquire i s)
  then show ?case using sum_list_map_update[of i "pg_callers s" caller_weight Calling]
    by (simp add: pages_measure_def caller_weight_def)
next
  case (respond i s)
  then show ?case using sum_list_map_update[of i "pg_callers s" caller_weight Releasing]
    by (simp add: pages_measure_def caller_weight_def)
next
  case (release i s)
  then show ?case using sum_list_map_update[of i "pg_callers s" caller_weight Gone]
    by (simp add: pages_measure_def caller_weight_def)
qed (simp_all add: pages_measure_def)

section \<open>The invariant of the pages\<close>

definition responded :: "caller \<Rightarrow> bool" where
  "responded c \<longleftrightarrow> c = Releasing \<or> c = Gone"

text \<open>Where an answer is: in the stream, in the matrix, or it is an error and main has returned.\<close>

definition pages_kept :: "(nat \<Rightarrow> 'e + 'r list) \<Rightarrow> ('e, 'r) pages \<Rightarrow> bool" where
  "pages_kept answer s \<longleftrightarrow>
     (\<forall>i < length (pg_callers s). responded (pg_callers s ! i) \<longrightarrow> pg_main s = Reading \<longrightarrow>
        (i + 2, answer (i + 2)) \<in> set (pg_stream s) \<or> answer (i + 2) = Inr (pg_matrix s ! (i + 1)))"

definition pages_shape ::
    "nat \<Rightarrow> (nat \<Rightarrow> 'e + 'r list) \<Rightarrow> nat \<Rightarrow> 'r list \<Rightarrow> ('e, 'r) pages \<Rightarrow> bool" where
  "pages_shape limit answer n firstResult s \<longleftrightarrow>
     length (pg_callers s) = n \<and> length (pg_matrix s) = n + 1 \<and> pg_matrix s ! 0 = firstResult \<and>
     held s \<le> limit \<and>
     length (pg_stream s) \<le> length (filter responded (pg_callers s)) \<and>
     (\<forall>(p, a)\<in>set (pg_stream s). a = answer p \<and> 2 \<le> p \<and> p \<le> n + 1) \<and>
     (pg_closed s \<longrightarrow> set (pg_callers s) \<subseteq> {Gone})"

definition pages_result :: "(nat \<Rightarrow> 'e + 'r list) \<Rightarrow> nat \<Rightarrow> 'r list \<Rightarrow> 'e + 'r list \<Rightarrow> bool" where
  "pages_result answer n firstResult x \<longleftrightarrow>
     (case x of
        Inl e \<Rightarrow> \<exists>p. 2 \<le> p \<and> p \<le> n + 1 \<and> answer p = Inl e
      | Inr repos \<Rightarrow> list_all (\<lambda>p. \<exists>rs. answer p = Inr rs) [2..<n + 2] \<and>
          repos = firstResult @ concat (map (\<lambda>p. case answer p of Inr rs \<Rightarrow> rs | Inl _ \<Rightarrow> []) [2..<n + 2]))"

definition pages_inv ::
    "nat \<Rightarrow> (nat \<Rightarrow> 'e + 'r list) \<Rightarrow> nat \<Rightarrow> 'r list \<Rightarrow> ('e, 'r) pages \<Rightarrow> bool" where
  "pages_inv limit answer n firstResult s \<longleftrightarrow>
     pages_shape limit answer n firstResult s \<and> pages_kept answer s \<and>
     (case pg_main s of Reading \<Rightarrow> True | Read x \<Rightarrow> pages_result answer n firstResult x)"

lemma length_filter_update:
  assumes "i < length xs"
  shows "length (filter P (xs[i := x])) + (if P (xs ! i) then 1 else 0) =
    length (filter P xs) + (if P x then 1 else 0)"
  using assms
proof (induction xs arbitrary: i)
  case (Cons y ys)
  then show ?case by (cases i) auto
qed simp

lemma pages_shape_init: "pages_shape limit answer n firstResult (init_pages n firstResult)"
  by (simp add: pages_shape_def init_pages_def held_def holds_def)

lemma pages_shape_step:
  "pages_step limit answer s t \<Longrightarrow> pages_shape limit answer n firstResult s \<Longrightarrow>
    pages_shape limit answer n firstResult t"
proof (induction rule: pages_step.induct)
  case (acquire i s)
  then show ?case
    using length_filter_update[of i "pg_callers s" holds Calling]
      length_filter_update[of i "pg_callers s" responded Calling] nth_mem[of i "pg_callers s"]
    by (auto simp: pages_shape_def held_def holds_def responded_def)
next
  case (respond i s)
  then show ?case
    using length_filter_update[of i "pg_callers s" holds Releasing]
      length_filter_update[of i "pg_callers s" responded Releasing] nth_mem[of i "pg_callers s"]
    by (auto simp: pages_shape_def held_def holds_def responded_def)
next
  case (release i s)
  then show ?case
    using length_filter_update[of i "pg_callers s" holds Gone]
      length_filter_update[of i "pg_callers s" responded Gone] nth_mem[of i "pg_callers s"]
    by (auto simp: pages_shape_def held_def holds_def responded_def)
next
  case (receive s p repos rest)
  then show ?case by (auto simp: pages_shape_def held_def)
qed (auto simp: pages_shape_def held_def)

lemma pages_kept_step:
  assumes "pages_step limit answer s t" "pages_shape limit answer n firstResult s" "pages_kept answer s"
  shows "pages_kept answer t"
  using assms
proof (induction rule: pages_step.induct)
  case (receive s p repos rest)
  have p: "answer p = Inr repos" "2 \<le> p" "p \<le> n + 1" and len: "length (pg_matrix s) = n + 1"
    using receive.hyps receive.prems(1) by (auto simp: pages_shape_def)
  show ?case unfolding pages_kept_def
  proof (intro allI impI)
    fix i assume i: "i < length (pg_callers (s\<lparr>pg_stream := rest, pg_matrix := (pg_matrix s)[p - 1 := repos]\<rparr>))"
      "responded (pg_callers (s\<lparr>pg_stream := rest, pg_matrix := (pg_matrix s)[p - 1 := repos]\<rparr>) ! i)"
    show "(i + 2, answer (i + 2)) \<in> set (pg_stream (s\<lparr>pg_stream := rest, pg_matrix := (pg_matrix s)[p - 1 := repos]\<rparr>)) \<or>
        answer (i + 2) = Inr (pg_matrix (s\<lparr>pg_stream := rest, pg_matrix := (pg_matrix s)[p - 1 := repos]\<rparr>) ! (i + 1))"
    proof (cases "i + 2 = p")
      case True
      then have "p - 1 = i + 1" by simp
      then show ?thesis using p len True by simp
    next
      case False
      then have "p - 1 \<noteq> i + 1" using p by simp
      then show ?thesis
        using receive.prems(2) receive.hyps i False unfolding pages_kept_def by auto
    qed
  qed
qed (auto simp: pages_kept_def responded_def nth_list_update split: if_splits)

lemma pages_complete:
  assumes "pages_shape limit answer n firstResult s" "pages_kept answer s"
    and "pg_main s = Reading" "pg_stream s = []" "pg_closed s"
  shows "pages_result answer n firstResult (Inr (concat (pg_matrix s)))"
proof -
  have here: "answer p = Inr (pg_matrix s ! (p - 1))" if "2 \<le> p" "p < n + 2" for p
  proof -
    have i: "p - 2 < length (pg_callers s)" using that assms(1) by (simp add: pages_shape_def)
    then have "pg_callers s ! (p - 2) = Gone" using assms(1,5) by (auto simp: pages_shape_def dest: nth_mem)
    then have "answer (p - 2 + 2) = Inr (pg_matrix s ! (p - 2 + 1))"
      using assms(2-4) i by (auto simp: pages_kept_def responded_def)
    moreover have "p - 2 + 2 = p" "p - 2 + 1 = p - 1" using that by simp_all
    ultimately show ?thesis by metis
  qed
  have "pg_matrix s = firstResult # map (\<lambda>p. pg_matrix s ! (p - 1)) [2..<n + 2]"
  proof (rule nth_equalityI)
    show "length (pg_matrix s) = length (firstResult # map (\<lambda>p. pg_matrix s ! (p - 1)) [2..<n + 2])"
      using assms(1) by (simp add: pages_shape_def del: upt_Suc)
    show "pg_matrix s ! i = (firstResult # map (\<lambda>p. pg_matrix s ! (p - 1)) [2..<n + 2]) ! i"
      if "i < length (pg_matrix s)" for i
      using that assms(1) by (cases i) (simp_all add: pages_shape_def del: upt_Suc)
  qed
  moreover have "map (\<lambda>p. pg_matrix s ! (p - 1)) [2..<n + 2] =
      map (\<lambda>p. case answer p of Inr rs \<Rightarrow> rs | Inl _ \<Rightarrow> []) [2..<n + 2]"
    by (rule map_cong) (simp_all add: here del: upt_Suc)
  ultimately have "concat (pg_matrix s) =
      firstResult @ concat (map (\<lambda>p. case answer p of Inr rs \<Rightarrow> rs | Inl _ \<Rightarrow> []) [2..<n + 2])"
    by (metis concat.simps(2))
  then show ?thesis using here by (simp add: pages_result_def list_all_iff del: upt_Suc)
qed

lemma pages_inv_step:
  assumes "pages_step limit answer s t" "pages_inv limit answer n firstResult s"
  shows "pages_inv limit answer n firstResult t"
proof -
  have shape: "pages_shape limit answer n firstResult t" and kept: "pages_kept answer t"
    using assms pages_shape_step pages_kept_step by (auto simp: pages_inv_def)
  have "case pg_main t of Reading \<Rightarrow> True | Read x \<Rightarrow> pages_result answer n firstResult x"
    using assms(1)
  proof cases
    case (receive_error p e rest)
    then have "answer p = Inl e" "2 \<le> p" "p \<le> n + 1"
      using assms(2) by (auto simp: pages_inv_def pages_shape_def)
    then show ?thesis using receive_error by (auto simp: pages_result_def)
  next
    case all_read
    then show ?thesis using pages_complete assms(2) by (auto simp: pages_inv_def)
  qed (use assms(2) in \<open>auto simp: pages_inv_def\<close>)
  then show ?thesis using shape kept by (simp add: pages_inv_def)
qed

interpretation pages: step_system "pages_step limit answer" "init_pages n firstResult"
    "pages_inv limit answer n firstResult" pages_measure for limit answer n firstResult
proof
  show "pages_inv limit answer n firstResult (init_pages n firstResult)"
    using pages_shape_init[of limit answer n firstResult]
    by (simp add: pages_inv_def pages_kept_def init_pages_def responded_def)
qed (use pages_inv_step pages_measure_step in blast)+

section \<open>What \<^verbatim>\<open>callGitHubConcurrently\<close> does\<close>

lemma pages_progress:
  assumes "pages_inv limit answer n firstResult s" "0 < limit" "\<forall>t. \<not> pages_step limit answer s t"
  shows "\<exists>x. pg_main s = Read x"
proof (cases "pg_main s")
  case Reading
  have shape: "pages_shape limit answer n firstResult s" using assms(1) by (simp add: pages_inv_def)
  have stuck: "\<not> pages_step limit answer s t" for t using assms(3) by blast
  have empty: "pg_stream s = []"
  proof (rule ccontr)
    assume "pg_stream s \<noteq> []"
    then obtain p a rest where st: "pg_stream s = (p, a) # rest" by (metis list.exhaust surj_pair)
    then show False
      using stuck pages_step.receive[OF Reading, of p _ rest limit answer]
        pages_step.receive_error[OF Reading, of p _ rest limit answer] by (cases a) blast+
  qed
  have quiet: "pg_callers s ! i = Starting \<or> pg_callers s ! i = Gone" if i: "i < length (pg_callers s)" for i
    using stuck pages_step.respond[OF i, of limit answer] pages_step.release[OF i, of limit answer] empty i
    by (cases "pg_callers s ! i") (auto, metis gr_zeroI length_0_conv not_less_zero)
  have free: "\<not> holds (pg_callers s ! i)" if "i < length (pg_callers s)" for i
    using quiet[OF that] by (auto simp: holds_def)
  have "held s = 0" using free by (auto simp: held_def filter_empty_conv in_set_conv_nth)
  then have "pg_callers s ! i = Gone" if "i < length (pg_callers s)" for i
    using quiet[OF that] stuck pages_step.acquire[OF that, of limit answer] assms(2) by auto
  then have gone: "set (pg_callers s) \<subseteq> {Gone}" by (auto simp: in_set_conv_nth)
  then have "pg_closed s" using stuck pages_step.close_stream[OF gone] by blast
  then show ?thesis using stuck pages_step.all_read[OF Reading empty] by blast
qed simp

lemma pages_return:
  assumes "0 < limit" "pages_reach limit answer n firstResult s"
  shows "held s \<le> limit \<and>
    (\<exists>t x. (pages_step limit answer)\<^sup>*\<^sup>* s t \<and> pg_main t = Read x \<and> pages_result answer n firstResult x) \<and>
    (\<forall>t. (pages_step limit answer)\<^sup>*\<^sup>* s t \<longrightarrow> (\<forall>u. \<not> pages_step limit answer t u) \<longrightarrow> (\<exists>x. pg_main t = Read x))"
proof -
  have inv: "pages_inv limit answer n firstResult t" if "(pages_step limit answer)\<^sup>*\<^sup>* s t" for t
    using pages.reachable_inv rtranclp_trans[OF assms(2) that] by blast
  obtain t where t: "(pages_step limit answer)\<^sup>*\<^sup>* s t" "\<forall>u. \<not> pages_step limit answer t u"
    using pages.run_ends[OF assms(2)] by blast
  obtain x where x: "pg_main t = Read x" using pages_progress[OF inv[OF t(1)] assms(1) t(2)] ..
  have "pages_result answer n firstResult x" using inv[OF t(1)] x by (simp add: pages_inv_def)
  moreover have "held s \<le> limit" using inv[of s] by (simp add: pages_inv_def pages_shape_def)
  moreover have "\<exists>x. pg_main u = Read x" if "(pages_step limit answer)\<^sup>*\<^sup>* s u" "\<forall>v. \<not> pages_step limit answer u v" for u
    using pages_progress[OF inv[OF that(1)] assms(1) that(2)] .
  ultimately show ?thesis using t(1) x by blast
qed

text \<open>
  C12. \<^verbatim>\<open>callGitHubConcurrently\<close>: with a limit of at least one it returns under every schedule,
  either the pages in their order after the first one, if all of them could be read, or the
  error of one of them; and at no moment more calls are under way than the limit allows.
\<close>

theorem callGitHubConcurrently_pages:
  assumes "0 < limit" "pages_reach limit answer n firstResult s"
  shows "held s \<le> limit \<and>
    (\<exists>t x. (pages_step limit answer)\<^sup>*\<^sup>* s t \<and> pg_main t = Read x \<and> pages_result answer n firstResult x) \<and>
    (\<forall>t. (pages_step limit answer)\<^sup>*\<^sup>* s t \<longrightarrow> (\<forall>u. \<not> pages_step limit answer t u) \<longrightarrow> (\<exists>x. pg_main t = Read x))"
  using assms by (rule pages_return)

text \<open>
  With a limit of zero, which the flag allows, nothing can ever happen: every caller waits
  for the semaphore, and \<^verbatim>\<open>callGitHubConcurrently\<close> for the callers.
\<close>

theorem callGitHubConcurrently_limit_zero:
  "0 < n \<longleftrightarrow> (\<nexists>s t. pages_reach 0 answer n firstResult s \<and> pages_step 0 answer s t)"
proof (cases n)
  case 0
  have "pages_step 0 answer (init_pages 0 firstResult) ((init_pages 0 firstResult)\<lparr>pg_closed := True\<rparr>)"
    by (rule pages_step.close_stream) (simp_all add: init_pages_def)
  then show ?thesis using 0 by blast
next
  case (Suc m)
  then have pos: "0 < n" by simp
  then have stuck: "\<not> pages_step 0 answer (init_pages n firstResult) t" for t
    by (auto simp: pages_step_iff init_pages_def held_def)
  have "s = init_pages n firstResult" if "pages_reach 0 answer n firstResult s" for s
    using that stuck by (metis converse_rtranclpE)
  then show ?thesis using stuck pos by blast
qed

lemma callGitHubConcurrently_pages_witness:
  "\<exists>t. pages_reach 1 (\<lambda>p. if p = 3 then Inl ''rate limit'' else Inr [''r'']) 2 [''q''] t \<and>
    pg_main t = Read (Inl ''rate limit'')"
proof -
  let ?answer = "\<lambda>p :: nat. if p = 3 then Inl ''rate limit'' else Inr [''r'']"
  obtain t x where t: "pages_reach 1 ?answer 2 [''q''] t" "pg_main t = Read x" "pages_result ?answer 2 [''q''] x"
    using callGitHubConcurrently_pages[of 1 ?answer 2 "[''q'']" "init_pages 2 [''q'']"] by auto
  have "x = Inl ''rate limit''"
    using t(3) by (cases x) (auto simp: pages_result_def upt_rec split: if_splits)
  then show ?thesis using t(1,2) by blast
qed

text \<open>Where every page can be read there is only one thing to return.\<close>

lemma pages_all_read:
  assumes "0 < limit" "\<forall>p. 2 \<le> p \<and> p \<le> n + 1 \<longrightarrow> answer p = Inr (page p)"
  shows "(\<exists>s. pages_reach limit answer n firstResult s \<and> pg_main s = Read x) \<longleftrightarrow>
    x = Inr (firstResult @ concat (map page [2..<n + 2]))"
proof -
  have pages: "map (\<lambda>p. case answer p of Inr rs \<Rightarrow> rs | Inl _ \<Rightarrow> []) [2..<n + 2] = map page [2..<n + 2]"
    by (rule map_cong) (use assms(2) in auto)
  have only: "y = Inr (firstResult @ concat (map page [2..<n + 2]))" if "pages_result answer n firstResult y" for y
    using that assms(2) unfolding pages_result_def pages by (cases y) force+
  have res: "pages_result answer n firstResult y"
    if "pages_reach limit answer n firstResult s" "pg_main s = Read y" for s y
    using pages.reachable_inv[OF that(1)] that(2) by (simp add: pages_inv_def)
  obtain t y where t: "pages_reach limit answer n firstResult t" "pg_main t = Read y"
    using pages_return[OF assms(1) rtranclp.rtrancl_refl] by blast
  show ?thesis using t only res by blast
qed

section \<open>Jobs\<close>

datatype ('j, 'e, 'r) runner = Waiting | Working 'j | Offering "'e + 'r list" | Left

datatype ('e, 'r) collector = Collecting "'r list" | Loaded "'e + 'r list"

text \<open>
  The state of \<^verbatim>\<open>loadRepos\<close>. The channels have no room: a job goes from the feeder to a runner
  that waits, and a result from a runner to the loop that collects.
\<close>

record ('j, 'e, 'r) load =
  ld_todo :: "'j list"
  ld_feeding :: bool
  ld_runners :: "('j, 'e, 'r) runner list"
  ld_done :: bool
  ld_closed :: bool
  ld_main :: "('e, 'r) collector"

definition init_load :: "nat \<Rightarrow> 'j list \<Rightarrow> ('j, 'e, 'r) load" where
  "init_load W jobs =
     \<lparr>ld_todo = jobs, ld_feeding = True, ld_runners = replicate W Waiting, ld_done = False,
      ld_closed = False, ld_main = Collecting []\<rparr>"

inductive load_step ::
    "('j \<Rightarrow> 'e + 'r list) \<Rightarrow> ('j, 'e, 'r) load \<Rightarrow> ('j, 'e, 'r) load \<Rightarrow> bool"
  for outcome where
    hand: "ld_feeding s \<Longrightarrow> ld_todo s = j # js \<Longrightarrow> i < length (ld_runners s) \<Longrightarrow>
      ld_runners s ! i = Waiting \<Longrightarrow>
      load_step outcome s (s\<lparr>ld_todo := js, ld_runners := (ld_runners s)[i := Working j]\<rparr>)"
  | feeder_stops: "ld_feeding s \<Longrightarrow> ld_done s \<Longrightarrow> ld_todo s \<noteq> [] \<Longrightarrow>
      load_step outcome s (s\<lparr>ld_feeding := False\<rparr>)"
  | feeder_ends: "ld_feeding s \<Longrightarrow> ld_todo s = [] \<Longrightarrow>
      load_step outcome s (s\<lparr>ld_feeding := False\<rparr>)"
  | work: "i < length (ld_runners s) \<Longrightarrow> ld_runners s ! i = Working j \<Longrightarrow>
      load_step outcome s (s\<lparr>ld_runners := (ld_runners s)[i := Offering (outcome j)]\<rparr>)"
  | deliver: "i < length (ld_runners s) \<Longrightarrow> ld_runners s ! i = Offering (Inr repos) \<Longrightarrow>
      ld_main s = Collecting out \<Longrightarrow>
      load_step outcome s (s\<lparr>ld_runners := (ld_runners s)[i := Waiting], ld_main := Collecting (out @ repos)\<rparr>)"
  | deliver_error: "i < length (ld_runners s) \<Longrightarrow> ld_runners s ! i = Offering (Inl e) \<Longrightarrow>
      ld_main s = Collecting out \<Longrightarrow>
      load_step outcome s (s\<lparr>ld_runners := (ld_runners s)[i := Waiting], ld_done := True, ld_main := Loaded (Inl e)\<rparr>)"
  | drop_result: "i < length (ld_runners s) \<Longrightarrow> ld_runners s ! i = Offering a \<Longrightarrow> ld_done s \<Longrightarrow>
      load_step outcome s (s\<lparr>ld_runners := (ld_runners s)[i := Left]\<rparr>)"
  | leave: "i < length (ld_runners s) \<Longrightarrow> ld_runners s ! i = Waiting \<Longrightarrow> \<not> ld_feeding s \<or> ld_done s \<Longrightarrow>
      load_step outcome s (s\<lparr>ld_runners := (ld_runners s)[i := Left]\<rparr>)"
  | close_results: "set (ld_runners s) \<subseteq> {Left} \<Longrightarrow> \<not> ld_closed s \<Longrightarrow>
      load_step outcome s (s\<lparr>ld_closed := True\<rparr>)"
  | all_collected: "ld_main s = Collecting out \<Longrightarrow> ld_closed s \<Longrightarrow>
      load_step outcome s (s\<lparr>ld_main := Loaded (Inr out)\<rparr>)"

inductive_simps load_step_iff: "load_step outcome s t"

abbreviation load_reach ::
    "nat \<Rightarrow> ('j \<Rightarrow> 'e + 'r list) \<Rightarrow> 'j list \<Rightarrow> ('j, 'e, 'r) load \<Rightarrow> bool" where
  "load_reach W outcome jobs \<equiv> (load_step outcome)\<^sup>*\<^sup>* (init_load W jobs)"

definition runner_weight :: "('j, 'e, 'r) runner \<Rightarrow> nat" where
  "runner_weight w = (case w of Waiting \<Rightarrow> 1 | Working j \<Rightarrow> 3 | Offering a \<Rightarrow> 2 | Left \<Rightarrow> 0)"

definition load_measure :: "('j, 'e, 'r) load \<Rightarrow> nat" where
  "load_measure s = 3 * length (ld_todo s) + sum_list (map runner_weight (ld_runners s)) +
     (if ld_feeding s then 1 else 0) + (if ld_closed s then 0 else 1) +
     (case ld_main s of Collecting out \<Rightarrow> 1 | Loaded x \<Rightarrow> 0)"

lemma load_measure_step: "load_step outcome s t \<Longrightarrow> load_measure t < load_measure s"
proof (induction rule: load_step.induct)
  case (hand s j js i)
  then show ?case using sum_list_map_update[of i "ld_runners s" runner_weight "Working j"]
    by (simp add: load_measure_def runner_weight_def)
next
  case (work i s j)
  then show ?case using sum_list_map_update[of i "ld_runners s" runner_weight "Offering (outcome j)"]
    by (simp add: load_measure_def runner_weight_def)
next
  case (deliver i s repos out)
  then show ?case using sum_list_map_update[of i "ld_runners s" runner_weight Waiting]
    by (simp add: load_measure_def runner_weight_def)
next
  case (deliver_error i s e out)
  then show ?case using sum_list_map_update[of i "ld_runners s" runner_weight Waiting]
    by (simp add: load_measure_def runner_weight_def)
next
  case (drop_result i s a)
  then show ?case using sum_list_map_update[of i "ld_runners s" runner_weight Left]
    by (simp add: load_measure_def runner_weight_def)
next
  case (leave i s)
  then show ?case using sum_list_map_update[of i "ld_runners s" runner_weight Left]
    by (simp add: load_measure_def runner_weight_def)
qed (simp_all add: load_measure_def)

section \<open>The invariant of the jobs\<close>

text \<open>What a job, or a runner, still has to give.\<close>

definition yield_of :: "'e + 'r list \<Rightarrow> 'r multiset" where
  "yield_of a = (case a of Inr repos \<Rightarrow> mset repos | Inl e \<Rightarrow> {#})"

definition runner_yield :: "('j \<Rightarrow> 'e + 'r list) \<Rightarrow> ('j, 'e, 'r) runner \<Rightarrow> 'r multiset" where
  "runner_yield outcome w =
     (case w of Working j \<Rightarrow> yield_of (outcome j) | Offering a \<Rightarrow> yield_of a | _ \<Rightarrow> {#})"

definition failing_in :: "('j \<Rightarrow> 'e + 'r list) \<Rightarrow> ('j, 'e, 'r) load \<Rightarrow> bool" where
  "failing_in outcome s \<longleftrightarrow>
     (\<exists>j\<in>set (ld_todo s). \<exists>e. outcome j = Inl e) \<or>
     (\<exists>j e. Working j \<in> set (ld_runners s) \<and> outcome j = Inl e) \<or>
     (\<exists>e. Offering (Inl e) \<in> set (ld_runners s))"

definition load_origin :: "('j \<Rightarrow> 'e + 'r list) \<Rightarrow> 'j list \<Rightarrow> ('j, 'e, 'r) load \<Rightarrow> bool" where
  "load_origin outcome jobs s \<longleftrightarrow>
     set (ld_todo s) \<subseteq> set jobs \<and> (\<forall>j. Working j \<in> set (ld_runners s) \<longrightarrow> j \<in> set jobs) \<and>
     (\<forall>a. Offering a \<in> set (ld_runners s) \<longrightarrow> (\<exists>j\<in>set jobs. outcome j = a))"

definition load_flags :: "nat \<Rightarrow> ('j, 'e, 'r) load \<Rightarrow> bool" where
  "load_flags W s \<longleftrightarrow>
     length (ld_runners s) = W \<and> (ld_done s \<longleftrightarrow> (\<exists>e. ld_main s = Loaded (Inl e))) \<and>
     (ld_feeding s \<and> \<not> ld_done s \<longrightarrow> Left \<notin> set (ld_runners s)) \<and>
     (\<not> ld_feeding s \<and> \<not> ld_done s \<longrightarrow> ld_todo s = []) \<and>
     (ld_closed s \<longrightarrow> set (ld_runners s) \<subseteq> {Left}) \<and>
     ((\<exists>out. ld_main s = Loaded (Inr out)) \<longrightarrow> ld_closed s)"

definition load_yields :: "('j \<Rightarrow> 'e + 'r list) \<Rightarrow> 'j list \<Rightarrow> ('j, 'e, 'r) load \<Rightarrow> bool" where
  "load_yields outcome jobs s \<longleftrightarrow>
     (case ld_main s of
        Loaded (Inl e) \<Rightarrow> \<exists>j\<in>set jobs. outcome j = Inl e
      | Collecting out \<Rightarrow>
          mset out + sum_list (map (runner_yield outcome) (ld_runners s)) +
            sum_list (map (yield_of \<circ> outcome) (ld_todo s)) = sum_list (map (yield_of \<circ> outcome) jobs) \<and>
          ((\<exists>j\<in>set jobs. \<exists>e. outcome j = Inl e) \<longrightarrow> failing_in outcome s)
      | Loaded (Inr out) \<Rightarrow>
          mset out = sum_list (map (yield_of \<circ> outcome) jobs) \<and> (\<forall>j\<in>set jobs. \<exists>rs. outcome j = Inr rs))"

definition load_inv :: "nat \<Rightarrow> ('j \<Rightarrow> 'e + 'r list) \<Rightarrow> 'j list \<Rightarrow> ('j, 'e, 'r) load \<Rightarrow> bool" where
  "load_inv W outcome jobs s \<longleftrightarrow> load_origin outcome jobs s \<and> load_flags W s \<and> load_yields outcome jobs s"

lemma load_origin_step:
  "load_step outcome s t \<Longrightarrow> load_origin outcome jobs s \<Longrightarrow> load_origin outcome jobs t"
  by (induction rule: load_step.induct)
    (auto simp: load_origin_def dest!: set_update_subset_insert[THEN subsetD],
     (metis nth_mem)+)

lemma load_flags_step:
  "load_step outcome s t \<Longrightarrow> load_flags W s \<Longrightarrow> load_flags W t"
  by (induction rule: load_step.induct)
    (auto simp: load_flags_def dest!: set_update_subset_insert[THEN subsetD] dest: nth_mem)

text \<open>A failing job that one runner hands over does not get lost.\<close>

lemma failing_in_runner:
  assumes "i < length (ld_runners s)" "ld_runners t = (ld_runners s)[i := w]" "ld_todo t = ld_todo s"
    and "\<And>e. ld_runners s ! i \<noteq> Offering (Inl e)"
    and "\<And>j e. ld_runners s ! i = Working j \<Longrightarrow> outcome j = Inl e \<Longrightarrow> w = Offering (Inl e)"
  shows "failing_in outcome s \<Longrightarrow> failing_in outcome t"
  using assms set_update_keeps[of _ "ld_runners s" i w] set_update_memI[of i "ld_runners s" w]
  unfolding failing_in_def by metis

lemma no_yields: "\<forall>x\<in>set xs. f x = {#} \<Longrightarrow> sum_list (map f xs) = {#}"
  by (induction xs) simp_all

lemma load_yields_step:
  assumes "load_step outcome s t" "load_origin outcome jobs s" "load_flags W s" "load_yields outcome jobs s"
    and "0 < W"
  shows "load_yields outcome jobs t"
  using assms(1)
proof cases
  case (hand j js i)
  have "w \<in> set (ld_runners t)" if "w \<in> set (ld_runners s)" "w \<noteq> Waiting" for w
    using hand that set_update_keeps[of w "ld_runners s" i "Working j"] by simp
  moreover have "Working j \<in> set (ld_runners t)" using hand by (simp add: set_update_memI)
  ultimately have "failing_in outcome s \<Longrightarrow> failing_in outcome t"
    unfolding failing_in_def using hand(1,3) by fastforce
  then show ?thesis
    using hand assms(4) sum_list_map_update[of i "ld_runners s" "runner_yield outcome" "Working j"]
    by (auto simp: load_yields_def runner_yield_def ac_simps split: collector.splits sum.splits)
next
  case (work i j)
  have "failing_in outcome s \<Longrightarrow> failing_in outcome t"
    by (rule failing_in_runner[of i s _ "Offering (outcome j)"]) (use work in auto)
  then show ?thesis
    using work assms(4) sum_list_map_update[of i "ld_runners s" "runner_yield outcome" "Offering (outcome j)"]
    by (auto simp: load_yields_def runner_yield_def ac_simps split: collector.splits sum.splits)
next
  case (deliver i repos out)
  have "failing_in outcome s \<Longrightarrow> failing_in outcome t"
    by (rule failing_in_runner[of i s _ Waiting]) (use deliver in auto)
  then show ?thesis
    using deliver assms(4) sum_list_map_update[of i "ld_runners s" "runner_yield outcome" Waiting]
    by (auto simp: load_yields_def runner_yield_def yield_of_def ac_simps)
next
  case (deliver_error i e out)
  then have "Offering (Inl e) \<in> set (ld_runners s)" by (metis nth_mem)
  then show ?thesis using deliver_error assms(2) by (auto simp: load_yields_def load_origin_def)
next
  case (drop_result i a)
  then show ?thesis using assms(3,4) by (auto simp: load_yields_def load_flags_def)
next
  case (leave i)
  have "failing_in outcome s \<Longrightarrow> failing_in outcome t"
    by (rule failing_in_runner[of i s _ Left]) (use leave in auto)
  then show ?thesis
    using leave assms(4) sum_list_map_update[of i "ld_runners s" "runner_yield outcome" Left]
    by (auto simp: load_yields_def runner_yield_def ac_simps split: collector.splits sum.splits)
next
  case (all_collected out)
  then have left: "set (ld_runners s) = {Left}" "ld_todo s = []"
    using assms(3,5) by (auto simp: load_flags_def subset_singleton_iff)
  then have none: "sum_list (map (runner_yield outcome) (ld_runners s)) = {#}"
    by (intro no_yields) (auto simp: runner_yield_def)
  have "\<not> failing_in outcome s" using left by (simp add: failing_in_def)
  then have "\<exists>rs. outcome j = Inr rs" if "j \<in> set jobs" for j
    using that all_collected(2) assms(4) by (cases "outcome j") (auto simp: load_yields_def)
  then show ?thesis using all_collected assms(4) left(2) none by (auto simp: load_yields_def)
qed (use assms(4) in \<open>auto simp: load_yields_def failing_in_def split: collector.splits sum.splits\<close>)

definition Workers :: nat where
  "Workers = 8"

interpretation load: step_system "load_step outcome" "init_load Workers jobs"
    "load_inv Workers outcome jobs" load_measure for outcome jobs
proof
  show "load_inv Workers outcome jobs (init_load Workers jobs)"
    by (auto simp: load_inv_def load_origin_def load_flags_def load_yields_def init_load_def
        runner_yield_def failing_in_def Workers_def numeral_eq_Suc)
  show "load_inv Workers outcome jobs t" if "load_inv Workers outcome jobs s" "load_step outcome s t" for s t
    using that load_origin_step load_flags_step load_yields_step[of outcome s t jobs Workers]
    by (fastforce simp: load_inv_def Workers_def)
  show "load_measure t < load_measure s" if "load_step outcome s t" for s t
    using that by (rule load_measure_step)
qed

text \<open>Where nothing can happen any more every goroutine has ended.\<close>

lemma load_progress:
  assumes "load_inv W outcome jobs s" "0 < W" "\<forall>t. \<not> load_step outcome s t"
  shows "(\<exists>x. ld_main s = Loaded x) \<and> \<not> ld_feeding s \<and> set (ld_runners s) \<subseteq> {Left}"
proof -
  have flags: "load_flags W s" using assms(1) by (simp add: load_inv_def)
  have stuck: "\<not> load_step outcome s t" for t using assms(3) by blast
  have finished: "ld_done s" if "ld_main s = Loaded (Inl e)" for e using that flags by (auto simp: load_flags_def)
  have runner: "ld_runners s ! i = Left \<or> (ld_runners s ! i = Waiting \<and> ld_feeding s \<and> \<not> ld_done s)"
    if i: "i < length (ld_runners s)" for i
  proof (cases "ld_runners s ! i")
    case (Offering a)
    have "\<exists>e. ld_main s = Loaded (Inl e)"
    proof (cases "ld_main s")
      case (Collecting out)
      then show ?thesis
        using stuck load_step.deliver[OF i, of _ out] load_step.deliver_error[OF i, of _ out] Offering
        by (cases a) blast+
    next
      case (Loaded x)
      then show ?thesis using flags i Offering by (cases x) (auto simp: load_flags_def dest: nth_mem)
    qed
    then show ?thesis using stuck load_step.drop_result[OF i Offering] finished by blast
  qed (use stuck load_step.work[OF i] load_step.leave[OF i] in blast)+
  have feeder: "\<not> ld_feeding s"
  proof
    assume feeding: "ld_feeding s"
    then obtain j js where todo: "ld_todo s = j # js"
      using stuck load_step.feeder_ends[of s outcome] by (cases "ld_todo s") auto
    then have "\<not> ld_done s" using stuck load_step.feeder_stops[OF feeding] by auto
    then have "Left \<notin> set (ld_runners s)" using feeding flags by (simp add: load_flags_def)
    moreover have len: "0 < length (ld_runners s)" using assms(2) flags by (simp add: load_flags_def)
    ultimately have "ld_runners s ! 0 = Waiting" using runner[OF len] nth_mem[OF len] by metis
    then show False using stuck load_step.hand[OF feeding todo len] by blast
  qed
  then have left: "set (ld_runners s) \<subseteq> {Left}" using runner by (auto simp: in_set_conv_nth)
  then have "ld_closed s" using stuck load_step.close_results by blast
  then have "\<exists>x. ld_main s = Loaded x"
    using stuck load_step.all_collected[of s _ outcome] by (cases "ld_main s") auto
  then show ?thesis using feeder left by blast
qed

text \<open>What \<^verbatim>\<open>loadRepos\<close> returns: the repositories of all jobs in some order, or the error of one job.\<close>

definition load_result :: "('j \<Rightarrow> 'e + 'r list) \<Rightarrow> 'j list \<Rightarrow> 'e + 'r list \<Rightarrow> bool" where
  "load_result outcome jobs x \<longleftrightarrow>
     (case x of
        Inl e \<Rightarrow> \<exists>j\<in>set jobs. outcome j = Inl e
      | Inr out \<Rightarrow> (\<forall>j\<in>set jobs. \<exists>rs. outcome j = Inr rs) \<and>
          mset out = sum_list (map (yield_of \<circ> outcome) jobs))"

lemma load_result_reached:
  assumes "load_reach Workers outcome jobs s" "ld_main s = Loaded x"
  shows "load_result outcome jobs x"
  using load.reachable_inv[OF assms(1)] assms(2)
  by (cases x) (auto simp: load_inv_def load_yields_def load_result_def)

lemma load_returns:
  assumes "load_reach Workers outcome jobs s"
  shows "(\<exists>t x. (load_step outcome)\<^sup>*\<^sup>* s t \<and> ld_main t = Loaded x) \<and>
    (\<forall>x. ld_main s = Loaded x \<longrightarrow> load_result outcome jobs x) \<and>
    ((\<forall>t. \<not> load_step outcome s t) \<longrightarrow>
      (\<exists>x. ld_main s = Loaded x) \<and> \<not> ld_feeding s \<and> set (ld_runners s) \<subseteq> {Left})"
proof -
  have pos: "0 < Workers" by (simp add: Workers_def)
  obtain t where t: "load_reach Workers outcome jobs t" "(load_step outcome)\<^sup>*\<^sup>* s t" "\<forall>u. \<not> load_step outcome t u"
    using load.run_ends[OF assms] by blast
  show ?thesis
    using load_progress[OF load.reachable_inv[OF t(1)] pos t(3)] t(2)
      load_progress[OF load.reachable_inv[OF assms] pos] load_result_reached[OF assms] by blast
qed

text \<open>In particular \<^verbatim>\<open>loadRepos\<close> does return.\<close>

lemma loadRepos_loaded: "\<exists>s x. load_reach Workers outcome jobs s \<and> ld_main s = Loaded x"
  using load_returns[OF rtranclp.rtrancl_refl, of outcome jobs] by blast

text \<open>
  C13. \<^verbatim>\<open>loadRepos\<close> returns under every schedule, with every repository of every job, or, where
  some jobs fail, the error of one of them; and when it has returned its feeder and all its
  workers end too.
\<close>

theorem loadRepos_returns:
  assumes "load_reach Workers outcome jobs s"
  shows "(\<exists>t x. (load_step outcome)\<^sup>*\<^sup>* s t \<and> ld_main t = Loaded x) \<and>
    (\<forall>x. ld_main s = Loaded x \<longrightarrow> load_result outcome jobs x) \<and>
    ((\<forall>t. \<not> load_step outcome s t) \<longrightarrow>
      (\<exists>x. ld_main s = Loaded x) \<and> \<not> ld_feeding s \<and> set (ld_runners s) \<subseteq> {Left})"
  using assms by (rule load_returns)

lemma loadRepos_returns_witness:
  "\<exists>t. load_reach Workers (\<lambda>j. if j = ''o'' then Inl ''no such org'' else Inr [j @ ''/r'']) [''a'', ''o''] t \<and>
    ld_main t = Loaded (Inl ''no such org'')"
proof -
  let ?outcome = "\<lambda>j :: string. if j = ''o'' then Inl ''no such org'' else Inr [j @ ''/r'']"
  obtain t x where t: "load_reach Workers ?outcome [''a'', ''o''] t" "ld_main t = Loaded x"
    using loadRepos_returns[OF rtranclp.rtrancl_refl, of ?outcome "[''a'', ''o'']"] by blast
  have "load_result ?outcome [''a'', ''o''] x" using loadRepos_returns[OF t(1)] t(2) by blast
  then have "x = Inl ''no such org''" by (cases x) (auto simp: load_result_def split: if_splits)
  then show ?thesis using t by blast
qed

end
