(* ===== verification/GoFlags.thy ===== *)
theory GoFlags
  imports GoStrings
begin

text \<open>
  Go's package \<^verbatim>\<open>flag\<close>, as far as the commands use it: a command line is read from the left, a
  flag is set each time it is given, and the first word that is no flag ends the flags.
\<close>

datatype flag_kind = BoolFlag | ValueFlag

type_synonym flag_set = "string \<rightharpoonup> flag_kind"

text \<open>\<^verbatim>\<open>strconv.ParseBool\<close>.\<close>

definition parse_bool :: "string \<Rightarrow> bool option" where
  "parse_bool s =
     (if s \<in> set [''1'', ''t'', ''T'', ''TRUE'', ''true'', ''True''] then Some True
      else if s \<in> set [''0'', ''f'', ''F'', ''FALSE'', ''false'', ''False''] then Some False
      else None)"

definition is_flag :: "string \<Rightarrow> bool" where
  "is_flag s \<longleftrightarrow> 2 \<le> length s \<and> hd s = CHR ''-''"

text \<open>What stands behind one or two dashes.\<close>

definition flag_text :: "string \<Rightarrow> string" where
  "flag_text s = (if HasPrefix s ''--'' then drop 2 s else drop 1 s)"

definition bad_syntax :: "string \<Rightarrow> bool" where
  "bad_syntax name \<longleftrightarrow> name = [] \<or> hd name = CHR ''-'' \<or> hd name = CHR ''=''"

text \<open>The value behind an equality sign, which cannot be the first character.\<close>

definition name_value :: "string \<Rightarrow> string \<times> string option" where
  "name_value name =
     (case name of
        [] \<Rightarrow> ([], None)
      | c # t \<Rightarrow> (case Cut CHR ''='' t of None \<Rightarrow> (name, None) | Some (a, b) \<Rightarrow> (c # a, Some b)))"

datatype flag_error =
    BadSyntax string
  | Undefined string
  | Needs string
  | Invalid string string

text \<open>
  The settings, in their order, and the words that are left. \<open>valid\<close> is the check that the
  \<^verbatim>\<open>Set\<close> method of a flag makes. Every error ends the program.
\<close>

fun parse_flags ::
    "flag_set \<Rightarrow> (string \<Rightarrow> string \<Rightarrow> bool) \<Rightarrow> string list
     \<Rightarrow> flag_error + ((string \<times> string) list \<times> string list)"
and set_flag ::
    "flag_set \<Rightarrow> (string \<Rightarrow> string \<Rightarrow> bool) \<Rightarrow> string \<Rightarrow> string \<Rightarrow> bool \<Rightarrow> string list
     \<Rightarrow> flag_error + ((string \<times> string) list \<times> string list)" where
  "parse_flags kinds valid [] = Inr ([], [])"
| "parse_flags kinds valid (s # args) =
     (if \<not> is_flag s then Inr ([], s # args)
      else if s = ''--'' then Inr ([], args)
      else if bad_syntax (flag_text s) then Inl (BadSyntax s)
      else (case name_value (flag_text s) of (name, value) \<Rightarrow>
        (case kinds name of
           None \<Rightarrow> Inl (Undefined name)
         | Some BoolFlag \<Rightarrow>
             set_flag kinds valid name (case value of None \<Rightarrow> ''true'' | Some v \<Rightarrow> v)
               (case value of None \<Rightarrow> True | Some v \<Rightarrow> parse_bool v \<noteq> None) args
         | Some ValueFlag \<Rightarrow>
             (case value of
                Some v \<Rightarrow> set_flag kinds valid name v (valid name v) args
              | None \<Rightarrow> (case args of
                   [] \<Rightarrow> Inl (Needs name)
                 | v # rest \<Rightarrow> set_flag kinds valid name v (valid name v) rest)))))"
| "set_flag kinds valid name v ok args =
     (if \<not> ok then Inl (Invalid name v)
      else case parse_flags kinds valid args of
          Inl e \<Rightarrow> Inl e
        | Inr (settings, rest) \<Rightarrow> Inr ((name, v) # settings, rest))"

text \<open>The value of a flag after parsing: that of its last setting.\<close>

definition flag_value :: "(string \<times> string) list \<Rightarrow> string \<Rightarrow> string \<Rightarrow> string" where
  "flag_value settings name dflt =
     (case map_of (rev settings) name of None \<Rightarrow> dflt | Some v \<Rightarrow> v)"

definition flag_bool :: "(string \<times> string) list \<Rightarrow> string \<Rightarrow> bool \<Rightarrow> bool" where
  "flag_bool settings name dflt =
     (case map_of (rev settings) name of None \<Rightarrow> dflt | Some v \<Rightarrow> parse_bool v = Some True)"

definition plain_name :: "string \<Rightarrow> bool" where
  "plain_name name \<longleftrightarrow> name \<noteq> [] \<and> hd name \<noteq> CHR ''-'' \<and> CHR ''='' \<notin> set name"

lemma written_flag:
  assumes "plain_name name"
  shows "is_flag (''--'' @ name)" "''--'' @ name \<noteq> ''--''" "flag_text (''--'' @ name) = name"
    "\<not> bad_syntax name" "name_value name = (name, None)"
proof -
  obtain c t where name: "name = c # t" using assms by (auto simp: plain_name_def neq_Nil_conv)
  have "Cut CHR ''='' t = None" if "CHR ''='' \<notin> set t" for t using that by (induction t) auto
  then show "is_flag (''--'' @ name)" "''--'' @ name \<noteq> ''--''" "flag_text (''--'' @ name) = name"
    "\<not> bad_syntax name" "name_value name = (name, None)"
    using assms
    by (auto simp: name plain_name_def is_flag_def flag_text_def HasPrefix_def bad_syntax_def name_value_def)
qed

text \<open>A flag that is written with two dashes and its value as the next word is read back.\<close>

lemma parse_value_flag:
  assumes "plain_name name" "kinds name = Some ValueFlag" "valid name v"
  shows "parse_flags kinds valid ((''--'' @ name) # v # args) =
    (case parse_flags kinds valid args of Inl e \<Rightarrow> Inl e | Inr (settings, rest) \<Rightarrow> Inr ((name, v) # settings, rest))"
  using written_flag[OF assms(1)] assms(2,3) by simp

lemma parse_bool_flag:
  assumes "plain_name name" "kinds name = Some BoolFlag"
  shows "parse_flags kinds valid ((''--'' @ name) # args) =
    (case parse_flags kinds valid args of Inl e \<Rightarrow> Inl e | Inr (settings, rest) \<Rightarrow> Inr ((name, ''true'') # settings, rest))"
  using written_flag[OF assms(1)] assms(2) by (simp split: sum.split prod.split)

lemma parse_flags_end: "\<not> is_flag s \<Longrightarrow> parse_flags kinds valid (s # args) = Inr ([], s # args)"
  by simp

end
