(* ===== verification/CheckoutPool.thy ===== *)
theory CheckoutPool
  imports GoChannels
begin

text \<open>
  The pool of \<^verbatim>\<open>cmd/livegrep-fetch-reindex\<close>: \<^verbatim>\<open>checkoutRepos\<close> hands the repositories to
  its workers over an unbuffered channel, each \<^verbatim>\<open>checkoutWorker\<close> reports its errors over a
  channel with room for as many as there are workers, and the first error that is noticed stops
  the rest. What becomes of a repository is a parameter, \<open>outcome\<close>: an error or none.
\<close>

section \<open>States and steps\<close>

datatype ('r, 'e) worker = Idle | Busy 'r | Sending 'e | Exited

datatype 'e main = Feeding | Closing | Waiting | Returned "'e option"

record ('r, 'e) pool =
  pl_todo :: "'r list"
  pl_workers :: "('r, 'e) worker list"
  pl_errc :: "'e list"
  pl_stop :: bool
  pl_closed :: bool
  pl_main :: "'e main"
  pl_err :: "'e option"

definition init_pool :: "nat \<Rightarrow> 'r list \<Rightarrow> ('r, 'e) pool" where
  "init_pool W repos =
     \<lparr>pl_todo = repos, pl_workers = replicate W Idle, pl_errc = [], pl_stop = False,
      pl_closed = False, pl_main = Feeding, pl_err = None\<rparr>"

text \<open>
  \<open>hand\<close> and \<open>notice\<close> are the two cases of the select of the feeding loop: where both are
  ready Go takes either. The last select of \<^verbatim>\<open>checkoutRepos\<close> takes an error if there is one.
  A worker that is idle leaves when the channel of repositories is closed, or when \<open>stop\<close> is.
\<close>

definition pool_result :: "('r, 'e) pool \<Rightarrow> 'e option" where
  "pool_result s = (case pl_errc s of [] \<Rightarrow> pl_err s | e # es \<Rightarrow> Some e)"

lemma pool_result_main [simp]: "pool_result (s\<lparr>pl_main := m\<rparr>) = pool_result s"
  by (cases "pl_errc s") (simp_all add: pool_result_def)

inductive pool_step ::
    "nat \<Rightarrow> ('r \<Rightarrow> 'e option) \<Rightarrow> ('r, 'e) pool \<Rightarrow> ('r, 'e) pool \<Rightarrow> bool"
  for W outcome where
    hand: "pl_main s = Feeding \<Longrightarrow> pl_todo s = r # rs \<Longrightarrow> i < length (pl_workers s) \<Longrightarrow>
      pl_workers s ! i = Idle \<Longrightarrow>
      pool_step W outcome s (s\<lparr>pl_todo := rs, pl_workers := (pl_workers s)[i := Busy r]\<rparr>)"
  | notice: "pl_main s = Feeding \<Longrightarrow> pl_todo s \<noteq> [] \<Longrightarrow> pl_errc s = e # es \<Longrightarrow>
      pool_step W outcome s (s\<lparr>pl_errc := es, pl_err := Some e, pl_stop := True, pl_main := Closing\<rparr>)"
  | feed_done: "pl_main s = Feeding \<Longrightarrow> pl_todo s = [] \<Longrightarrow>
      pool_step W outcome s (s\<lparr>pl_main := Closing\<rparr>)"
  | close: "pl_main s = Closing \<Longrightarrow>
      pool_step W outcome s (s\<lparr>pl_main := Waiting, pl_closed := True\<rparr>)"
  | succeed: "i < length (pl_workers s) \<Longrightarrow> pl_workers s ! i = Busy r \<Longrightarrow> outcome r = None \<Longrightarrow>
      pool_step W outcome s (s\<lparr>pl_workers := (pl_workers s)[i := Idle]\<rparr>)"
  | fail: "i < length (pl_workers s) \<Longrightarrow> pl_workers s ! i = Busy r \<Longrightarrow> outcome r = Some e \<Longrightarrow>
      pool_step W outcome s (s\<lparr>pl_workers := (pl_workers s)[i := Sending e]\<rparr>)"
  | send: "i < length (pl_workers s) \<Longrightarrow> pl_workers s ! i = Sending e \<Longrightarrow> length (pl_errc s) < W \<Longrightarrow>
      pool_step W outcome s (s\<lparr>pl_workers := (pl_workers s)[i := Idle], pl_errc := pl_errc s @ [e]\<rparr>)"
  | leave: "i < length (pl_workers s) \<Longrightarrow> pl_workers s ! i = Idle \<Longrightarrow> pl_closed s \<or> pl_stop s \<Longrightarrow>
      pool_step W outcome s (s\<lparr>pl_workers := (pl_workers s)[i := Exited]\<rparr>)"
  | finish: "pl_main s = Waiting \<Longrightarrow> set (pl_workers s) \<subseteq> {Exited} \<Longrightarrow>
      pool_step W outcome s (s\<lparr>pl_main := Returned (pool_result s)\<rparr>)"

inductive_simps pool_step_iff: "pool_step W outcome s t"

abbreviation pool_reach :: "nat \<Rightarrow> ('r \<Rightarrow> 'e option) \<Rightarrow> 'r list \<Rightarrow> ('r, 'e) pool \<Rightarrow> bool" where
  "pool_reach W outcome repos \<equiv> (pool_step W outcome)\<^sup>*\<^sup>* (init_pool W repos)"

section \<open>The measure\<close>

definition worker_weight :: "('r, 'e) worker \<Rightarrow> nat" where
  "worker_weight w = (case w of Idle \<Rightarrow> 1 | Busy r \<Rightarrow> 3 | Sending e \<Rightarrow> 2 | Exited \<Rightarrow> 0)"

definition main_weight :: "'e main \<Rightarrow> nat" where
  "main_weight m = (case m of Feeding \<Rightarrow> 3 | Closing \<Rightarrow> 2 | Waiting \<Rightarrow> 1 | Returned e \<Rightarrow> 0)"

definition pool_measure :: "('r, 'e) pool \<Rightarrow> nat" where
  "pool_measure s =
     3 * length (pl_todo s) + sum_list (map worker_weight (pl_workers s)) + main_weight (pl_main s)"

lemma pool_measure_step: "pool_step W outcome s t \<Longrightarrow> pool_measure t < pool_measure s"
proof (induction rule: pool_step.induct)
  case (hand s r rs i)
  then show ?case using sum_list_map_update[of i "pl_workers s" worker_weight "Busy r"]
    by (simp add: pool_measure_def worker_weight_def)
next
  case (succeed i s r)
  then show ?case using sum_list_map_update[of i "pl_workers s" worker_weight Idle]
    by (simp add: pool_measure_def worker_weight_def)
next
  case (fail i s r e)
  then show ?case using sum_list_map_update[of i "pl_workers s" worker_weight "Sending e"]
    by (simp add: pool_measure_def worker_weight_def)
next
  case (send i s e)
  then show ?case using sum_list_map_update[of i "pl_workers s" worker_weight Idle]
    by (simp add: pool_measure_def worker_weight_def)
next
  case (leave i s)
  then show ?case using sum_list_map_update[of i "pl_workers s" worker_weight Exited]
    by (simp add: pool_measure_def worker_weight_def)
qed (simp_all add: pool_measure_def main_weight_def)

section \<open>The invariant\<close>

definition failing :: "('r \<Rightarrow> 'e option) \<Rightarrow> 'r list \<Rightarrow> nat" where
  "failing outcome rs = length (filter (\<lambda>r. outcome r \<noteq> None) rs)"

text \<open>The failures that a worker still carries.\<close>

definition carried :: "('r \<Rightarrow> 'e option) \<Rightarrow> ('r, 'e) worker \<Rightarrow> nat" where
  "carried outcome w =
     (case w of Busy r \<Rightarrow> (if outcome r = None then 0 else 1) | Sending e \<Rightarrow> 1 | _ \<Rightarrow> 0)"

text \<open>Whether an error is under way: in a worker, in the channel, or noticed.\<close>

definition under_way :: "('r, 'e) pool \<Rightarrow> 'e \<Rightarrow> bool" where
  "under_way s e \<longleftrightarrow> Sending e \<in> set (pl_workers s) \<or> e \<in> set (pl_errc s) \<or> pl_err s = Some e"

text \<open>Everything in the pool comes from the repositories.\<close>

definition inv_origin :: "('r \<Rightarrow> 'e option) \<Rightarrow> 'r list \<Rightarrow> ('r, 'e) pool \<Rightarrow> bool" where
  "inv_origin outcome repos s \<longleftrightarrow>
     set (pl_todo s) \<subseteq> set repos \<and> (\<forall>r. Busy r \<in> set (pl_workers s) \<longrightarrow> r \<in> set repos) \<and>
     (\<forall>e. under_way s e \<longrightarrow> (\<exists>r\<in>set repos. outcome r = Some e))"

text \<open>As long as no error is noticed none of them is forgotten.\<close>

definition kept_in :: "('r \<Rightarrow> 'e option) \<Rightarrow> ('r, 'e) pool \<Rightarrow> 'r \<Rightarrow> bool" where
  "kept_in outcome s r \<longleftrightarrow>
     r \<in> set (pl_todo s) \<or> Busy r \<in> set (pl_workers s) \<or> (\<exists>e. outcome r = Some e \<and> under_way s e)"

definition inv_kept :: "('r \<Rightarrow> 'e option) \<Rightarrow> 'r list \<Rightarrow> ('r, 'e) pool \<Rightarrow> bool" where
  "inv_kept outcome repos s \<longleftrightarrow>
     pl_err s = None \<longrightarrow> (\<forall>r\<in>set repos. outcome r \<noteq> None \<longrightarrow> kept_in outcome s r)"

definition inv_main :: "nat \<Rightarrow> ('r, 'e) pool \<Rightarrow> bool" where
  "inv_main W s \<longleftrightarrow>
     length (pl_workers s) = W \<and>
     (pl_main s = Feeding \<longrightarrow>
        pl_err s = None \<and> \<not> pl_closed s \<and> \<not> pl_stop s \<and> Exited \<notin> set (pl_workers s)) \<and>
     (pl_main s \<noteq> Feeding \<longrightarrow> pl_err s = None \<longrightarrow> pl_todo s = []) \<and>
     (pl_main s = Waiting \<longrightarrow> pl_closed s) \<and>
     (\<forall>x. pl_main s = Returned x \<longrightarrow> set (pl_workers s) \<subseteq> {Exited} \<and> x = pool_result s)"

definition inv_count :: "('r \<Rightarrow> 'e option) \<Rightarrow> 'r list \<Rightarrow> ('r, 'e) pool \<Rightarrow> bool" where
  "inv_count outcome repos s \<longleftrightarrow>
     length (pl_errc s) + sum_list (map (carried outcome) (pl_workers s)) + failing outcome (pl_todo s)
       \<le> failing outcome repos"

lemma inv_origin_step: "pool_step W outcome s t \<Longrightarrow> inv_origin outcome repos s \<Longrightarrow> inv_origin outcome repos t"
proof (induction rule: pool_step.induct)
  case (fail i s r e)
  have "Busy r \<in> set (pl_workers s)" using fail by (metis nth_mem)
  then have "r \<in> set repos" using fail by (simp add: inv_origin_def)
  then show ?case
    using fail by (auto simp: inv_origin_def under_way_def dest!: set_update_subset_insert[THEN subsetD])
next
  case (send i s e)
  have "Sending e \<in> set (pl_workers s)" using send by (metis nth_mem)
  then show ?case
    using send by (auto simp: inv_origin_def under_way_def dest!: set_update_subset_insert[THEN subsetD])
qed (auto simp: inv_origin_def under_way_def dest!: set_update_subset_insert[THEN subsetD])

lemma kept_in_step:
  assumes "pool_step W outcome s t" "kept_in outcome s x" "outcome x \<noteq> None" "pl_err t = None"
  shows "kept_in outcome t x"
  using assms
proof (induction rule: pool_step.induct)
  case (hand s r rs i)
  have "Busy r \<in> set ((pl_workers s)[i := Busy r])" using hand by (simp add: set_update_memI)
  moreover have "w \<in> set ((pl_workers s)[i := Busy r])" if "w \<in> set (pl_workers s)" "w \<noteq> Idle" for w
    using set_update_keeps[OF that(1), of i] hand that by simp
  ultimately show ?case using hand by (auto simp: kept_in_def under_way_def)
next
  case (succeed i s r)
  have "w \<in> set ((pl_workers s)[i := Idle])" if "w \<in> set (pl_workers s)" "w \<noteq> Busy r" for w
    using set_update_keeps[OF that(1), of i] succeed that by simp
  then show ?case using succeed by (cases "x = r") (auto simp: kept_in_def under_way_def)
next
  case (fail i s r e)
  have "Sending e \<in> set ((pl_workers s)[i := Sending e])" using fail by (simp add: set_update_memI)
  moreover have "w \<in> set ((pl_workers s)[i := Sending e])" if "w \<in> set (pl_workers s)" "w \<noteq> Busy r" for w
    using set_update_keeps[OF that(1), of i] fail that by simp
  ultimately show ?case using fail by (cases "x = r") (auto simp: kept_in_def under_way_def)
next
  case (send i s e)
  have "w \<in> set ((pl_workers s)[i := Idle])" if "w \<in> set (pl_workers s)" "w \<noteq> Sending e" for w
    using set_update_keeps[OF that(1), of i] that send by simp
  then show ?case using send by (auto simp: kept_in_def under_way_def)
next
  case (leave i s)
  have "w \<in> set ((pl_workers s)[i := Exited])" if "w \<in> set (pl_workers s)" "w \<noteq> Idle" for w
    using set_update_keeps[OF that(1), of i] leave that by simp
  then show ?case using leave by (auto simp: kept_in_def under_way_def)
qed (auto simp: kept_in_def under_way_def)

lemma pl_err_step: "pool_step W outcome s t \<Longrightarrow> pl_err t = None \<Longrightarrow> pl_err s = None"
  by (induction rule: pool_step.induct) simp_all

lemma inv_kept_step: "pool_step W outcome s t \<Longrightarrow> inv_kept outcome repos s \<Longrightarrow> inv_kept outcome repos t"
  using kept_in_step pl_err_step unfolding inv_kept_def by metis

lemma not_returned:
  "inv_main W s \<Longrightarrow> i < length (pl_workers s) \<Longrightarrow> pl_workers s ! i \<noteq> Exited \<Longrightarrow> pl_main s \<noteq> Returned x"
  using nth_mem by (fastforce simp: inv_main_def)

lemma inv_main_step: "pool_step W outcome s t \<Longrightarrow> inv_main W s \<Longrightarrow> inv_main W t"
proof (induction rule: pool_step.induct)
  case (hand s r rs i)
  then show ?case
    using not_returned[of W s i] by (auto simp: inv_main_def dest!: set_update_subset_insert[THEN subsetD])
next
  case (succeed i s r)
  then show ?case
    using not_returned[of W s i] by (auto simp: inv_main_def dest!: set_update_subset_insert[THEN subsetD])
next
  case (fail i s r e)
  then show ?case
    using not_returned[of W s i] by (auto simp: inv_main_def dest!: set_update_subset_insert[THEN subsetD])
next
  case (send i s e)
  then show ?case
    using not_returned[of W s i] by (auto simp: inv_main_def dest!: set_update_subset_insert[THEN subsetD])
next
  case (leave i s)
  then show ?case
    using not_returned[of W s i] by (auto simp: inv_main_def dest!: set_update_subset_insert[THEN subsetD])
qed (auto simp: inv_main_def)

lemma inv_count_step: "pool_step W outcome s t \<Longrightarrow> inv_count outcome repos s \<Longrightarrow> inv_count outcome repos t"
proof (induction rule: pool_step.induct)
  case (hand s r rs i)
  then show ?case using sum_list_map_update[of i "pl_workers s" "carried outcome" "Busy r"]
    by (auto simp: inv_count_def carried_def failing_def split: if_splits)
next
  case (succeed i s r)
  then show ?case using sum_list_map_update[of i "pl_workers s" "carried outcome" Idle]
    by (simp add: inv_count_def carried_def)
next
  case (fail i s r e)
  then show ?case using sum_list_map_update[of i "pl_workers s" "carried outcome" "Sending e"]
    by (simp add: inv_count_def carried_def)
next
  case (send i s e)
  then show ?case using sum_list_map_update[of i "pl_workers s" "carried outcome" Idle]
    by (simp add: inv_count_def carried_def)
next
  case (leave i s)
  then show ?case using sum_list_map_update[of i "pl_workers s" "carried outcome" Exited]
    by (simp add: inv_count_def carried_def)
qed (simp_all add: inv_count_def)

definition pool_inv :: "nat \<Rightarrow> ('r \<Rightarrow> 'e option) \<Rightarrow> 'r list \<Rightarrow> ('r, 'e) pool \<Rightarrow> bool" where
  "pool_inv W outcome repos s \<longleftrightarrow>
     inv_main W s \<and> inv_origin outcome repos s \<and> inv_kept outcome repos s \<and> inv_count outcome repos s"

lemma pool_inv_init: "pool_inv W outcome repos (init_pool W repos)"
  by (auto simp: pool_inv_def inv_main_def inv_origin_def inv_kept_def kept_in_def inv_count_def under_way_def
      init_pool_def carried_def sum_list_replicate)

interpretation pool: step_system "pool_step W outcome" "init_pool W repos" "pool_inv W outcome repos"
    pool_measure for W outcome repos
proof
  show "pool_inv W outcome repos (init_pool W repos)" by (rule pool_inv_init)
  show "pool_inv W outcome repos t" if "pool_inv W outcome repos s" "pool_step W outcome s t" for s t
    using that inv_main_step inv_origin_step inv_kept_step inv_count_step
    unfolding pool_inv_def by blast
  show "pool_measure t < pool_measure s" if "pool_inv W outcome repos s" "pool_step W outcome s t" for s t
    using that(2) by (rule pool_measure_step)
qed


section \<open>What the pool does\<close>

lemma returned_none:
  assumes "pool_inv W outcome repos s" "pl_main s = Returned None"
  shows "\<forall>r\<in>set repos. outcome r = None"
proof
  fix r assume r: "r \<in> set repos"
  have ret: "set (pl_workers s) \<subseteq> {Exited}" "pool_result s = None" "pl_err s = None \<longrightarrow> pl_todo s = []"
    using assms by (auto simp: pool_inv_def inv_main_def)
  then have none: "pl_err s = None" "pl_errc s = []" by (auto simp: pool_result_def split: list.splits)
  show "outcome r = None"
  proof (rule ccontr)
    assume "outcome r \<noteq> None"
    then have "kept_in outcome s r" using assms(1) none r by (simp add: pool_inv_def inv_kept_def)
    then show False using ret none by (auto simp: kept_in_def under_way_def)
  qed
qed

lemma returned_some:
  assumes "pool_inv W outcome repos s" "pl_main s = Returned (Some e)"
  shows "\<exists>r\<in>set repos. outcome r = Some e"
proof -
  have "pool_result s = Some e" using assms by (auto simp: pool_inv_def inv_main_def)
  then have "under_way s e" by (auto simp: under_way_def pool_result_def split: list.splits)
  then show ?thesis using assms(1) by (simp add: pool_inv_def inv_origin_def)
qed

text \<open>
  \<^verbatim>\<open>checkoutRepos\<close> returns no error only if every repository was updated, and an error only
  if it is the error of one of them, however the workers are scheduled.
\<close>

theorem checkoutRepos_result:
  assumes "pool_reach W outcome repos s" "pl_main s = Returned x"
  shows "(x = None \<longrightarrow> (\<forall>r\<in>set repos. outcome r = None)) \<and>
    (\<forall>e. x = Some e \<longrightarrow> (\<exists>r\<in>set repos. outcome r = Some e))"
proof -
  have inv: "pool_inv W outcome repos s" using pool.reachable_inv assms(1) .
  show ?thesis using returned_none[OF inv] returned_some[OF inv] assms(2) by simp
qed

text \<open>Where at most as many repositories fail as there are workers, something can always happen.\<close>

lemma pool_progress:
  assumes "pool_inv W outcome repos s" "0 < W" "failing outcome repos \<le> W" "\<forall>t. \<not> pool_step W outcome s t"
  shows "\<exists>x. pl_main s = Returned x"
proof -
  have main: "inv_main W s" and count: "inv_count outcome repos s"
    using assms(1) by (simp_all add: pool_inv_def)
  have stuck: "\<not> pool_step W outcome s t" for t using assms(4) by blast
  have quiet: "w = Idle \<or> w = Exited" if w: "w \<in> set (pl_workers s)" for w
  proof (rule ccontr)
    assume no: "\<not> (w = Idle \<or> w = Exited)"
    obtain i where i: "i < length (pl_workers s)" "pl_workers s ! i = w" using w by (metis in_set_conv_nth)
    show False
    proof (cases w)
      case (Busy r)
      then show ?thesis
        using i stuck pool_step.succeed[of i s r outcome W] pool_step.fail[of i s r outcome _ W]
        by (cases "outcome r") blast+
    next
      case (Sending e)
      have "carried outcome w \<le> sum_list (map (carried outcome) (pl_workers s))"
        using w by (intro member_le_sum_list) auto
      then have "length (pl_errc s) < W"
        using count assms(3) Sending by (simp add: inv_count_def carried_def)
      then show ?thesis using i stuck pool_step.send[of i s e W outcome] Sending by blast
    qed (use no in auto)
  qed
  show ?thesis
  proof (cases "pl_main s")
    case Feeding
    then have len: "length (pl_workers s) = W" "Exited \<notin> set (pl_workers s)" using main by (simp_all add: inv_main_def)
    then have "pl_workers s ! 0 \<in> set (pl_workers s)" using assms(2) by simp
    then have idle: "pl_workers s ! 0 = Idle" using quiet len(2) by metis
    show ?thesis
    proof (cases "pl_todo s")
      case Nil
      then show ?thesis using stuck pool_step.feed_done[OF Feeding] by blast
    next
      case (Cons r rs)
      then show ?thesis using stuck pool_step.hand[OF Feeding Cons _ idle] len(1) assms(2) by blast
    qed
  next
    case Closing
    then show ?thesis using stuck pool_step.close[OF Closing] by blast
  next
    case Waiting
    then have closed: "pl_closed s" using main by (simp add: inv_main_def)
    have "w = Exited" if "w \<in> set (pl_workers s)" for w
    proof (rule ccontr)
      assume "w \<noteq> Exited"
      then have "Idle \<in> set (pl_workers s)" using quiet[OF that] that by auto
      then obtain i where "i < length (pl_workers s)" "pl_workers s ! i = Idle"
        by (auto simp: in_set_conv_nth)
      then show False using stuck pool_step.leave[of i s W outcome] closed by blast
    qed
    then show ?thesis using stuck pool_step.finish[OF Waiting] by blast
  qed simp
qed

text \<open>
  C11. Where at most as many repositories fail as there are workers, \<^verbatim>\<open>checkoutRepos\<close> returns
  under every schedule: no run is longer than a bound, and a run that cannot go on has returned.
\<close>

theorem checkoutRepos_returns:
  fixes outcome :: "'r \<Rightarrow> 'e option"
  assumes "0 < W" "failing outcome repos \<le> W"
  shows "(\<forall>n t. (pool_step W outcome ^^ n) (init_pool W repos) t \<longrightarrow> n \<le> 3 * length repos + W + 3) \<and>
    (\<forall>t. pool_reach W outcome repos t \<longrightarrow> (\<forall>u. \<not> pool_step W outcome t u) \<longrightarrow> (\<exists>x. pl_main t = Returned x))"
proof -
  have bound: "pool_measure (init_pool W repos :: ('r, 'e) pool) = 3 * length repos + W + 3"
    by (simp add: pool_measure_def init_pool_def sum_list_replicate worker_weight_def main_weight_def)
  have "n \<le> 3 * length repos + W + 3" if "(pool_step W outcome ^^ n) (init_pool W repos) t" for n t
    using pool.run_bounded[OF pool_inv_init that] bound by simp
  moreover have "\<exists>x. pl_main t = Returned x"
    if "pool_reach W outcome repos t" "\<forall>u. \<not> pool_step W outcome t u" for t
    using pool_progress[OF pool.reachable_inv[OF that(1)] assms that(2)] .
  ultimately show ?thesis by blast
qed

section \<open>Too many failures\<close>

text \<open>
  One worker can take every repository: after \<open>k\<close> of them, all failed, its errors are in
  the channel.
\<close>

definition after_failures :: "nat \<Rightarrow> ('r \<Rightarrow> 'e option) \<Rightarrow> 'r list \<Rightarrow> nat \<Rightarrow> ('r, 'e) pool" where
  "after_failures W outcome repos k =
     (init_pool W repos)\<lparr>pl_todo := drop k repos, pl_errc := map (the \<circ> outcome) (take k repos)\<rparr>"

lemma after_failures_busy:
  assumes "0 < W" "k < length repos" "outcome (repos ! k) = Some e"
    and "pool_reach W outcome repos (after_failures W outcome repos k)"
  shows "pool_reach W outcome repos ((after_failures W outcome repos k)
    \<lparr>pl_todo := drop (Suc k) repos, pl_workers := (replicate W Idle)[0 := Sending e]\<rparr>)"
proof -
  let ?s = "after_failures W outcome repos k"
  have ws: "pl_workers ?s = replicate W Idle" "pl_main ?s = Feeding" "pl_todo ?s = repos ! k # drop (Suc k) repos"
    using assms(2) by (simp_all add: after_failures_def init_pool_def Cons_nth_drop_Suc)
  let ?t = "?s\<lparr>pl_todo := drop (Suc k) repos, pl_workers := (pl_workers ?s)[0 := Busy (repos ! k)]\<rparr>"
  have "pool_step W outcome ?s ?t" using ws assms(1) by (intro pool_step.hand) simp_all
  moreover have "pool_step W outcome ?t (?t\<lparr>pl_workers := (pl_workers ?t)[0 := Sending e]\<rparr>)"
    using ws assms(1,3) by (intro pool_step.fail) simp_all
  ultimately show ?thesis
    using assms(4) ws by (simp add: rtranclp.rtrancl_into_rtrancl)
qed

lemma after_failures_reached:
  assumes "0 < W" "k \<le> W" "k \<le> length repos" "\<forall>r\<in>set repos. outcome r \<noteq> None"
  shows "pool_reach W outcome repos (after_failures W outcome repos k)"
  using assms(2,3)
proof (induction k)
  case 0
  then show ?case by (simp add: after_failures_def init_pool_def)
next
  case (Suc k)
  let ?s = "after_failures W outcome repos k"
  obtain e where e: "outcome (repos ! k) = Some e"
    using assms(4) Suc.prems(2) by (metis Suc_le_eq nth_mem option.exhaust)
  let ?t = "?s\<lparr>pl_todo := drop (Suc k) repos, pl_workers := (replicate W Idle)[0 := Sending e]\<rparr>"
  have "pool_reach W outcome repos ?t"
    using after_failures_busy[of W k repos outcome e] assms(1) e Suc by simp
  moreover have "pool_step W outcome ?t (?t\<lparr>pl_workers := (pl_workers ?t)[0 := Idle], pl_errc := pl_errc ?t @ [e]\<rparr>)"
    using assms(1) Suc.prems by (intro pool_step.send) (simp_all add: after_failures_def)
  moreover have "?t\<lparr>pl_workers := (pl_workers ?t)[0 := Idle], pl_errc := pl_errc ?t @ [e]\<rparr> =
      after_failures W outcome repos (Suc k)"
    using Suc.prems e assms(1)
    by (simp add: after_failures_def init_pool_def take_Suc_conv_app_nth list_update_same_conv[THEN iffD2])
  ultimately show ?case by (metis rtranclp.rtrancl_into_rtrancl)
qed

lemma others_leave:
  assumes "pl_closed s" "pl_workers s = w # replicate m Exited @ replicate n Idle"
  shows "(pool_step W outcome)\<^sup>*\<^sup>* s (s\<lparr>pl_workers := w # replicate (m + n) Exited\<rparr>)"
  using assms
proof (induction n arbitrary: m s)
  case 0
  then have "s\<lparr>pl_workers := w # replicate (m + 0) Exited\<rparr> = s" by simp
  then show ?case by simp
next
  case (Suc n)
  let ?t = "s\<lparr>pl_workers := (pl_workers s)[Suc m := Exited]\<rparr>"
  have "pool_step W outcome s ?t"
    using Suc.prems by (intro pool_step.leave) (simp_all add: nth_append)
  moreover have "pl_workers ?t = w # replicate (Suc m) Exited @ replicate n Idle"
  proof -
    have "pl_workers s = w # replicate m Exited @ Idle # replicate n Idle" using Suc.prems(2) by simp
    then have "(pl_workers s)[Suc m := Exited] = w # replicate m Exited @ Exited # replicate n Idle"
      by (simp add: list_update_append)
    then show ?thesis by (simp add: replicate_app_Cons_same)
  qed
  ultimately show ?case
    using Suc.IH[of ?t "Suc m"] Suc.prems(1) by (simp add: converse_rtranclp_into_rtranclp)
qed


section \<open>Concrete runs\<close>

definition one_fails :: "string \<Rightarrow> string option" where
  "one_fails r = (if r = ''b'' then Some ''no route'' else None)"

lemma checkoutRepos_result_witness:
  "\<exists>s. pool_reach 2 one_fails [''a'', ''b''] s \<and> pl_main s = Returned (Some ''no route'')"
proof -
  obtain s where s: "pool_reach 2 one_fails [''a'', ''b''] s" "\<forall>u. \<not> pool_step 2 one_fails s u"
    using pool.run_ends[OF rtranclp.rtrancl_refl] by blast
  obtain x where x: "pl_main s = Returned x"
    using pool_progress[OF pool.reachable_inv[OF s(1)]] s(2) by (auto simp: failing_def one_fails_def)
  have "x = Some ''no route''"
    using checkoutRepos_result[OF s(1) x] by (cases x) (auto simp: one_fails_def split: if_splits)
  then show ?thesis using s(1) x by blast
qed

lemma checkoutRepos_returns_witness:
  "(\<nexists>n t. (pool_step 2 one_fails ^^ n) (init_pool 2 [''a'', ''b'']) t \<and> 11 < n) \<and>
   (\<exists>x t. pool_reach 2 one_fails [''a'', ''b''] t \<and> pl_main t = Returned x)"
proof -
  have few: "failing one_fails [''a'', ''b''] \<le> 2" by (simp add: failing_def one_fails_def)
  have two: "0 < (2 :: nat)" by simp
  note returns = checkoutRepos_returns[OF two few]
  obtain t where t: "pool_reach 2 one_fails [''a'', ''b''] t" "\<forall>u. \<not> pool_step 2 one_fails t u"
    using pool.run_ends[OF rtranclp.rtrancl_refl] by blast
  have "\<exists>x. pl_main t = Returned x" using returns t by blast
  moreover have "\<not> 11 < n" if "(pool_step 2 one_fails ^^ n) (init_pool 2 [''a'', ''b'']) u" for n u
    using conjunct1[OF returns, rule_format, OF that] by simp
  ultimately show ?thesis using t(1) by blast
qed


section \<open>Two workers at once\<close>

text \<open>One idle worker can bring any number of repositories up to date while the rest stands still.\<close>

lemma pool_skip:
  assumes "pl_main s = Feeding" "i < length (pl_workers s)" "pl_workers s ! i = Idle"
    and "pl_todo s = as @ rest" "\<forall>r\<in>set as. outcome r = None"
  shows "(pool_step W outcome)\<^sup>*\<^sup>* s (s\<lparr>pl_todo := rest\<rparr>)"
  using assms
proof (induction as arbitrary: s)
  case (Cons r as)
  let ?busy = "s\<lparr>pl_todo := as @ rest, pl_workers := (pl_workers s)[i := Busy r]\<rparr>"
  have "pool_step W outcome s ?busy" using Cons.prems by (intro pool_step.hand) simp_all
  moreover have "pool_step W outcome ?busy (?busy\<lparr>pl_workers := (pl_workers ?busy)[i := Idle]\<rparr>)"
    using Cons.prems by (intro pool_step.succeed[where r = r]) simp_all
  moreover have "?busy\<lparr>pl_workers := (pl_workers ?busy)[i := Idle]\<rparr> = s\<lparr>pl_todo := as @ rest\<rparr>"
    using Cons.prems(3) by (simp add: list_update_same_conv Cons.prems(2))
  moreover have "(pool_step W outcome)\<^sup>*\<^sup>* (s\<lparr>pl_todo := as @ rest\<rparr>) (s\<lparr>pl_todo := rest\<rparr>)"
    using Cons.IH[of "s\<lparr>pl_todo := as @ rest\<rparr>"] Cons.prems by simp
  ultimately show ?case by (metis converse_rtranclp_into_rtranclp)
next
  case Nil
  then have "s\<lparr>pl_todo := rest\<rparr> = s" by simp
  then show ?case by simp
qed

text \<open>Any two of the repositories can be under way at the same time.\<close>

lemma pool_both_busy:
  assumes "2 \<le> W" "\<forall>r\<in>set (as @ bs). outcome r = None"
  shows "\<exists>s. pool_reach W outcome (as @ a # bs @ b # cs) s \<and> 1 < length (pl_workers s) \<and>
    pl_workers s ! 0 = Busy a \<and> pl_workers s ! 1 = Busy b"
proof -
  let ?s0 = "init_pool W (as @ a # bs @ b # cs) :: ('a, 'b) pool"
  let ?s1 = "?s0\<lparr>pl_todo := a # bs @ b # cs\<rparr>"
  let ?s2 = "?s1\<lparr>pl_todo := bs @ b # cs, pl_workers := (pl_workers ?s1)[0 := Busy a]\<rparr>"
  let ?s3 = "?s2\<lparr>pl_todo := b # cs\<rparr>"
  let ?s4 = "?s3\<lparr>pl_todo := cs, pl_workers := (pl_workers ?s3)[1 := Busy b]\<rparr>"
  have "(pool_step W outcome)\<^sup>*\<^sup>* ?s0 ?s1"
    by (rule pool_skip[where i = 0 and as = as]) (use assms in \<open>auto simp: init_pool_def\<close>)
  moreover have "pool_step W outcome ?s1 ?s2"
    by (rule pool_step.hand) (use assms(1) in \<open>auto simp: init_pool_def\<close>)
  moreover have "(pool_step W outcome)\<^sup>*\<^sup>* ?s2 ?s3"
    by (rule pool_skip[where i = 1 and as = bs]) (use assms in \<open>auto simp: init_pool_def\<close>)
  moreover have "pool_step W outcome ?s3 ?s4"
    by (rule pool_step.hand) (use assms(1) in \<open>auto simp: init_pool_def\<close>)
  ultimately have "(pool_step W outcome)\<^sup>*\<^sup>* ?s0 ?s4"
    by (meson rtranclp.rtrancl_into_rtrancl rtranclp_trans)
  moreover have "1 < length (pl_workers ?s4) \<and> pl_workers ?s4 ! 0 = Busy a \<and> pl_workers ?s4 ! 1 = Busy b"
    using assms(1) by (simp add: init_pool_def)
  ultimately show ?thesis by blast
qed

end
