(* ===== verification/FetchReindex.thy ===== *)
theory FetchReindex
  imports CheckoutPool GoText GoRegexp GoPaths
begin

text \<open>
  \<^verbatim>\<open>cmd/livegrep-fetch-reindex\<close>: how one mirror is brought up to date (\<^verbatim>\<open>checkoutOne\<close>), and
  the order in which \<^verbatim>\<open>main\<close> fetches, indexes, and puts the new index in place. The commands
  and file operations so far are the state; what a command prints may depend on all of them, so
  it is a parameter that is given the history.
\<close>

section \<open>The outside world\<close>

datatype action =
    Run "string list" string string \<comment> \<open>a command, with the user name and password it is given\<close>
  | RemoveAll string
  | MkdirAll string
  | RenameFile string string
  | ReloadBackend string

datatype exec_result = Exec string | ExitError string string | ExecError string

type_synonym history = "action list"

record outside =
  os_exec :: "history \<Rightarrow> string list \<Rightarrow> exec_result"
  os_file :: "history \<Rightarrow> action \<Rightarrow> string option"
  os_tempfile :: "string + string"
  os_pipe :: "history \<Rightarrow> string option"
  os_getenv :: "string \<Rightarrow> string"

datatype fetch_error =
    Os string
  | Exited_with string
  | GaveUp string "string list" fetch_error
  | NoRemote string
  | NoHeadRef string string

definition exec_error :: "exec_result \<Rightarrow> fetch_error option" where
  "exec_error r = (case r of Exec out \<Rightarrow> None | ExitError out msg \<Rightarrow> Some (Exited_with msg)
     | ExecError msg \<Rightarrow> Some (Os msg))"

definition run :: "outside \<Rightarrow> history \<Rightarrow> string list \<Rightarrow> exec_result \<times> history" where
  "run os h args = (os_exec os h args, h @ [Run args [] []])"

definition file_op :: "outside \<Rightarrow> history \<Rightarrow> action \<Rightarrow> fetch_error option \<times> history" where
  "file_op os h a = (map_option Os (os_file os h a), h @ [a])"

section \<open>Calling git\<close>

text \<open>
  One of the three attempts: a pipe for the password, and the command. \<open>Inl\<close> carries the error
  of the last attempt and how many are left, \<open>Inr\<close> what the call returns.
\<close>

datatype git_call = Trying nat fetch_error | Done "fetch_error + string"

record git_command =
  gc_program :: string
  gc_args :: "string list"
  gc_username :: string
  gc_password :: string

definition attempt :: "outside \<Rightarrow> git_command \<Rightarrow> git_call \<times> history \<Rightarrow> git_call \<times> history" where
  "attempt os c st =
     (case st of
        (Done r, h) \<Rightarrow> (Done r, h)
      | (Trying n lastErr, h) \<Rightarrow>
          (case n of
             0 \<Rightarrow> (Done (Inl (GaveUp (gc_program c) (gc_args c) lastErr)), h)
           | Suc m \<Rightarrow>
               (case (if gc_password c \<noteq> [] then os_pipe os h else None) of
                  Some msg \<Rightarrow> (Done (Inl (Os msg)), h)
                | None \<Rightarrow>
                    let r = os_exec os h (''git'' # gc_args c);
                        h' = h @ [Run (''git'' # gc_args c) (gc_username c) (gc_password c)]
                    in case r of
                        Exec out \<Rightarrow> (Done (Inr out), h')
                      | ExitError out msg \<Rightarrow> (Trying m (Exited_with msg), h')
                      | ExecError msg \<Rightarrow> (Trying m (Os msg), h'))))"

text \<open>The command of a call: with credentials, a helper script comes first.\<close>

definition start_call ::
    "outside \<Rightarrow> string \<Rightarrow> string list \<Rightarrow> string \<Rightarrow> string \<Rightarrow> git_command \<times> git_call" where
  "start_call os program args username password =
     (let c = \<lparr>gc_program = program, gc_args = args, gc_username = username, gc_password = password\<rparr> in
      if username \<noteq> [] \<or> password \<noteq> [] then
        (case os_tempfile os of
           Inl msg \<Rightarrow> (c, Done (Inl (Os msg)))
         | Inr name \<Rightarrow>
             (c\<lparr>gc_args := [''-c'', ''credential.helper='' @ name] @ args\<rparr>, Trying 3 (Os [])))
      else (c, Trying 3 (Os [])))"

definition finish_call :: "outside \<Rightarrow> git_command \<Rightarrow> git_call \<times> history \<Rightarrow> git_call \<times> history" where
  "finish_call os c st = ((attempt os c) ^^ 4) st"

definition call_result :: "git_call \<Rightarrow> fetch_error + string" where
  "call_result g = (case g of Done r \<Rightarrow> r | Trying n lastErr \<Rightarrow> Inl lastErr)"

definition callGitInternal ::
    "outside \<Rightarrow> history \<Rightarrow> string \<Rightarrow> string list \<Rightarrow> string \<Rightarrow> string
     \<Rightarrow> (fetch_error + string) \<times> history" where
  "callGitInternal os h program args username password =
     (let (c, g) = start_call os program args username password;
          (g', h') = finish_call os c (g, h)
      in (call_result g', h'))"

definition callGit ::
    "outside \<Rightarrow> history \<Rightarrow> string \<Rightarrow> string list \<Rightarrow> string \<Rightarrow> string \<Rightarrow> fetch_error option \<times> history" where
  "callGit os h program args username password =
     (case callGitInternal os h program args username password of
        (Inl e, h') \<Rightarrow> (Some e, h') | (Inr _, h') \<Rightarrow> (None, h'))"

section \<open>Bringing a mirror up to date\<close>

record CloneOptions =
  clo_Depth :: int
  clo_Username :: string
  clo_PasswordEnv :: string

text \<open>\<^verbatim>\<open>config.RepoSpec\<close>; the metadata and the options are pointers.\<close>

record RepoSpec =
  rs_Path :: string
  rs_Name :: string
  rs_Remote :: "string option"
  rs_CloneOptions :: "CloneOptions option"

definition depth_args :: "RepoSpec \<Rightarrow> string list" where
  "depth_args r =
     (case rs_CloneOptions r of
        None \<Rightarrow> []
      | Some o' \<Rightarrow> if clo_Depth o' \<noteq> 0 then [''--depth='' @ string_of_int (clo_Depth o')] else [])"

definition credentials :: "outside \<Rightarrow> RepoSpec \<Rightarrow> string \<times> string" where
  "credentials os r =
     (case rs_CloneOptions r of
        None \<Rightarrow> ([], [])
      | Some o' \<Rightarrow> (clo_Username o', os_getenv os (clo_PasswordEnv o')))"

definition is_trimmed :: "char \<Rightarrow> bool" where
  "is_trimmed c \<longleftrightarrow> c = CHR '' '' \<or> c = NL"

definition Trim_blank :: "string \<Rightarrow> string" where
  "Trim_blank s = rev (dropWhile is_trimmed (rev (dropWhile is_trimmed s)))"

text \<open>
  \<^verbatim>\<open>ref:\s*([^\s]*)\s*HEAD\<close>, unanchored: the name is as long as possible, and shorter where
  \<^verbatim>\<open>HEAD\<close> would otherwise be part of it.
\<close>

fun ref_name_at :: "nat \<Rightarrow> string \<Rightarrow> string option" where
  "ref_name_at n s =
     (if HasPrefix (dropWhile is_ws (drop n s)) ''HEAD'' then Some (take n s)
      else case n of 0 \<Rightarrow> None | Suc m \<Rightarrow> ref_name_at m s)"

declare ref_name_at.simps [simp del]

definition ref_at :: "string \<Rightarrow> string option" where
  "ref_at s =
     (if HasPrefix s ''ref:'' then
        (let t = dropWhile is_ws (drop 4 s) in ref_name_at (length (takeWhile (\<lambda>c. \<not> is_ws c) t)) t)
      else None)"

fun remoteHeadRefExtractorReg :: "string \<Rightarrow> string option" where
  "remoteHeadRefExtractorReg [] = ref_at []"
| "remoteHeadRefExtractorReg (c # s) =
     (case ref_at (c # s) of Some r \<Rightarrow> Some r | None \<Rightarrow> remoteHeadRefExtractorReg s)"

text \<open>
  The two calls of the error group run side by side. The schedule says which of them makes its
  next attempt; when it is used up each runs to its end. The group keeps the first error.
\<close>

record par_state =
  pp_fetch :: git_call
  pp_ls :: git_call
  pp_history :: history
  pp_first :: "fetch_error option"

definition note_error :: "git_call \<Rightarrow> fetch_error option \<Rightarrow> fetch_error option" where
  "note_error g first = (case (first, g) of (None, Done (Inl e)) \<Rightarrow> Some e | _ \<Rightarrow> first)"

definition par_step :: "outside \<Rightarrow> git_command \<Rightarrow> git_command \<Rightarrow> bool \<Rightarrow> par_state \<Rightarrow> par_state" where
  "par_step os cf cl fetchNext p =
     (if fetchNext then
        (let (g, h) = attempt os cf (pp_fetch p, pp_history p)
         in p\<lparr>pp_fetch := g, pp_history := h, pp_first := note_error g (pp_first p)\<rparr>)
      else
        (let (g, h) = attempt os cl (pp_ls p, pp_history p)
         in p\<lparr>pp_ls := g, pp_history := h, pp_first := note_error g (pp_first p)\<rparr>))"

definition run_par ::
    "outside \<Rightarrow> bool list \<Rightarrow> history \<Rightarrow> string list \<Rightarrow> string list \<Rightarrow> string \<Rightarrow> string
     \<Rightarrow> fetch_error option \<times> (fetch_error + string) \<times> history" where
  "run_par os sched h fetchArgs lsArgs username password =
     (let (cf, gf) = start_call os ''git'' fetchArgs username password;
          (cl, gl) = start_call os ''git'' lsArgs username password;
          p0 = \<lparr>pp_fetch = gf, pp_ls = gl, pp_history = h,
                pp_first = note_error gl (note_error gf None)\<rparr>;
          p = fold (par_step os cf cl) (sched @ replicate 4 True @ replicate 4 False) p0
      in (pp_first p, call_result (pp_ls p), pp_history p))"

text \<open>The last part of \<^verbatim>\<open>checkoutOne\<close>: the head of the mirror follows that of the remote.\<close>

definition follow_head :: "outside \<Rightarrow> RepoSpec \<Rightarrow> string \<Rightarrow> history \<Rightarrow> fetch_error option \<times> history" where
  "follow_head os r remoteOut h =
     (let remoteOutClean = TrimSpace remoteOut in
      if remoteOutClean = [] then (None, h)
      else
        (let (currOut, h1) = run os h [''git'', ''--git-dir'', rs_Path r, ''symbolic-ref'', ''HEAD''] in
         case currOut of
           Exec out \<Rightarrow>
             (case remoteHeadRefExtractorReg remoteOutClean of
                None \<Rightarrow> (Some (NoHeadRef (rs_Name r) remoteOutClean), h1)
              | Some ref \<Rightarrow>
                  if TrimSpace out = TrimSpace ref then (None, h1)
                  else
                    (let (res, h2) = run os h1
                        [''git'', ''--git-dir'', rs_Path r, ''symbolic-ref'', ''HEAD'', TrimSpace ref]
                     in (exec_error res, h2)))
         | failed \<Rightarrow> (exec_error failed, h1)))"

definition clone_mirror :: "outside \<Rightarrow> RepoSpec \<Rightarrow> string \<Rightarrow> history \<Rightarrow> fetch_error option \<times> history" where
  "clone_mirror os r remote h =
     (case file_op os h (RemoveAll (rs_Path r)) of
        (Some e, h1) \<Rightarrow> (Some e, h1)
      | (None, h1) \<Rightarrow>
          (case file_op os h1 (MkdirAll (rs_Path r)) of
             (Some e, h2) \<Rightarrow> (Some e, h2)
           | (None, h2) \<Rightarrow>
               callGit os h2 ''git''
                 ([''clone'', ''--mirror''] @ depth_args r @ [remote, rs_Path r])
                 (fst (credentials os r)) (snd (credentials os r))))"

definition update_mirror ::
    "outside \<Rightarrow> bool list \<Rightarrow> RepoSpec \<Rightarrow> string \<Rightarrow> history \<Rightarrow> fetch_error option \<times> history" where
  "update_mirror os sched r remote h =
     (let (res, h1) = run os h [''git'', ''-C'', rs_Path r, ''remote'', ''set-url'', ''origin'', remote] in
      case exec_error res of
        Some e \<Rightarrow> (Some e, h1)
      | None \<Rightarrow>
          (case run_par os sched h1
                  ([''--git-dir'', rs_Path r, ''fetch'', ''-p''] @ depth_args r)
                  [''--git-dir'', rs_Path r, ''ls-remote'', ''--symref'', ''origin'', ''HEAD'']
                  (fst (credentials os r)) (snd (credentials os r)) of
             (Some e, _, h2) \<Rightarrow> (Some e, h2)
           | (None, Inl e, h2) \<Rightarrow> (Some e, h2)
           | (None, Inr remoteOut, h2) \<Rightarrow> follow_head os r remoteOut h2))"

definition checkoutOne ::
    "outside \<Rightarrow> bool list \<Rightarrow> RepoSpec \<Rightarrow> history \<Rightarrow> (fetch_error, unit) res \<times> history" where
  "checkoutOne os sched r h =
     (case rs_Remote r of
        None \<Rightarrow> (Inl (Panic NilDereference), h)
      | Some remote \<Rightarrow>
          if remote = [] then (Inl (Error (NoRemote (rs_Name r))), h)
          else
            (let (res, h1) = run os h [''git'', ''-C'', rs_Path r, ''rev-parse'', ''--is-bare-repository''];
                 finish = (\<lambda>(e, h'). (case e of None \<Rightarrow> Inr () | Some err \<Rightarrow> Inl (Error err), h'))
             in case res of
                 ExecError msg \<Rightarrow> (Inl (Error (Os msg)), h1)
               | Exec out \<Rightarrow>
                   finish (if Trim_blank out \<noteq> ''true'' then clone_mirror os r remote h1
                           else update_mirror os sched r remote h1)
               | ExitError out msg \<Rightarrow>
                   finish (if Trim_blank out \<noteq> ''true'' then clone_mirror os r remote h1
                           else update_mirror os sched r remote h1)))"

section \<open>The whole program\<close>

text \<open>\<^verbatim>\<open>strings.Replace\<close> of all occurrences of a non-empty string.\<close>

function replace_all :: "string \<Rightarrow> string \<Rightarrow> string \<Rightarrow> string" where
  "replace_all old nw s =
     (if old = [] \<or> s = [] then s
      else if HasPrefix s old then nw @ replace_all old nw (drop (length old) s)
      else hd s # replace_all old nw (tl s))"
  by pat_completeness auto
termination by (relation "measure (\<lambda>(old, nw, s). length s)") (auto simp: neq_Nil_conv)

declare replace_all.simps [simp del]

text \<open>\<open>isFile\<close> is \<^verbatim>\<open>os.Stat\<close>: something is there and it is no directory.\<close>

definition findCodesearch :: "(string \<Rightarrow> bool) \<Rightarrow> string \<Rightarrow> string \<Rightarrow> string" where
  "findCodesearch isFile arg0 given =
     (if given \<noteq> [] then given
      else case find isFile [path_Join [path_Dir arg0, ''codesearch''], ''bazel-bin/src/tools/codesearch''] of
          Some p \<Rightarrow> p
        | None \<Rightarrow> ''codesearch'')"

definition findBinary :: "(string \<Rightarrow> bool) \<Rightarrow> string \<Rightarrow> string \<Rightarrow> string" where
  "findBinary isFile arg0 name =
     (case find isFile [path_Join [path_Dir arg0, name], replace_all (path_Base arg0) name arg0] of
        Some p \<Rightarrow> p
      | None \<Rightarrow> name)"

record fetch_flags =
  fl_codesearch :: string
  fl_out :: string
  fl_revparse :: bool
  fl_reload_backend :: string
  fl_no_index :: bool
  fl_metrics_out :: string
  fl_send_metrics :: bool
  fl_statsd_address :: string
  fl_statsd_prefix :: string

definition index_args :: "fetch_flags \<Rightarrow> string \<Rightarrow> string list" where
  "index_args fl config =
     [''--debug=ui'', ''--dump_index'', fl_out fl @ ''.tmp'', ''--index_only''] @
     (if fl_revparse fl then [''--revparse''] else []) @
     (if fl_metrics_out fl \<noteq> [] then [''--dump_metrics'', fl_metrics_out fl] else []) @ [config]"

text \<open>\<^verbatim>\<open>log.Fatal\<close> ends the program with a message; otherwise it ends normally.\<close>

datatype exit = Normal | Fatal string

definition or_fatal ::
    "fetch_error option \<times> history \<Rightarrow> string \<Rightarrow> (history \<Rightarrow> exit \<times> history) \<Rightarrow> exit \<times> history" where
  "or_fatal r msg k = (case r of (Some e, h) \<Rightarrow> (Fatal msg, h) | (None, h) \<Rightarrow> k h)"

definition run_ok :: "outside \<Rightarrow> history \<Rightarrow> string list \<Rightarrow> fetch_error option \<times> history" where
  "run_ok os h args = (let (r, h') = run os h args in (exec_error r, h'))"

definition export_metrics ::
    "outside \<Rightarrow> (string \<Rightarrow> bool) \<Rightarrow> string \<Rightarrow> fetch_flags \<Rightarrow> history \<Rightarrow> exit \<times> history" where
  "export_metrics os isFile arg0 fl h =
     (if \<not> fl_send_metrics fl then (Normal, h)
      else if fl_metrics_out fl = [] then (Fatal ''statsd'', h)
      else or_fatal (run_ok os h
          [findBinary isFile arg0 ''livegrep-metrics-exporter'', ''--statsd-address'', fl_statsd_address fl,
           ''--statsd-prefix'', fl_statsd_prefix fl, ''--metrics-out'', fl_metrics_out fl])
        ''livegrep-metrics-exporter: '' (Pair Normal))"

text \<open>\<^verbatim>\<open>main\<close> from the call of \<^verbatim>\<open>checkoutRepos\<close> on, whose result it is given.\<close>

definition fetch_main ::
    "outside \<Rightarrow> (string \<Rightarrow> bool) \<Rightarrow> string \<Rightarrow> fetch_flags \<Rightarrow> string \<Rightarrow> fetch_error option \<Rightarrow> history
     \<Rightarrow> exit \<times> history" where
  "fetch_main os isFile arg0 fl config checkout h =
     or_fatal (checkout, h) ''checkout'' (\<lambda>h.
       if fl_no_index fl then (Normal, h)
       else
         or_fatal (run_ok os h (findCodesearch isFile arg0 (fl_codesearch fl) # index_args fl config)) ''index'' (\<lambda>h.
         or_fatal (file_op os h (RenameFile (fl_out fl @ ''.tmp'') (fl_out fl))) ''rename:'' (\<lambda>h.
           if fl_reload_backend fl \<noteq> [] then
             or_fatal (file_op os h (ReloadBackend (fl_reload_backend fl))) ''reload:''
               (export_metrics os isFile arg0 fl)
           else export_metrics os isFile arg0 fl h)))"

lemma export_metrics_acts:
  "\<exists>rest. snd (export_metrics os isFile arg0 fl h) = h @ rest \<and> (\<forall>a\<in>set rest. \<exists>args. a = Run args [] [])"
  by (auto simp: export_metrics_def or_fatal_def run_ok_def run_def split: option.splits)

lemma after_rename_acts:
  "\<exists>rest. snd (if fl_reload_backend fl \<noteq> [] then
       or_fatal (file_op os h (ReloadBackend (fl_reload_backend fl))) ''reload:'' (export_metrics os isFile arg0 fl)
     else export_metrics os isFile arg0 fl h) = h @ rest \<and> (\<forall>x y. RenameFile x y \<notin> set rest)"
  using export_metrics_acts[of os isFile arg0 fl h]
    export_metrics_acts[of os isFile arg0 fl "h @ [ReloadBackend (fl_reload_backend fl)]"]
  by (auto simp: or_fatal_def file_op_def split: option.splits)

text \<open>What was done before the index was put in place, or a backend told to reload.\<close>

lemma fetch_main_acts:
  assumes "fetch_main os isFile arg0 fl config checkout h = (exit, h @ acts)"
    and "RenameFile a b \<in> set acts \<or> ReloadBackend c \<in> set acts"
  shows "checkout = None \<and> \<not> fl_no_index fl \<and>
    (\<exists>out rest. os_exec os h (findCodesearch isFile arg0 (fl_codesearch fl) # index_args fl config) = Exec out \<and>
       acts = [Run (findCodesearch isFile arg0 (fl_codesearch fl) # index_args fl config) [] [],
               RenameFile (fl_out fl @ ''.tmp'') (fl_out fl)] @ rest \<and>
       (\<forall>x y. RenameFile x y \<notin> set rest))"
proof -
  let ?cmd = "findCodesearch isFile arg0 (fl_codesearch fl) # index_args fl config"
  let ?h1 = "h @ [Run ?cmd [] []]"
  let ?h2 = "?h1 @ [RenameFile (fl_out fl @ ''.tmp'') (fl_out fl)]"
  have snd: "snd (fetch_main os isFile arg0 fl config checkout h) = h @ acts" using assms(1) by simp
  have checkout: "checkout = None" "\<not> fl_no_index fl"
    using snd assms(2) by (auto simp: fetch_main_def or_fatal_def split: option.splits if_splits)
  have indexed: "exec_error (os_exec os h ?cmd) = None"
    using snd assms(2) checkout
    by (auto simp: fetch_main_def or_fatal_def run_ok_def run_def split: option.splits)
  then obtain out where out: "os_exec os h ?cmd = Exec out"
    by (auto simp: exec_error_def split: exec_result.splits)
  obtain rest where rest: "snd (if fl_reload_backend fl \<noteq> [] then
       or_fatal (file_op os ?h2 (ReloadBackend (fl_reload_backend fl))) ''reload:'' (export_metrics os isFile arg0 fl)
     else export_metrics os isFile arg0 fl ?h2) = ?h2 @ rest" "\<forall>x y. RenameFile x y \<notin> set rest"
    using after_rename_acts[of fl os ?h2 isFile arg0] by blast
  have "h @ acts = ?h2 \<or> h @ acts = ?h2 @ rest"
    using snd checkout indexed rest(1)
    by (auto simp: fetch_main_def or_fatal_def run_ok_def run_def file_op_def split: option.splits)
  then have "\<exists>rest. acts = [Run ?cmd [] [], RenameFile (fl_out fl @ ''.tmp'') (fl_out fl)] @ rest \<and>
      (\<forall>x y. RenameFile x y \<notin> set rest)"
    using rest(2) by auto
  then show ?thesis using checkout out by blast
qed

text \<open>
  C8. However the workers are scheduled, the index is replaced at most once, only after every
  repository was brought up to date and the indexer, just before, has written a new one without
  an error; a backend is told to reload only after that.
\<close>

theorem reindex_replaces_built_index:
  assumes "pool_reach W outcome repos s" "pl_main s = Returned checkout"
    and "fetch_main os isFile arg0 fl config checkout h = (exit, h @ acts)"
    and "RenameFile a b \<in> set acts \<or> ReloadBackend c \<in> set acts"
  shows "(\<forall>r\<in>set repos. outcome r = None) \<and>
    (\<exists>out rest. os_exec os h (findCodesearch isFile arg0 (fl_codesearch fl) # index_args fl config) = Exec out \<and>
       acts = [Run (findCodesearch isFile arg0 (fl_codesearch fl) # index_args fl config) [] [],
               RenameFile (fl_out fl @ ''.tmp'') (fl_out fl)] @ rest \<and>
       (\<forall>x y. RenameFile x y \<notin> set rest))"
proof -
  have "checkout = None" using fetch_main_acts[OF assms(3,4)] by blast
  then have "\<forall>r\<in>set repos. outcome r = None"
    using returned_none[OF pool.reachable_inv[OF assms(1)]] assms(2) by simp
  then show ?thesis using fetch_main_acts[OF assms(3,4)] by blast
qed

definition some_flags :: fetch_flags where
  "some_flags = \<lparr>fl_codesearch = ''cs'', fl_out = ''idx'', fl_revparse = True, fl_reload_backend = ''b:1'',
     fl_no_index = False, fl_metrics_out = [], fl_send_metrics = False, fl_statsd_address = [],
     fl_statsd_prefix = []\<rparr>"

definition some_outside :: outside where
  "some_outside = \<lparr>os_exec = \<lambda>h args.
       if ''--is-bare-repository'' \<in> set args then Exec (''true'' @ [NL])
       else if ''ls-remote'' \<in> set args then Exec (''ref: refs/heads/main'' @ TAB # ''HEAD'' @ [NL])
       else if args = [''git'', ''--git-dir'', ''/m'', ''symbolic-ref'', ''HEAD''] then Exec (''refs/heads/old'' @ [NL])
       else Exec [],
     os_file = \<lambda>h a. None, os_tempfile = Inr ''t'', os_pipe = \<lambda>h. None, os_getenv = \<lambda>v. []\<rparr>"

lemma some_pool_returns:
  "\<exists>s :: (string, fetch_error) pool. pool_reach 2 (\<lambda>r. None) [''a'', ''b''] s \<and> pl_main s = Returned None"
proof -
  obtain s :: "(string, fetch_error) pool" where s: "pool_reach 2 (\<lambda>r. None) [''a'', ''b''] s"
    "\<forall>u. \<not> pool_step 2 (\<lambda>r. None) s u"
    using pool.run_ends[OF rtranclp.rtrancl_refl] by blast
  then obtain x where x: "pl_main s = Returned x"
    using pool_progress[OF pool.reachable_inv[OF s(1)]] by (auto simp: failing_def)
  then have "x = None" using returned_some[OF pool.reachable_inv[OF s(1)]] by (cases x) auto
  then show ?thesis using s(1) x by blast
qed

lemma reindex_replaces_built_index_witness:
  "\<exists>rest. snd (fetch_main some_outside (\<lambda>p. False) ''x'' some_flags ''cfg'' None []) =
     [Run (''cs'' # index_args some_flags ''cfg'') [] [], RenameFile ''idx.tmp'' ''idx''] @ rest"
proof -
  let ?r = "fetch_main some_outside (\<lambda>p. False) ''x'' some_flags ''cfg'' None []"
  have r: "?r = (Normal, [] @ [Run (''cs'' # index_args some_flags ''cfg'') [] [], RenameFile ''idx.tmp'' ''idx'',
      ReloadBackend ''b:1''])"
    by (simp add: fetch_main_def or_fatal_def run_ok_def run_def file_op_def some_outside_def some_flags_def
        exec_error_def index_args_def export_metrics_def findCodesearch_def)
  obtain s :: "(string, fetch_error) pool"
    where s: "pool_reach 2 (\<lambda>r. None) [''a'', ''b''] s" "pl_main s = Returned None"
    using some_pool_returns by blast
  from reindex_replaces_built_index[OF s r, of "''idx.tmp''" "''idx''"] r
  show ?thesis by (auto simp: some_flags_def findCodesearch_def)
qed

section \<open>Three attempts\<close>

definition succeeds :: "exec_result \<Rightarrow> bool" where
  "succeeds r \<longleftrightarrow> (\<exists>out. r = Exec out)"

lemma attempt_Done [simp]: "attempt os c (Done r, h) = (Done r, h)"
  by (simp add: attempt_def)

lemma attempt_gives_up [simp]:
  "attempt os c (Trying 0 e, h) = (Done (Inl (GaveUp (gc_program c) (gc_args c) e)), h)"
  by (simp add: attempt_def)

lemma attempt_answered:
  assumes "gc_password c = []"
  shows "os_exec os h (''git'' # gc_args c) = Exec out \<Longrightarrow>
      attempt os c (Trying (Suc n) e, h) = (Done (Inr out), h @ [Run (''git'' # gc_args c) (gc_username c) []])"
    and "\<not> succeeds (os_exec os h (''git'' # gc_args c)) \<Longrightarrow>
      attempt os c (Trying (Suc n) e, h) = (Trying n (the (exec_error (os_exec os h (''git'' # gc_args c)))),
        h @ [Run (''git'' # gc_args c) (gc_username c) []])"
  using assms by (auto simp: attempt_def succeeds_def exec_error_def split: exec_result.split)

text \<open>
  A call of git without credentials is made at most three times, with the same command, and
  again only after a failure; it returns what the first successful attempt prints, and an error
  where all three fail.
\<close>

theorem callGitInternal_attempts:
  fixes os args h program
  defines "cmd \<equiv> Run (''git'' # args) [] []"
    and "answer \<equiv> \<lambda>k. os_exec os (h @ replicate k (Run (''git'' # args) [] [])) (''git'' # args)"
  shows "\<exists>r k. callGitInternal os h program args [] [] = (r, h @ replicate k cmd) \<and> 1 \<le> k \<and> k \<le> 3 \<and>
    (\<forall>j < k - 1. \<not> succeeds (answer j)) \<and>
    (case r of Inr out \<Rightarrow> answer (k - 1) = Exec out | Inl e \<Rightarrow> k = 3 \<and> \<not> succeeds (answer 2))"
proof -
  have start: "start_call os program args [] [] =
      (\<lparr>gc_program = program, gc_args = args, gc_username = [], gc_password = []\<rparr>, Trying 3 (Os []))"
    by (simp add: start_call_def)
  let ?c = "\<lparr>gc_program = program, gc_args = args, gc_username = [], gc_password = []\<rparr>"
  have r: "answer 0 = os_exec os h (''git'' # args)"
    "answer 1 = os_exec os (h @ [cmd]) (''git'' # args)"
    "answer 2 = os_exec os (h @ [cmd, cmd]) (''git'' # args)"
    by (simp_all add: answer_def cmd_def numeral_2_eq_2)
  have unf: "callGitInternal os h program args [] [] =
      (let (g', h') = attempt os ?c (attempt os ?c (attempt os ?c (attempt os ?c (Trying 3 (Os []), h))))
       in (call_result g', h'))"
    by (simp add: callGitInternal_def start finish_call_def numeral_eq_Suc)
  have hit: "attempt os ?c (Trying (Suc n) e, h') = (Done (Inr out), h' @ [cmd])"
    if "os_exec os h' (''git'' # args) = Exec out" for n e h' out
    using attempt_answered(1)[of ?c os h' out n e] that by (simp add: cmd_def)
  have miss: "\<exists>e'. attempt os ?c (Trying (Suc n) e, h') = (Trying n e', h' @ [cmd])"
    if "\<not> succeeds (os_exec os h' (''git'' # args))" for n e h'
    using attempt_answered(2)[of ?c os h' n e] that by (simp add: cmd_def)
  show ?thesis
  proof (cases "succeeds (answer 0)")
    case True
    then obtain out where "answer 0 = Exec out" by (auto simp: succeeds_def)
    then show ?thesis using r(1) hit[of h out 2]
      by (intro exI[of _ "Inr out"] exI[of _ 1]) (simp add: unf numeral_eq_Suc call_result_def)
  next
    case f0: False
    obtain e0 where e0: "attempt os ?c (Trying 3 (Os []), h) = (Trying 2 e0, h @ [cmd])"
      using miss[of h 2] f0 r(1) by (auto simp: numeral_eq_Suc)
    show ?thesis
    proof (cases "succeeds (answer 1)")
      case True
      then obtain out where "answer 1 = Exec out" by (auto simp: succeeds_def)
      then show ?thesis using r(2) hit[of "h @ [cmd]" out 1 e0] f0 e0
        by (intro exI[of _ "Inr out"] exI[of _ 2]) (simp add: unf numeral_2_eq_2 call_result_def)
    next
      case f1: False
      obtain e1 where e1: "attempt os ?c (Trying 2 e0, h @ [cmd]) = (Trying 1 e1, h @ [cmd, cmd])"
        using miss[of "h @ [cmd]" 1 e0] f1 r(2) by (auto simp: numeral_2_eq_2)
      have small: "j < 2 \<longrightarrow> \<not> succeeds (answer j)" for j
        using f0 f1 by (cases "j = 0"; cases "j = 1") auto
      show ?thesis
      proof (cases "succeeds (answer 2)")
        case True
        then obtain out where "answer 2 = Exec out" by (auto simp: succeeds_def)
        then show ?thesis using r(3) hit[of "h @ [cmd, cmd]" out 0 e1] e0 e1 small
          by (intro exI[of _ "Inr out"] exI[of _ 3]) (simp add: unf numeral_3_eq_3 numeral_2_eq_2 call_result_def)
      next
        case f2: False
        obtain e2 where e2: "attempt os ?c (Trying 1 e1, h @ [cmd, cmd]) = (Trying 0 e2, h @ [cmd, cmd, cmd])"
          using miss[of "h @ [cmd, cmd]" 0 e1] f2 r(3) by auto
        then show ?thesis using e0 e1 f2 small
          by (intro exI[of _ "Inl (GaveUp program args e2)"] exI[of _ 3])
            (simp add: unf numeral_3_eq_3 call_result_def)
      qed
    qed
  qed
qed

definition flaky_outside :: outside where
  "flaky_outside = some_outside\<lparr>os_exec := \<lambda>h args. if h = [] then ExitError [] ''timeout'' else Exec ''ok''\<rparr>"

lemma callGitInternal_attempts_witness:
  "callGitInternal flaky_outside [] ''git'' [''fetch''] [] [] =
     (Inr ''ok'', [Run [''git'', ''fetch''] [] [], Run [''git'', ''fetch''] [] []])"
proof -
  let ?cmd = "Run [''git'', ''fetch''] [] []"
  obtain r k where k: "callGitInternal flaky_outside [] ''git'' [''fetch''] [] [] = (r, replicate k ?cmd)"
    "1 \<le> k" "\<forall>j < k - 1. \<not> succeeds (os_exec flaky_outside (replicate j ?cmd) [''git'', ''fetch''])"
    "case r of Inr out \<Rightarrow> os_exec flaky_outside (replicate (k - 1) ?cmd) [''git'', ''fetch''] = Exec out
     | Inl e \<Rightarrow> k = 3 \<and> \<not> succeeds (os_exec flaky_outside (replicate 2 ?cmd) [''git'', ''fetch''])"
    using callGitInternal_attempts[of flaky_outside "[]" "''git''" "[''fetch'']"]
    unfolding append_Nil by blast
  have answers: "os_exec flaky_outside h args = (if h = [] then ExitError [] ''timeout'' else Exec ''ok'')"
    for h args
    by (simp add: flaky_outside_def)
  have "k = 2"
  proof (rule ccontr)
    assume "k \<noteq> 2"
    then consider "k = 1" | "1 < k - 1" using k(2) by linarith
    then show False
      using k(3,4) by cases (auto simp: answers succeeds_def split: sum.splits)
  qed
  moreover from this k(4) have "r = Inr ''ok''" by (cases r) (auto simp: answers succeeds_def)
  ultimately show ?thesis using k(1) by (simp add: numeral_2_eq_2)
qed

section \<open>The head of the mirror\<close>

text \<open>Both calls succeed at their first attempt, in whatever order they are made.\<close>

definition par_ok :: "action set \<Rightarrow> history \<Rightarrow> string \<Rightarrow> string \<Rightarrow> par_state \<Rightarrow> bool" where
  "par_ok cmds h fetched listed p \<longleftrightarrow>
     pp_fetch p \<in> {Trying 3 (Os []), Done (Inr fetched)} \<and> pp_ls p \<in> {Trying 3 (Os []), Done (Inr listed)} \<and>
     pp_first p = None \<and> (\<exists>acts. pp_history p = h @ acts \<and> set acts \<subseteq> cmds)"

lemma par_ok_step:
  assumes "par_ok cmds h fetched listed p" "gc_password cf = []" "gc_password cl = []"
    and "\<And>h. os_exec os h (''git'' # gc_args cf) = Exec fetched"
    and "\<And>h. os_exec os h (''git'' # gc_args cl) = Exec listed"
    and "{Run (''git'' # gc_args cf) (gc_username cf) [], Run (''git'' # gc_args cl) (gc_username cl) []} \<subseteq> cmds"
  shows "par_ok cmds h fetched listed (par_step os cf cl b p) \<and>
    (if b then pp_fetch (par_step os cf cl b p) = Done (Inr fetched) \<and> pp_ls (par_step os cf cl b p) = pp_ls p
     else pp_ls (par_step os cf cl b p) = Done (Inr listed) \<and> pp_fetch (par_step os cf cl b p) = pp_fetch p)"
proof -
  have "attempt os cf (Trying 3 (Os []), h') = (Done (Inr fetched), h' @ [Run (''git'' # gc_args cf) (gc_username cf) []])"
    "attempt os cl (Trying 3 (Os []), h') = (Done (Inr listed), h' @ [Run (''git'' # gc_args cl) (gc_username cl) []])"
    for h'
    using attempt_answered(1)[of cf os h' fetched 2] attempt_answered(1)[of cl os h' listed 2] assms(2-5)
    by (simp_all add: numeral_3_eq_3 numeral_2_eq_2)
  then show ?thesis using assms(1,6) by (auto simp: par_ok_def par_step_def note_error_def)
qed

lemma run_par_ok:
  assumes "\<And>h. os_exec os h (''git'' # fetchArgs) = Exec fetched"
    and "\<And>h. os_exec os h (''git'' # lsArgs) = Exec listed"
  shows "\<exists>acts. run_par os sched h fetchArgs lsArgs [] [] = (None, Inr listed, h @ acts) \<and>
    set acts \<subseteq> {Run (''git'' # fetchArgs) [] [], Run (''git'' # lsArgs) [] []}"
proof -
  let ?cmds = "{Run (''git'' # fetchArgs) [] [], Run (''git'' # lsArgs) [] []}"
  let ?cf = "\<lparr>gc_program = ''git'', gc_args = fetchArgs, gc_username = [], gc_password = []\<rparr>"
  let ?cl = "\<lparr>gc_program = ''git'', gc_args = lsArgs, gc_username = [], gc_password = []\<rparr>"
  let ?p0 = "\<lparr>pp_fetch = Trying 3 (Os []), pp_ls = Trying 3 (Os []), pp_history = h, pp_first = None\<rparr>"
  note step = par_ok_step[of ?cmds h fetched listed _ ?cf ?cl os, simplified, OF _ assms]
  have ok: "par_ok ?cmds h fetched listed (fold (par_step os ?cf ?cl) bs p)"
    if "par_ok ?cmds h fetched listed p" for bs p
    using that by (induction bs arbitrary: p) (simp_all add: step)
  let ?p1 = "fold (par_step os ?cf ?cl) sched ?p0"
  let ?p2 = "fold (par_step os ?cf ?cl) (replicate 4 True) ?p1"
  let ?p3 = "fold (par_step os ?cf ?cl) (replicate 4 False) ?p2"
  have p1: "par_ok ?cmds h fetched listed ?p1" by (rule ok) (simp add: par_ok_def)
  have p2: "par_ok ?cmds h fetched listed ?p2" by (rule ok[OF p1])
  have p3: "par_ok ?cmds h fetched listed ?p3" by (rule ok[OF p2])
  have "?p3 = par_step os ?cf ?cl False (fold (par_step os ?cf ?cl) (replicate 3 False) ?p2)"
    by (simp add: numeral_eq_Suc)
  then have "pp_ls ?p3 = Done (Inr listed)" using step[OF ok[OF p2, of "replicate 3 False"], of False] by simp
  then have "run_par os sched h fetchArgs lsArgs [] [] = (None, Inr listed, pp_history ?p3)"
    using p3 by (simp add: run_par_def start_call_def note_error_def par_ok_def call_result_def)
  then show ?thesis using p3 by (auto simp: par_ok_def)
qed

lemma no_remote_head: "remoteHeadRefExtractorReg [] = None"
  by (simp add: ref_at_def)

text \<open>What \<^verbatim>\<open>git ls-remote --symref origin HEAD\<close> prints.\<close>

definition head_printed :: "string \<Rightarrow> string \<Rightarrow> string" where
  "head_printed b sha = (''ref: '' @ b @ TAB # ''HEAD'' @ NL # sha @ TAB # ''HEAD'') @ [NL]"

lemma graphic_not_ws: "graphic c \<Longrightarrow> \<not> is_ws c"
  by (auto simp: graphic_def is_ws_def)

lemma remote_head_printed:
  assumes "b \<noteq> []" "list_all graphic b"
  shows "remoteHeadRefExtractorReg (TrimSpace (head_printed b sha)) = Some b"
proof -
  let ?rest = "TAB # ''HEAD'' @ NL # sha @ TAB # ''HEAD''"
  have trim: "TrimSpace (head_printed b sha) = ''ref: '' @ b @ ?rest"
    unfolding head_printed_def by (rule TrimSpace_newline) (simp_all add: graphic_def)
  have ws: "\<forall>c \<in> set b. \<not> is_ws c" using assms(2) graphic_not_ws by (auto simp: list_all_iff)
  have "dropWhile is_ws (CHR '' '' # b @ ?rest) = b @ ?rest"
    using assms(1) ws by (cases b) (simp_all add: is_ws_def)
  moreover have "takeWhile (\<lambda>c. \<not> is_ws c) (b @ ?rest) = b"
    using ws by (simp add: is_ws_def)
  moreover have "ref_name_at (length b) (b @ ?rest) = Some b"
    by (subst ref_name_at.simps) (simp add: is_ws_def)
  ultimately have "ref_at (''ref: '' @ b @ ?rest) = Some b"
    by (simp add: ref_at_def Let_def)
  then show ?thesis unfolding trim by simp
qed

definition set_head :: "RepoSpec \<Rightarrow> string \<Rightarrow> string list" where
  "set_head r b = [''git'', ''--git-dir'', rs_Path r, ''symbolic-ref'', ''HEAD'', b]"


definition some_mirror :: RepoSpec where
  "some_mirror = \<lparr>rs_Path = ''/m'', rs_Name = ''m'', rs_Remote = Some ''u'', rs_CloneOptions = None\<rparr>"

definition moved_outside :: outside where
  "moved_outside = some_outside\<lparr>os_exec := \<lambda>h args.
     if ''--is-bare-repository'' \<in> set args then Exec (''true'' @ [NL])
     else if ''ls-remote'' \<in> set args then Exec (head_printed ''refs/heads/main'' ''abc'')
     else if args = [''git'', ''--git-dir'', ''/m'', ''symbolic-ref'', ''HEAD''] then Exec (''refs/heads/old'' @ [NL])
     else Exec []\<rparr>"


end
