(* ===== verification/GithubReindex.thy ===== *)
theory GithubReindex
  imports GithubLoad GoFlags FetchReindex
begin

text \<open>
  \<^verbatim>\<open>cmd/livegrep-github-reindex\<close>: the repositories that GitHub lists are filtered, sorted and
  written into a configuration, with which \<^verbatim>\<open>livegrep-fetch-reindex\<close> is run. The client of the
  GitHub API is a parameter; the goroutines that use it are those of GithubLoad.
\<close>

section \<open>Flags\<close>

text \<open>\<^verbatim>\<open>flags.go\<close>: a flag that may be given many times, and one whose default is computed.\<close>

definition stringList_Set :: "string list \<Rightarrow> string \<Rightarrow> string list" where
  "stringList_Set ss str = ss @ [str]"

definition stringList_String :: "string list \<Rightarrow> string" where
  "stringList_String ss = join '', '' ss"

record dynamicDefault =
  dd_val :: string
  dd_display :: string
  dd_fn :: "unit \<Rightarrow> string"

definition dynamicDefault_String :: "dynamicDefault \<Rightarrow> string" where
  "dynamicDefault_String d = (if dd_val d \<noteq> [] then dd_val d else dd_display d)"

definition dynamicDefault_Get :: "dynamicDefault \<Rightarrow> string" where
  "dynamicDefault_Get d = (if dd_val d \<noteq> [] then dd_val d else dd_fn d ())"

definition dynamicDefault_Set :: "dynamicDefault \<Rightarrow> string \<Rightarrow> dynamicDefault" where
  "dynamicDefault_Set d str = d\<lparr>dd_val := str\<rparr>"

record github_flags =
  gf_codesearch :: string
  gf_fetch_reindex :: string
  gf_api_base_url :: string
  gf_github_key :: string
  gf_dir :: string
  gf_ignorelist :: string
  gf_blacklist :: string
  gf_out :: dynamicDefault
  gf_revision :: string
  gf_url_pattern :: string
  gf_name :: string
  gf_num_workers :: string
  gf_revparse :: bool
  gf_forks :: bool
  gf_archived :: bool
  gf_http :: bool
  gf_http_user :: string
  gf_installation :: bool
  gf_depth :: int
  gf_skip_missing :: bool
  gf_max_concurrent :: nat
  gf_no_index :: bool
  gf_only_write_config :: bool
  gf_repos :: "string list"
  gf_orgs :: "string list"
  gf_users :: "string list"

text \<open>The default of \<^verbatim>\<open>-out\<close> follows the directory.\<close>

definition default_index :: "string \<Rightarrow> dynamicDefault" where
  "default_index dir = \<lparr>dd_val = [], dd_display = ''${dir}/livegrep.idx'',
     dd_fn = (\<lambda>_. path_Join [dir, ''livegrep.idx''])\<rparr>"

section \<open>Repositories\<close>

text \<open>What GitHub tells about a repository; every field is a pointer.\<close>

record Repository =
  gr_FullName :: "string option"
  gr_Fork :: "bool option"
  gr_Archived :: "bool option"
  gr_CloneURL :: "string option"
  gr_SSHURL :: "string option"
  gr_HTMLURL :: "string option"

definition deref :: "'a option \<Rightarrow> ('e, 'a) res" where
  "deref p = (case p of None \<Rightarrow> Inl (Panic NilDereference) | Some v \<Rightarrow> Inr v)"

lemma deref_simps [simp]: "deref (Some v) = Inr v" "deref None = Inl (Panic NilDereference)"
  by (simp_all add: deref_def)

lemma deref_Inr [simp]: "deref p = Inr v \<longleftrightarrow> p = Some v"
  by (auto simp: deref_def split: option.splits)

definition loadIgnorelist :: "string + string \<Rightarrow> string + string set" where
  "loadIgnorelist contents = (case contents of Inl err \<Rightarrow> Inl err | Inr data \<Rightarrow> Inr (set (split_on NL data)))"

text \<open>Whether a repository is kept. A name is read only where it is logged or looked up.\<close>

definition keep_repo :: "string set option \<Rightarrow> bool \<Rightarrow> bool \<Rightarrow> Repository \<Rightarrow> ('e, bool) res" where
  "keep_repo ignorelist excludeForks excludeArchived r =
     (if excludeForks \<and> gr_Fork r = Some True then bind_res (deref (gr_FullName r)) (\<lambda>_. Inr False)
      else if excludeArchived \<and> gr_Archived r = Some True then bind_res (deref (gr_FullName r)) (\<lambda>_. Inr False)
      else case ignorelist of
          None \<Rightarrow> Inr True
        | Some ignored \<Rightarrow> bind_res (deref (gr_FullName r)) (\<lambda>name. Inr (name \<notin> ignored)))"

fun filterRepos :: "Repository list \<Rightarrow> string set option \<Rightarrow> bool \<Rightarrow> bool \<Rightarrow> ('e, Repository list) res" where
  "filterRepos [] ignorelist excludeForks excludeArchived = Inr []"
| "filterRepos (r # rs) ignorelist excludeForks excludeArchived =
     bind_res (keep_repo ignorelist excludeForks excludeArchived r) (\<lambda>keep.
     bind_res (filterRepos rs ignorelist excludeForks excludeArchived) (\<lambda>out.
       Inr (if keep then r # out else out)))"

definition full_name_of :: "Repository \<Rightarrow> string" where
  "full_name_of r = (case gr_FullName r of None \<Rightarrow> [] | Some name \<Rightarrow> name)"

definition ReposByName_Less :: "Repository \<Rightarrow> Repository \<Rightarrow> bool" where
  "ReposByName_Less a b = bytes_less (full_name_of a) (full_name_of b)"

text \<open>A sort of two elements or more compares each of them with another one.\<close>

definition sort_repos ::
    "(Repository list \<Rightarrow> Repository list) \<Rightarrow> Repository list \<Rightarrow> ('e, Repository list) res" where
  "sort_repos arr repos =
     (if 2 \<le> length repos \<and> list_ex (\<lambda>r. gr_FullName r = None) repos then Inl (Panic NilDereference)
      else Inr (sort_slice arr ReposByName_Less repos))"

section \<open>The configuration\<close>

text \<open>The fields of \<^verbatim>\<open>config.RepoSpec\<close> that only the indexer reads extend the record of FetchReindex.\<close>

record github_spec = RepoSpec +
  gs_Revisions :: "string list"
  gs_Github :: string
  gs_UrlPattern :: string

text \<open>\<open>verify\<close> tells whether a git command succeeds.\<close>

definition rev_parse_args :: "string \<Rightarrow> string \<Rightarrow> string \<Rightarrow> string list" where
  "rev_parse_args dir name revision =
     [''git'', ''--git-dir'', path_Join [dir, name], ''rev-parse'', ''--verify'', revision]"

definition spec_of :: "github_flags \<Rightarrow> string \<Rightarrow> string \<Rightarrow> Repository \<Rightarrow> string \<Rightarrow> ('e, github_spec) res" where
  "spec_of fl dir revision r name =
     bind_res (deref (if gf_http fl then gr_CloneURL r else gr_SSHURL r)) (\<lambda>remote.
     bind_res (deref (gr_HTMLURL r)) (\<lambda>html.
       Inr \<lparr>rs_Path = path_Join [dir, name], rs_Name = name, rs_Remote = Some remote,
            rs_CloneOptions = Some \<lparr>clo_Depth = sint (word_of_int (gf_depth fl) :: 32 word),
              clo_Username = gf_http_user fl,
              clo_PasswordEnv = (if gf_github_key fl \<noteq> [] then ''GITHUB_KEY'' else [])\<rparr>,
            gs_Revisions = [revision], gs_Github = html, gs_UrlPattern = gf_url_pattern fl\<rparr>))"

fun buildConfig ::
    "(string list \<Rightarrow> bool) \<Rightarrow> github_flags \<Rightarrow> string \<Rightarrow> string \<Rightarrow> Repository list \<Rightarrow> ('e, github_spec list) res" where
  "buildConfig verify fl dir revision [] = Inr []"
| "buildConfig verify fl dir revision (r # rs) =
     bind_res (deref (gr_FullName r)) (\<lambda>name.
       if gf_skip_missing fl \<and> \<not> verify (rev_parse_args dir name revision) then
         buildConfig verify fl dir revision rs
       else
         bind_res (spec_of fl dir revision r name) (\<lambda>spec.
         bind_res (buildConfig verify fl dir revision rs) (\<lambda>specs. Inr (spec # specs))))"

definition github_config ::
    "(string list \<Rightarrow> bool) \<Rightarrow> (Repository list \<Rightarrow> Repository list) \<Rightarrow> github_flags \<Rightarrow> string set option
     \<Rightarrow> Repository list \<Rightarrow> ('e, github_spec list) res" where
  "github_config verify arr fl ignorelist repos =
     bind_res (filterRepos repos ignorelist (\<not> gf_forks fl) (\<not> gf_archived fl)) (\<lambda>kept.
     bind_res (sort_repos arr kept) (\<lambda>sorted.
       buildConfig verify fl (gf_dir fl) (gf_revision fl) sorted))"

section \<open>Asking GitHub\<close>

datatype job = OneRepo string | Organization string | Account string

text \<open>
  The client. A list is asked for by page, the first time without a number, here 0; an answer
  tells the number of the first and of the last page, or 0 where GitHub does not.
\<close>

record client =
  gh_Get :: "string \<Rightarrow> string \<Rightarrow> string + Repository"
  gh_ListByOrg :: "string \<Rightarrow> nat \<Rightarrow> string + (Repository list \<times> nat \<times> nat)"
  gh_List :: "string \<Rightarrow> nat \<Rightarrow> string + (Repository list \<times> nat \<times> nat)"

definition getOneRepo :: "client \<Rightarrow> string \<Rightarrow> (string, Repository list) res" where
  "getOneRepo gh repo =
     (case splitn_on 2 CHR ''/'' repo of
        [owner, name] \<Rightarrow> (case gh_Get gh owner name of Inl err \<Rightarrow> Inl (Error err) | Inr r \<Rightarrow> Inr [r])
      | _ \<Rightarrow> Inl (Error (''Bad repository: '' @ repo)))"

definition as_res :: "'e + 'a \<Rightarrow> ('e, 'a) res" where
  "as_res x = (case x of Inl e \<Rightarrow> Inl (Error e) | Inr a \<Rightarrow> Inr a)"

definition page_answer :: "(nat \<Rightarrow> string + (Repository list \<times> nat \<times> nat)) \<Rightarrow> nat \<Rightarrow> string + Repository list" where
  "page_answer listing p = (case listing p of Inl err \<Rightarrow> Inl err | Inr (repos, _) \<Rightarrow> Inr repos)"

text \<open>
  What a list can be read as: \<^verbatim>\<open>callGitHubConcurrently\<close> runs several goroutines. A last page of
  0, though not the first, would leave no room for the result that is there already.
\<close>

definition list_repos ::
    "nat \<Rightarrow> (nat \<Rightarrow> string + (Repository list \<times> nat \<times> nat)) \<Rightarrow> (string, Repository list) res \<Rightarrow> bool" where
  "list_repos limit listing x \<longleftrightarrow>
     (case listing 0 of
        Inl err \<Rightarrow> x = Inl (Error err)
      | Inr (repos, firstPage, lastPage) \<Rightarrow>
          if firstPage = lastPage then x = Inr repos
          else if lastPage = 0 then x = Inl (Panic IndexOutOfRange)
          else (\<exists>s y. pages_reach limit (page_answer listing) (lastPage - 1) repos s \<and>
                  pg_main s = Read y \<and> x = as_res y))"

definition getOrgRepos :: "nat \<Rightarrow> client \<Rightarrow> string \<Rightarrow> (string, Repository list) res \<Rightarrow> bool" where
  "getOrgRepos limit gh org = list_repos limit (gh_ListByOrg gh org)"

definition getUserRepos :: "nat \<Rightarrow> client \<Rightarrow> string \<Rightarrow> (string, Repository list) res \<Rightarrow> bool" where
  "getUserRepos limit gh user = list_repos limit (gh_List gh user)"

definition get_job :: "nat \<Rightarrow> client \<Rightarrow> job \<Rightarrow> (string, Repository list) res \<Rightarrow> bool" where
  "get_job limit gh j x =
     (case j of
        OneRepo repo \<Rightarrow> x = getOneRepo gh repo
      | Organization org \<Rightarrow> getOrgRepos limit gh org x
      | Account user \<Rightarrow> getUserRepos limit gh user x)"

definition jobs_of :: "string list \<Rightarrow> string list \<Rightarrow> string list \<Rightarrow> job list" where
  "jobs_of repos orgs users = map OneRepo repos @ map Organization orgs @ map Account users"

section \<open>The whole program\<close>

datatype github_action =
    MakeDir string
  | WriteConfig string string "github_spec list"
  | RunFetch "string list"

definition github_checks :: "github_flags \<Rightarrow> string + github_flags" where
  "github_checks fl =
     (if gf_blacklist fl \<noteq> [] then
        Inl ''This flag has been deprecated and will be removed in a future release. Please switch to the '-ignorelist' option.''
      else if gf_repos fl = [] \<and> gf_orgs fl = [] \<and> gf_users fl = [] then
        Inl ''You must specify at least one repo or organization to index''
      else if gf_installation fl then
        (if gf_github_key fl = [] then
           Inl ''-installation-key requires passing a github key, via either -github-key or $GITHUB_KEY''
         else Inr (fl\<lparr>gf_http := True, gf_http_user := ''x-access-token''\<rparr>))
      else Inr fl)"

text \<open>\<open>parse_url\<close> is \<^verbatim>\<open>url.Parse\<close>, of which only the error matters here.\<close>

definition check_base_url :: "(string \<Rightarrow> string option) \<Rightarrow> string \<Rightarrow> string option" where
  "check_base_url parse_url base =
     (if base = [] then None
      else if \<not> HasSuffix base ''/'' then Some (''API base URL must include trailing slash: '' @ base)
      else map_option (\<lambda>err. ''parsing base url '' @ base @ '': '' @ err) (parse_url base))"

definition fetch_args :: "github_flags \<Rightarrow> string \<Rightarrow> string list" where
  "fetch_args fl configPath =
     [''--out'', dynamicDefault_Get (gf_out fl), ''--codesearch'', gf_codesearch fl,
      ''--num-workers'', gf_num_workers fl] @
     (if gf_no_index fl then [''--no-index''] else []) @
     (if gf_revparse fl then [''--revparse''] else []) @
     (if gf_skip_missing fl then [''--skip-missing''] else []) @ [configPath]"

definition fetch_program :: "(string \<Rightarrow> bool) \<Rightarrow> string \<Rightarrow> github_flags \<Rightarrow> string" where
  "fetch_program isFile arg0 fl =
     (if gf_fetch_reindex fl = [] then findBinary isFile arg0 ''livegrep-fetch-reindex'' else gf_fetch_reindex fl)"

text \<open>Every action may fail with a message, which ends the program.\<close>

definition act ::
    "(github_action \<Rightarrow> string option) \<Rightarrow> github_action \<Rightarrow> string \<Rightarrow> github_action list
     \<Rightarrow> (github_action list \<Rightarrow> (string, unit) res \<times> github_action list) \<Rightarrow> (string, unit) res \<times> github_action list" where
  "act perform a prefix_text h k =
     (case perform a of
        Some err \<Rightarrow> (Inl (Error (prefix_text @ err)), h @ [a])
      | None \<Rightarrow> k (h @ [a]))"

definition writeConfig ::
    "(github_action \<Rightarrow> string option) \<Rightarrow> string \<Rightarrow> github_spec list \<Rightarrow> string \<Rightarrow> github_action list
     \<Rightarrow> (github_action list \<Rightarrow> (string, unit) res \<times> github_action list) \<Rightarrow> (string, unit) res \<times> github_action list" where
  "writeConfig perform name specs path h k =
     act perform (MakeDir (path_Dir path)) [] h (\<lambda>h. act perform (WriteConfig path name specs) [] h k)"

text \<open>What follows once the repositories are loaded.\<close>

definition github_run ::
    "(string list \<Rightarrow> bool) \<Rightarrow> (Repository list \<Rightarrow> Repository list) \<Rightarrow> (string \<Rightarrow> bool) \<Rightarrow> string
     \<Rightarrow> (github_action \<Rightarrow> string option) \<Rightarrow> github_flags \<Rightarrow> string set option \<Rightarrow> Repository list
     \<Rightarrow> (string, unit) res \<times> github_action list" where
  "github_run verify arr isFile arg0 perform fl ignorelist repos =
     (case github_config verify arr fl ignorelist repos of
        Inl e \<Rightarrow> (Inl e, [])
      | Inr specs \<Rightarrow>
          (let configPath = path_Join [gf_dir fl, ''livegrep.json''] in
           writeConfig perform (gf_name fl) specs configPath [] (\<lambda>h.
             if gf_only_write_config fl then (Inr (), h)
             else act perform (RunFetch (fetch_program isFile arg0 fl # fetch_args fl configPath))
                    ''livegrep-fetch-reindex: '' h (\<lambda>h. (Inr (), h)))))"

text \<open>\<open>loaded\<close> is what \<^verbatim>\<open>loadRepos\<close> returns for its jobs.\<close>

definition github_main ::
    "(string \<Rightarrow> string + string) \<Rightarrow> (string \<Rightarrow> string option) \<Rightarrow> (job list \<Rightarrow> string + Repository list)
     \<Rightarrow> (string list \<Rightarrow> bool) \<Rightarrow> (Repository list \<Rightarrow> Repository list) \<Rightarrow> (string \<Rightarrow> bool) \<Rightarrow> string
     \<Rightarrow> (github_action \<Rightarrow> string option) \<Rightarrow> github_flags \<Rightarrow> (string, unit) res \<times> github_action list" where
  "github_main read_file parse_url loaded verify arr isFile arg0 perform fl0 =
     (case github_checks fl0 of
        Inl msg \<Rightarrow> (Inl (Error msg), [])
      | Inr fl \<Rightarrow>
          (case (if gf_ignorelist fl = [] then Inr None
                 else map_sum id Some (loadIgnorelist (read_file (gf_ignorelist fl)))) of
             Inl err \<Rightarrow> (Inl (Error (''loading '' @ gf_ignorelist fl @ '': '' @ err)), [])
           | Inr ignorelist \<Rightarrow>
               (case check_base_url parse_url (gf_api_base_url fl) of
                  Some msg \<Rightarrow> (Inl (Error msg), [])
                | None \<Rightarrow>
                    (case loaded (jobs_of (gf_repos fl) (gf_orgs fl) (gf_users fl)) of
                       Inl err \<Rightarrow> (Inl (Error err), [])
                     | Inr repos \<Rightarrow> github_run verify arr isFile arg0 perform fl ignorelist repos))))"

section \<open>What GitHub is asked\<close>

definition all_pages :: "(nat \<Rightarrow> string + (Repository list \<times> nat \<times> nat)) \<Rightarrow> nat \<Rightarrow> Repository list" where
  "all_pages listing lastPage =
     concat (map (\<lambda>p. case listing p of Inr (repos, _) \<Rightarrow> repos | Inl _ \<Rightarrow> []) (0 # [2..<lastPage + 1]))"

text \<open>
  Where GitHub answers, the repositories of an organization or a user are those of all its
  pages in the order of the pages, however the calls run side by side; there is always a result,
  and no other.
\<close>

theorem getOrgRepos_all_pages:
  assumes "0 < limit" "gh_ListByOrg gh org 0 = Inr (repos, firstPage, lastPage)"
    and "firstPage = lastPage \<longrightarrow> lastPage \<le> 1" "firstPage \<noteq> lastPage \<longrightarrow> 2 \<le> lastPage"
    and "\<forall>p. 2 \<le> p \<and> p \<le> lastPage \<longrightarrow> (\<exists>a. gh_ListByOrg gh org p = Inr a)"
  shows "getOrgRepos limit gh org x \<longleftrightarrow> x = Inr (all_pages (gh_ListByOrg gh org) lastPage)"
proof (cases "firstPage = lastPage")
  case True
  then show ?thesis using assms(2,3) by (simp add: getOrgRepos_def list_repos_def all_pages_def)
next
  case False
  let ?answer = "page_answer (gh_ListByOrg gh org)"
  let ?page = "\<lambda>p. case gh_ListByOrg gh org p of Inr (rs, _) \<Rightarrow> rs | Inl _ \<Rightarrow> []"
  have n: "lastPage - 1 + 1 = lastPage" "lastPage - 1 + 2 = lastPage + 1" "lastPage \<noteq> 0"
    using assms(4) False by simp_all
  have "\<forall>p. 2 \<le> p \<and> p \<le> lastPage - 1 + 1 \<longrightarrow> ?answer p = Inr (?page p)"
    using assms(5) unfolding n by (auto simp: page_answer_def split: sum.split)
  note read = pages_all_read[OF assms(1) this, of repos, unfolded n]
  have "getOrgRepos limit gh org x \<longleftrightarrow>
      (\<exists>y. (\<exists>s. pages_reach limit ?answer (lastPage - 1) repos s \<and> pg_main s = Read y) \<and> x = as_res y)"
    using False n(3) assms(2) unfolding getOrgRepos_def list_repos_def by auto
  then show ?thesis
    unfolding read by (simp add: as_res_def all_pages_def assms(2) del: upt_Suc)
qed

definition repository :: "string \<Rightarrow> Repository" where
  "repository name = \<lparr>gr_FullName = Some name, gr_Fork = None, gr_Archived = Some False,
     gr_CloneURL = Some (''https://h/'' @ name), gr_SSHURL = Some (''git@h:'' @ name),
     gr_HTMLURL = Some (''https://h/'' @ name)\<rparr>"

definition some_client :: client where
  "some_client = \<lparr>gh_Get = (\<lambda>owner name. Inr (repository (owner @ CHR ''/'' # name))),
     gh_ListByOrg = (\<lambda>org p. Inr ([repository (org @ ''/'' @ (if p = 0 then ''a'' else ''b''))], 0, 2)),
     gh_List = (\<lambda>user p. Inl ''404'')\<rparr>"

lemma getOrgRepos_all_pages_witness:
  "{x. getOrgRepos 1 some_client ''o'' x} = {Inr [repository ''o/a'', repository ''o/b'']}"
  using getOrgRepos_all_pages[of 1 some_client "''o''" "[repository ''o/a'']" 0 2]
  by (simp add: some_client_def all_pages_def upt_rec)

section \<open>Filtering and sorting\<close>

definition kept :: "string set option \<Rightarrow> bool \<Rightarrow> bool \<Rightarrow> Repository \<Rightarrow> bool" where
  "kept ignorelist excludeForks excludeArchived r \<longleftrightarrow>
     \<not> (excludeForks \<and> gr_Fork r = Some True) \<and> \<not> (excludeArchived \<and> gr_Archived r = Some True) \<and>
     (\<forall>ignored. ignorelist = Some ignored \<longrightarrow> full_name_of r \<notin> ignored)"

definition no_name_read :: "string set option \<Rightarrow> bool \<Rightarrow> bool \<Rightarrow> Repository \<Rightarrow> bool" where
  "no_name_read ignorelist excludeForks excludeArchived r \<longleftrightarrow> gr_FullName r = None \<and>
     (excludeForks \<and> gr_Fork r = Some True \<or> excludeArchived \<and> gr_Archived r = Some True \<or> ignorelist \<noteq> None)"

lemma keep_repo_eq:
  "(keep_repo ignorelist forks archived r :: ('e, bool) res) =
     (if no_name_read ignorelist forks archived r then Inl (Panic NilDereference)
      else Inr (kept ignorelist forks archived r))"
  by (cases "gr_FullName r"; cases ignorelist)
    (auto simp: keep_repo_def no_name_read_def kept_def full_name_of_def res_simps)

lemma filterRepos_eq:
  "(filterRepos rs ignorelist forks archived :: ('e, Repository list) res) =
     (if list_ex (no_name_read ignorelist forks archived) rs then Inl (Panic NilDereference)
      else Inr (filter (kept ignorelist forks archived) rs))"
  by (induction rs) (auto simp: keep_repo_eq res_simps)

interpretation by_name: less_order ReposByName_Less
  by unfold_locales (auto simp: ReposByName_Less_def dest: bytes_less_asym bytes_not_less_trans)

lemma sort_repos_unique:
  assumes "rearranges arr" "rearranges arr'" "mset xs = mset ys"
    and "\<And>a b. a \<in> set xs \<Longrightarrow> b \<in> set xs \<Longrightarrow> full_name_of a = full_name_of b \<Longrightarrow> a = b"
  shows "sort_repos arr xs = sort_repos arr' ys"
proof -
  have "length xs = length ys" "set xs = set ys" using assms(3) by (metis size_mset) (metis assms(3) mset_eq_setD)
  moreover have "sort_slice arr ReposByName_Less xs = sort_slice arr' ReposByName_Less ys"
    by (rule by_name.sort_slice_unique[OF assms(1-3)])
      (use assms(4) bytes_less_linear in \<open>auto simp: ReposByName_Less_def\<close>)
  ultimately show ?thesis by (simp add: sort_repos_def list_ex_iff)
qed

text \<open>The configuration does not depend on how the repositories came in.\<close>

lemma github_config_unique:
  assumes "rearranges arr" "rearranges arr'" "mset xs = mset ys"
    and "\<And>a b. a \<in> set xs \<Longrightarrow> b \<in> set xs \<Longrightarrow> full_name_of a = full_name_of b \<Longrightarrow> a = b"
  shows "(github_config verify arr fl ignorelist xs :: ('e, github_spec list) res) =
    github_config verify arr' fl ignorelist ys"
proof -
  have set: "set xs = set ys" using assms(3) by (metis mset_eq_setD)
  have "mset (filter P xs) = mset (filter P ys)" for P using assms(3) by (simp add: mset_filter)
  then have "(sort_repos arr (filter P xs) :: ('e, Repository list) res) = sort_repos arr' (filter P ys)" for P
    by (rule sort_repos_unique[OF assms(1,2)]) (use assms(4) in auto)
  then show ?thesis by (simp add: github_config_def filterRepos_eq list_ex_iff set res_simps)
qed

text \<open>
  C10. The configuration that is written does not depend on which goroutine answers first, nor
  on the sort: any two runs that load the repositories give the same one, as long as GitHub
  does not tell two different things under one name.
\<close>

theorem github_config_deterministic:
  assumes "load_reach Workers outcome jobs s" "ld_main s = Loaded (Inr xs)"
    and "load_reach Workers outcome jobs s'" "ld_main s' = Loaded (Inr ys)"
    and "rearranges arr" "rearranges arr'"
    and "\<And>a b. a \<in> set xs \<Longrightarrow> b \<in> set xs \<Longrightarrow> full_name_of a = full_name_of b \<Longrightarrow> a = b"
  shows "github_config verify arr fl ignorelist xs = github_config verify arr' fl ignorelist ys"
proof -
  have "mset xs = mset ys"
    using load_result_reached[OF assms(1,2)] load_result_reached[OF assms(3,4)] by (simp add: load_result_def)
  then show ?thesis by (rule github_config_unique[OF assms(5,6)]) (rule assms(7))
qed

lemma github_config_deterministic_witness:
  "\<exists>s xs. load_reach Workers (\<lambda>j. Inr [repository j] :: string + Repository list) [''o/b'', ''o/a''] s \<and>
    ld_main s = Loaded (Inr xs) \<and>
    (\<forall>fl. (github_config (\<lambda>_. True) rev fl None xs :: (string, github_spec list) res) =
      github_config (\<lambda>_. True) (\<lambda>rs. rs) fl None xs)"
proof -
  let ?outcome = "\<lambda>j. Inr [repository j] :: string + Repository list"
  let ?jobs = "[''o/b'', ''o/a'']"
  obtain s x where s: "load_reach Workers ?outcome ?jobs s" "ld_main s = Loaded x"
    using loadRepos_loaded[of ?outcome ?jobs] by blast
  then have x: "load_result ?outcome ?jobs x" by (rule load_result_reached)
  then obtain xs where xs: "x = Inr xs" by (cases x) (auto simp: load_result_def)
  have "mset xs = {#repository ''o/b'', repository ''o/a''#}"
    using x xs by (simp add: load_result_def yield_of_def)
  then have elems: "set xs = {repository ''o/b'', repository ''o/a''}"
    by (metis set_mset_mset set_mset_add_mset_insert set_mset_empty)
  have name: "full_name_of (repository n) = n" for n by (simp add: full_name_of_def repository_def)
  have distinct: "a = b" if ab: "a \<in> set xs" "b \<in> set xs" "full_name_of a = full_name_of b" for a b
  proof -
    obtain m n where mn: "a = repository m" "b = repository n" using ab(1,2) elems by blast
    show ?thesis using ab(3) by (simp add: mn name)
  qed
  have main: "ld_main s = Loaded (Inr xs)" using s(2) xs by simp
  have "(github_config (\<lambda>_. True) rev fl None xs :: (string, github_spec list) res) =
      github_config (\<lambda>_. True) (\<lambda>rs. rs) fl None xs" for fl
    using github_config_deterministic[OF s(1) main s(1) main rearranges_rev rearranges_id distinct] .
  then show ?thesis using s(1) main by blast
qed

section \<open>What the configuration lists\<close>

definition wanted :: "(string list \<Rightarrow> bool) \<Rightarrow> github_flags \<Rightarrow> Repository \<Rightarrow> bool" where
  "wanted verify fl r \<longleftrightarrow> \<not> (gf_skip_missing fl \<and>
     \<not> verify (rev_parse_args (gf_dir fl) (full_name_of r) (gf_revision fl)))"

lemma buildConfig_specs:
  "(buildConfig verify fl (gf_dir fl) (gf_revision fl) rs :: ('e, github_spec list) res) = Inr specs \<Longrightarrow>
    list_all2 (\<lambda>r s. gr_FullName r = Some (rs_Name s) \<and> spec_of fl (gf_dir fl) (gf_revision fl) r (rs_Name s) = (Inr s :: ('e, github_spec) res))
      (filter (wanted verify fl) rs) specs"
proof (induction rs arbitrary: specs)
  case (Cons r rs)
  have name: "rs_Name s = n" if "spec_of fl d rv r n = (Inr s :: ('e, github_spec) res)" for s d rv n
    using that by (auto simp: spec_of_def res_simps)
  show ?case
    using Cons by (auto simp: res_simps wanted_def full_name_of_def dest: name split: if_splits)
qed simp

lemma github_config_names:
  assumes "(github_config verify arr fl ignorelist repos :: ('e, github_spec list) res) = Inr specs"
    and "rearranges arr"
  shows "sorted_wrt (\<lambda>a b. \<not> bytes_less b a) (map rs_Name specs) \<and>
    mset (map rs_Name specs) = mset (map full_name_of
      (filter (\<lambda>r. kept ignorelist (\<not> gf_forks fl) (\<not> gf_archived fl) r \<and> wanted verify fl r) repos))"
proof -
  let ?kept = "filter (kept ignorelist (\<not> gf_forks fl) (\<not> gf_archived fl)) repos"
  let ?sorted = "sort_slice arr ReposByName_Less ?kept"
  have "(buildConfig verify fl (gf_dir fl) (gf_revision fl) ?sorted :: ('e, github_spec list) res) = Inr specs"
    using assms(1) by (auto simp: github_config_def filterRepos_eq sort_repos_def res_simps split: if_splits)
  note specs = buildConfig_specs[OF this]
  have names: "map rs_Name specs = map full_name_of (filter (wanted verify fl) ?sorted)"
    using specs by (induction rule: list_all2_induct) (simp_all add: full_name_of_def)
  have "sorted_wrt (\<lambda>a b. \<not> bytes_less (full_name_of b) (full_name_of a)) ?sorted"
    using by_name.ordered_sort_slice[of arr ?kept] by (simp add: by_name.ordered_def ReposByName_Less_def)
  then have "sorted_wrt (\<lambda>a b. \<not> bytes_less b a) (map rs_Name specs)"
    unfolding names sorted_wrt_map by (rule sorted_wrt_filter)
  moreover have "filter_mset w (filter_mset k M) = filter_mset (\<lambda>r. k r \<and> w r) M" for w k and M :: "Repository multiset"
    by (induction M) auto
  then have "mset (filter (wanted verify fl) ?sorted) =
      mset (filter (\<lambda>r. kept ignorelist (\<not> gf_forks fl) (\<not> gf_archived fl) r \<and> wanted verify fl r) repos)"
    by (simp add: mset_filter mset_sort_slice[OF assms(2)])
  ultimately show ?thesis unfolding names by (simp only: mset_map simp_thms)
qed

text \<open>
  C14. The configuration lists, by name, exactly the repositories GitHub told about that are not
  filtered out, each as often as it was told; with \<^verbatim>\<open>-skip-missing\<close> one whose mirror does not
  exist yet is left out as well, since git is asked before anything is cloned.
\<close>

theorem github_config_lists:
  assumes "(github_config verify arr fl ignorelist repos :: ('e, github_spec list) res) = Inr specs"
    and "rearranges arr"
  shows "sorted_wrt (\<lambda>a b. \<not> bytes_less b a) (map rs_Name specs) \<and>
    mset (map rs_Name specs) = mset (map full_name_of
      (filter (\<lambda>r. kept ignorelist (\<not> gf_forks fl) (\<not> gf_archived fl) r \<and> wanted verify fl r) repos))"
  using assms by (rule github_config_names)

definition some_github :: github_flags where
  "some_github = \<lparr>gf_codesearch = [], gf_fetch_reindex = [], gf_api_base_url = ''https://h/'',
     gf_github_key = [], gf_dir = ''repos'', gf_ignorelist = [], gf_blacklist = [],
     gf_out = default_index ''repos'', gf_revision = ''HEAD'', gf_url_pattern = [], gf_name = ''n'',
     gf_num_workers = ''8'', gf_revparse = True, gf_forks = True, gf_archived = False, gf_http = False,
     gf_http_user = ''git'', gf_installation = False, gf_depth = 0, gf_skip_missing = False,
     gf_max_concurrent = 1, gf_no_index = False, gf_only_write_config = False,
     gf_repos = [''o/a''], gf_orgs = [], gf_users = []\<rparr>"

lemma github_config_lists_witness:
  "\<exists>specs. (github_config (\<lambda>_. True) rev some_github (Some {''o/x''})
       [repository ''o/b'', repository ''o/x'', repository ''o/a'', repository ''o/a''] :: (string, github_spec list) res) = Inr specs \<and>
     mset (map rs_Name specs) = {#''o/a'', ''o/a'', ''o/b''#}"
proof -
  let ?repos = "[repository ''o/b'', repository ''o/x'', repository ''o/a'', repository ''o/a'']"
  have "(github_config (\<lambda>_. True) rev some_github (Some {''o/x''}) ?repos :: (string, github_spec list) res) \<noteq> Inl e" for e
    by (simp add: github_config_def filterRepos_eq no_name_read_def kept_def full_name_of_def repository_def
        some_github_def sort_repos_def sort_slice_def sort_less_def ReposByName_Less_def spec_of_def res_simps)
  then obtain specs where specs: "(github_config (\<lambda>_. True) rev some_github (Some {''o/x''}) ?repos :: (string, github_spec list) res) = Inr specs"
    by (metis sum.exhaust)
  show ?thesis
    using github_config_lists[OF specs rearranges_rev] specs
    by (simp add: kept_def full_name_of_def repository_def some_github_def wanted_def)
qed

section \<open>What is handed to the next program\<close>

text \<open>The flags of \<^verbatim>\<open>livegrep-fetch-reindex\<close>, and what it reads from its command line.\<close>

definition fetch_kinds :: flag_set where
  "fetch_kinds = map_of
     [(''codesearch'', ValueFlag), (''out'', ValueFlag), (''revparse'', BoolFlag), (''skip-missing'', BoolFlag),
      (''reload-backend'', ValueFlag), (''num-workers'', ValueFlag), (''no-index'', BoolFlag),
      (''metrics-out'', ValueFlag), (''send-metrics-to-statsd'', BoolFlag), (''statsd-address'', ValueFlag),
      (''statsd-prefix'', ValueFlag)]"

definition fetch_flags_of :: "(string \<times> string) list \<Rightarrow> fetch_flags" where
  "fetch_flags_of sts =
     \<lparr>fl_codesearch = flag_value sts ''codesearch'' [], fl_out = flag_value sts ''out'' ''livegrep.idx'',
      fl_revparse = flag_bool sts ''revparse'' True, fl_reload_backend = flag_value sts ''reload-backend'' [],
      fl_no_index = flag_bool sts ''no-index'' False, fl_metrics_out = flag_value sts ''metrics-out'' [],
      fl_send_metrics = flag_bool sts ''send-metrics-to-statsd'' False,
      fl_statsd_address = flag_value sts ''statsd-address'' [], fl_statsd_prefix = flag_value sts ''statsd-prefix'' []\<rparr>"

text \<open>Each word that is written sets one flag and leaves the rest to be read.\<close>

definition set_before ::
    "string \<times> string \<Rightarrow> flag_error + ((string \<times> string) list \<times> string list)
     \<Rightarrow> flag_error + ((string \<times> string) list \<times> string list)" where
  "set_before nv r = (case r of Inl e \<Rightarrow> Inl e | Inr (settings, rest) \<Rightarrow> Inr (nv # settings, rest))"

lemma fetch_written:
  shows "valid ''out'' v \<Longrightarrow> parse_flags fetch_kinds valid (''--out'' # v # args) = set_before (''out'', v) (parse_flags fetch_kinds valid args)"
    "valid ''codesearch'' v \<Longrightarrow> parse_flags fetch_kinds valid (''--codesearch'' # v # args) = set_before (''codesearch'', v) (parse_flags fetch_kinds valid args)"
    "valid ''num-workers'' v \<Longrightarrow> parse_flags fetch_kinds valid (''--num-workers'' # v # args) = set_before (''num-workers'', v) (parse_flags fetch_kinds valid args)"
    "parse_flags fetch_kinds valid (''--no-index'' # args) = set_before (''no-index'', ''true'') (parse_flags fetch_kinds valid args)"
    "parse_flags fetch_kinds valid (''--revparse'' # args) = set_before (''revparse'', ''true'') (parse_flags fetch_kinds valid args)"
    "parse_flags fetch_kinds valid (''--skip-missing'' # args) = set_before (''skip-missing'', ''true'') (parse_flags fetch_kinds valid args)"
  using parse_value_flag[of "''out''" fetch_kinds valid v args]
    parse_value_flag[of "''codesearch''" fetch_kinds valid v args]
    parse_value_flag[of "''num-workers''" fetch_kinds valid v args]
    parse_bool_flag[of "''no-index''" fetch_kinds valid args]
    parse_bool_flag[of "''revparse''" fetch_kinds valid args]
    parse_bool_flag[of "''skip-missing''" fetch_kinds valid args]
  by (simp_all add: fetch_kinds_def plain_name_def set_before_def del: parse_flags.simps)

text \<open>
  C21. What \<^verbatim>\<open>livegrep-github-reindex\<close> puts on the command line is what
  \<^verbatim>\<open>livegrep-fetch-reindex\<close> reads from it: the index, the indexer, the number of workers,
  whether to index, and the configuration as its only argument. One thing gets lost: without
  \<^verbatim>\<open>-revparse\<close> the flag is left out, and the default of the other program turns it on again.
\<close>

theorem fetch_args_read:
  assumes "\<not> is_flag configPath" "\<forall>name v. name \<noteq> ''num-workers'' \<longrightarrow> valid name v"
    and "valid ''num-workers'' (gf_num_workers fl)"
  shows "\<exists>sts. parse_flags fetch_kinds valid (fetch_args fl configPath) = Inr (sts, [configPath]) \<and>
    flag_value sts ''num-workers'' ''8'' = gf_num_workers fl \<and>
    fetch_flags_of sts = \<lparr>fl_codesearch = gf_codesearch fl, fl_out = dynamicDefault_Get (gf_out fl), fl_revparse = True,
      fl_reload_backend = [], fl_no_index = gf_no_index fl, fl_metrics_out = [], fl_send_metrics = False,
      fl_statsd_address = [], fl_statsd_prefix = []\<rparr>"
proof -
  let ?sts = "[(''out'', dynamicDefault_Get (gf_out fl)), (''codesearch'', gf_codesearch fl),
      (''num-workers'', gf_num_workers fl)] @ (if gf_no_index fl then [(''no-index'', ''true'')] else []) @
      (if gf_revparse fl then [(''revparse'', ''true'')] else []) @
      (if gf_skip_missing fl then [(''skip-missing'', ''true'')] else [])"
  have "parse_flags fetch_kinds valid (fetch_args fl configPath) = Inr (?sts, [configPath])"
    using assms by (simp add: fetch_args_def fetch_written parse_flags_end set_before_def del: parse_flags.simps(2))
  moreover have "flag_value ?sts ''num-workers'' ''8'' = gf_num_workers fl"
    by (simp add: flag_value_def)
  moreover have "fetch_flags_of ?sts = \<lparr>fl_codesearch = gf_codesearch fl, fl_out = dynamicDefault_Get (gf_out fl),
      fl_revparse = True, fl_reload_backend = [], fl_no_index = gf_no_index fl, fl_metrics_out = [],
      fl_send_metrics = False, fl_statsd_address = [], fl_statsd_prefix = []\<rparr>"
    by (simp add: fetch_flags_of_def flag_value_def flag_bool_def parse_bool_def)
  ultimately show ?thesis by blast
qed

lemma fetch_args_read_witness:
  "\<exists>sts. parse_flags fetch_kinds (\<lambda>name v. name \<noteq> ''num-workers'' \<or> v = ''8'')
      (fetch_args (some_github\<lparr>gf_revparse := False\<rparr>) ''repos/livegrep.json'') = Inr (sts, [''repos/livegrep.json'']) \<and>
    fl_revparse (fetch_flags_of sts) \<and> fl_out (fetch_flags_of sts) = ''repos/livegrep.idx''"
proof -
  have "dynamicDefault_Get (gf_out some_github) = ''repos/livegrep.idx''"
    by (simp add: some_github_def default_index_def dynamicDefault_Get_def) code_simp
  then show ?thesis
    using fetch_args_read[of "''repos/livegrep.json''" "\<lambda>name v. name \<noteq> ''num-workers'' \<or> v = ''8''"
        "some_github\<lparr>gf_revparse := False\<rparr>"]
    by (auto simp: is_flag_def some_github_def)
qed

lemma checkoutOne_no_panic:
  "rs_Remote r = Some remote \<Longrightarrow> fst (checkoutOne os sched r h) \<noteq> Inl (Panic p)"
  by (auto simp: checkoutOne_def Let_def split: prod.split option.split exec_result.split if_split)

lemma spec_of_fields:
  assumes "(spec_of fl dir revision r name :: ('e, github_spec) res) = Inr s"
  shows "rs_Path s = path_Join [dir, name]" "rs_Remote s \<noteq> None"
    "rs_CloneOptions s = Some \<lparr>clo_Depth = sint (word_of_int (gf_depth fl) :: 32 word),
       clo_Username = gf_http_user fl, clo_PasswordEnv = (if gf_github_key fl \<noteq> [] then ''GITHUB_KEY'' else [])\<rparr>"
  using assms by (auto simp: spec_of_def res_simps)

lemma github_config_spec:
  assumes "(github_config verify arr fl ignorelist repos :: ('e, github_spec list) res) = Inr specs"
    and "s \<in> set specs"
  shows "\<exists>r. (spec_of fl (gf_dir fl) (gf_revision fl) r (rs_Name s) :: ('e, github_spec) res) = Inr s"
proof -
  obtain rs where "(buildConfig verify fl (gf_dir fl) (gf_revision fl) rs :: ('e, github_spec list) res) = Inr specs"
    using assms(1) by (auto simp: github_config_def res_simps)
  note built = buildConfig_specs[OF this]
  obtain i where i: "i < length specs" "specs ! i = s" using assms(2) by (auto simp: in_set_conv_nth)
  show ?thesis using list_all2_nthD2[OF built i(1)] i(2) by auto
qed

text \<open>
  C39. Whatever GitHub tells, the mirrors of the configuration can be brought up to date without
  a panic: every entry has its metadata, which \<^verbatim>\<open>checkoutOne\<close> does not ask for. The depth is
  one of 32 bits, and the one that was asked for where that is.
\<close>

theorem github_config_fetchable:
  assumes "(github_config verify arr fl ignorelist repos :: ('e, github_spec list) res) = Inr specs"
    and "s \<in> set specs"
  shows "fst (checkoutOne os sched (RepoSpec.truncate s) h) \<noteq> Inl (Panic p) \<and>
    (\<exists>opts. rs_CloneOptions s = Some opts \<and> - (2 ^ 31) \<le> clo_Depth opts \<and> clo_Depth opts < 2 ^ 31 \<and>
      (- (2 ^ 31) \<le> gf_depth fl \<and> gf_depth fl < 2 ^ 31 \<longrightarrow> clo_Depth opts = gf_depth fl))"
proof -
  obtain r where r: "(spec_of fl (gf_dir fl) (gf_revision fl) r (rs_Name s) :: ('e, github_spec) res) = Inr s"
    using github_config_spec[OF assms] by blast
  let ?d = "sint (word_of_int (gf_depth fl) :: 32 word)"
  obtain remote where "rs_Remote (RepoSpec.truncate s) = Some remote"
    using spec_of_fields(2)[OF r] by (auto simp: RepoSpec.defs)
  then have fetch: "fst (checkoutOne os sched (RepoSpec.truncate s) h) \<noteq> Inl (Panic p)" by (rule checkoutOne_no_panic)
  have "- (2 ^ 31) \<le> ?d" "?d < 2 ^ 31"
    using sint_greater_eq[of "word_of_int (gf_depth fl) :: 32 word"] sint_less[of "word_of_int (gf_depth fl) :: 32 word"]
    by simp_all
  moreover have "?d = gf_depth fl" if "- (2 ^ 31) \<le> gf_depth fl" "gf_depth fl < 2 ^ 31"
    using that by (simp add: sint_sbintrunc' signed_take_bit_int_eq_self)
  ultimately show ?thesis using fetch by (simp add: spec_of_fields(3)[OF r])
qed

lemma github_config_fetchable_witness:
  "\<exists>s. (github_config (\<lambda>_. True) rev some_github None [repository ''o/a''] :: (string, github_spec list) res) = Inr [s] \<and>
    (\<exists>opts. rs_CloneOptions s = Some opts \<and> clo_Depth opts < 2 ^ 31)"
proof -
  obtain s where s: "(github_config (\<lambda>_. True) rev some_github None [repository ''o/a''] :: (string, github_spec list) res) = Inr [s]"
    by (simp add: github_config_def filterRepos_eq no_name_read_def kept_def repository_def some_github_def
        sort_repos_def sort_slice_def sort_less_def spec_of_def res_simps)
  then show ?thesis using github_config_fetchable[OF s] by fastforce
qed

section \<open>The order of things\<close>

lemma github_run_order:
  assumes "github_run verify arr isFile arg0 perform fl ignorelist repos = (result, acts)"
    and "RunFetch args \<in> set acts"
  shows "\<exists>specs. \<not> gf_only_write_config fl \<and>
    (github_config verify arr fl ignorelist repos :: (string, github_spec list) res) = Inr specs \<and>
    acts = [MakeDir (path_Dir (path_Join [gf_dir fl, ''livegrep.json''])),
      WriteConfig (path_Join [gf_dir fl, ''livegrep.json'']) (gf_name fl) specs, RunFetch args] \<and>
    args = fetch_program isFile arg0 fl # fetch_args fl (path_Join [gf_dir fl, ''livegrep.json''])"
proof (cases "github_config verify arr fl ignorelist repos :: (string, github_spec list) res")
  case (Inr specs)
  then show ?thesis
    using assms by (auto simp: github_run_def writeConfig_def act_def Let_def split: option.splits if_splits)
qed (use assms in \<open>simp add: github_run_def\<close>)

lemma github_main_runs:
  assumes "github_main read_file parse_url loaded verify arr isFile arg0 perform fl0 = (result, acts)" "acts \<noteq> []"
  shows "\<exists>fl ignorelist repos. github_checks fl0 = Inr fl \<and>
    loaded (jobs_of (gf_repos fl) (gf_orgs fl) (gf_users fl)) = Inr repos \<and>
    github_run verify arr isFile arg0 perform fl ignorelist repos = (result, acts)"
proof (cases "github_checks fl0")
  case fl: (Inr fl)
  let ?ignore = "if gf_ignorelist fl = [] then Inr None
    else map_sum id Some (loadIgnorelist (read_file (gf_ignorelist fl)))"
  show ?thesis
  proof (cases ?ignore)
    case (Inr ignorelist)
    then show ?thesis using assms fl unfolding github_main_def
      by (auto simp del: split_paired_Ex split: option.splits sum.splits)
  qed (use assms fl in \<open>simp add: github_main_def\<close>)
qed (use assms in \<open>simp add: github_main_def\<close>)

text \<open>
  Repositories are fetched only after all of them were listed and the configuration was
  written, once, with that configuration as argument; and never where only the configuration
  was asked for.
\<close>

theorem github_main_order:
  assumes "github_main read_file parse_url loaded verify arr isFile arg0 perform fl0 = (result, acts)"
    and "RunFetch args \<in> set acts"
  shows "\<exists>fl ignorelist repos specs configPath. github_checks fl0 = Inr fl \<and> \<not> gf_only_write_config fl \<and>
    loaded (jobs_of (gf_repos fl) (gf_orgs fl) (gf_users fl)) = Inr repos \<and>
    (github_config verify arr fl ignorelist repos :: (string, github_spec list) res) = Inr specs \<and>
    configPath = path_Join [gf_dir fl, ''livegrep.json''] \<and>
    acts = [MakeDir (path_Dir configPath), WriteConfig configPath (gf_name fl) specs, RunFetch args] \<and>
    args = fetch_program isFile arg0 fl # fetch_args fl configPath"
proof -
  have "acts \<noteq> []" using assms(2) by auto
  then show ?thesis using github_main_runs[OF assms(1)] github_run_order[OF _ assms(2)] by blast
qed

lemma github_main_order_witness:
  "\<exists>acts. github_main (\<lambda>_. Inl ''no file'') (\<lambda>_. None) (\<lambda>jobs. Inr [repository ''o/a'']) (\<lambda>_. True) rev (\<lambda>_. False) ''x''
      (\<lambda>_. None) some_github = (Inr (), acts) \<and> length acts = 3"
proof -
  let ?main = "github_main (\<lambda>_. Inl ''no file'') (\<lambda>_. None) (\<lambda>jobs. Inr [repository ''o/a'']) (\<lambda>_. True) rev (\<lambda>_. False) ''x''
      (\<lambda>_. None) some_github"
  obtain s where "(github_config (\<lambda>_. True) rev some_github None [repository ''o/a''] :: (string, github_spec list) res) = Inr [s]"
    using github_config_fetchable_witness by blast
  then have main: "fst ?main = Inr ()" "\<exists>args. RunFetch args \<in> set (snd ?main)"
    by (simp_all add: github_main_def github_checks_def check_base_url_def HasSuffix_def github_run_def
        writeConfig_def act_def Let_def some_github_def)
  then obtain args where "RunFetch args \<in> set (snd ?main)" by blast
  then have "length (snd ?main) = 3"
    using github_main_order[of _ _ _ _ _ _ _ _ _ "fst ?main" "snd ?main" args] by fastforce
  then show ?thesis using main(1) by (metis prod.collapse)
qed

section \<open>One repository listed twice\<close>

lemma count_in_image: "count M x \<le> count (image_mset f M) (f x)"
  by (induction M) auto

lemma two_occurrences:
  assumes "2 \<le> count (mset (map f xs)) y"
  shows "\<exists>as a bs b cs. xs = as @ a # bs @ b # cs \<and> f a = y \<and> f b = y"
proof -
  have "y \<in> set (map f xs)" using assms by (metis count_eq_zero_iff not_numeral_le_zero set_mset_mset)
  then obtain as a rest where xs: "xs = as @ a # rest" "f a = y" "y \<notin> set (map f as)"
    by (fastforce simp: split_list_first map_eq_append_conv map_eq_Cons_conv dest!: split_list_first)
  then have "1 \<le> count (mset (map f rest)) y" using assms by (simp add: count_eq_zero_iff[THEN iffD2])
  then have "y \<in> set (map f rest)" by (metis count_eq_zero_iff not_one_le_zero set_mset_mset)
  then obtain bs b cs where "rest = bs @ b # cs" "f b = y" by (metis (no_types) imageE set_map split_list)
  then show ?thesis using xs by blast
qed

text \<open>
  C22. A repository that GitHub lists for two of the jobs, say for itself and for its
  organization, is in the configuration twice, and \<^verbatim>\<open>livegrep-fetch-reindex\<close> with two workers or
  more can be at work on both entries at the same time: two workers clone into, or delete, the
  same directory.
\<close>

theorem listed_twice_races:
  assumes "(github_config verify arr fl ignorelist repos :: (string, github_spec list) res) = Inr specs" "rearranges arr"
    and "2 \<le> count (mset repos) r" "kept ignorelist (\<not> gf_forks fl) (\<not> gf_archived fl) r" "wanted verify fl r"
    and "2 \<le> W" "\<forall>s\<in>set specs. outcome s = None"
  shows "\<exists>s a b. pool_reach W outcome specs s \<and> 1 < length (pl_workers s) \<and>
    pl_workers s ! 0 = Busy a \<and> pl_workers s ! 1 = Busy b \<and>
    rs_Path a = path_Join [gf_dir fl, full_name_of r] \<and> rs_Path b = rs_Path a"
proof -
  let ?P = "\<lambda>r. kept ignorelist (\<not> gf_forks fl) (\<not> gf_archived fl) r \<and> wanted verify fl r"
  have "2 \<le> count (filter_mset ?P (mset repos)) r" using assms(3-5) by simp
  also have "\<dots> \<le> count (image_mset full_name_of (filter_mset ?P (mset repos))) (full_name_of r)"
    by (rule count_in_image)
  also have "\<dots> = count (mset (map rs_Name specs)) (full_name_of r)"
    using github_config_names[OF assms(1,2)] by (simp add: mset_filter)
  finally obtain as a bs b cs where specs: "specs = as @ a # bs @ b # cs"
    and names: "rs_Name a = full_name_of r" "rs_Name b = full_name_of r"
    using two_occurrences[where y = "full_name_of r" and f = rs_Name and xs = specs] by blast
  have path: "rs_Path s = path_Join [gf_dir fl, rs_Name s]" if "s \<in> set specs" for s
    using github_config_spec[OF assms(1) that] spec_of_fields(1) by blast
  obtain s where s: "pool_reach W outcome specs s" "1 < length (pl_workers s)"
    "pl_workers s ! 0 = Busy a" "pl_workers s ! 1 = Busy b"
    using pool_both_busy[OF assms(6), of as bs outcome a b cs] assms(7) specs by auto
  have "rs_Path a = path_Join [gf_dir fl, full_name_of r]" "rs_Path b = rs_Path a"
    using path[of a] path[of b] names by (simp_all add: specs)
  then show ?thesis using s by blast
qed

lemma listed_twice_races_witness:
  "\<exists>specs s a b. (github_config (\<lambda>_. True) rev some_github None [repository ''o/a'', repository ''o/a''] :: (string, github_spec list) res) = Inr specs \<and>
    pool_reach 2 (\<lambda>_. None :: string option) specs s \<and> pl_workers s ! 0 = Busy a \<and> pl_workers s ! 1 = Busy b \<and> rs_Path b = rs_Path a"
proof -
  let ?config = "github_config (\<lambda>_. True) rev some_github None [repository ''o/a'', repository ''o/a''] :: (string, github_spec list) res"
  obtain specs where specs: "?config = Inr specs"
    by (simp add: github_config_def filterRepos_eq no_name_read_def kept_def repository_def some_github_def
        sort_repos_def sort_slice_def sort_less_def ReposByName_Less_def spec_of_def res_simps)
  show ?thesis
    using listed_twice_races[OF specs rearranges_rev, of "repository ''o/a''" 2 "\<lambda>_. None :: string option"] specs
    by (fastforce simp: kept_def wanted_def some_github_def repository_def)
qed

end
