(* ===== verification/MetricsExporter.thy ===== *)
theory MetricsExporter
  imports GoRegexp "HOL-Library.AList"
begin

text \<open>
  \<^verbatim>\<open>cmd/livegrep-metrics-exporter\<close>: the file of metrics that the indexer writes is read and
  sent to StatsD. \<^verbatim>\<open>time.ParseDuration\<close> computes with floating point numbers; it is a
  parameter, giving milliseconds.
\<close>

section \<open>Flags\<close>

text \<open>\<^verbatim>\<open>stringMapFlag\<close>; the order in which the map is walked is that of the list.\<close>

definition stringMap_Set :: "(string \<times> string) list \<Rightarrow> string \<Rightarrow> string + (string \<times> string) list" where
  "stringMap_Set values str =
     (case split_on CHR ''='' str of
        [k, v] \<Rightarrow> Inr (AList.update k v values)
      | _ \<Rightarrow> Inl ''improperly formatted key-value parameter'')"

definition stringMap_String :: "(string \<times> string) list \<Rightarrow> string" where
  "stringMap_String values = join '','' (map (\<lambda>(k, v). k @ CHR ''='' # v) values)"

record metrics_flags =
  mf_statsd_address :: string
  mf_statsd_prefix :: string
  mf_metrics_out :: string
  mf_tags :: "(string \<times> string) list"

definition metrics_checks :: "metrics_flags \<Rightarrow> string option" where
  "metrics_checks fl =
     (if mf_metrics_out fl = [] then
        Some ''--metrics-out is required. It is the path to the file containing metrics from the indexing run''
      else if mf_statsd_address fl = [] then
        Some ''--statsd-address is required. It is the host:port of the StatsD server.''
      else None)"

section \<open>Regular expressions\<close>

text \<open>The leftmost place where an expression matches.\<close>

fun leftmost :: "(string \<Rightarrow> 'a option) \<Rightarrow> string \<Rightarrow> 'a option" where
  "leftmost f s =
     (case f s of Some x \<Rightarrow> Some x | None \<Rightarrow> (case s of [] \<Rightarrow> None | c # t \<Rightarrow> leftmost f t))"

declare leftmost.simps [simp del]

text \<open>\<^verbatim>\<open>repository[\s]*indexed[\s]*in[\s]*(.*)\<close>\<close>

definition duration_at :: "string \<Rightarrow> string option" where
  "duration_at s =
     (case after_lit ''repository'' s of
        None \<Rightarrow> None
      | Some a \<Rightarrow> (case after_lit ''indexed'' (dropWhile is_ws a) of
            None \<Rightarrow> None
          | Some b \<Rightarrow> map_option (\<lambda>c. takeWhile (\<lambda>x. x \<noteq> NL) (dropWhile is_ws c))
              (after_lit ''in'' (dropWhile is_ws b))))"

text \<open>\<^verbatim>\<open>([\w\.]+)\s(\d+)\<close>\<close>

definition name_char :: "char \<Rightarrow> bool" where
  "name_char c \<longleftrightarrow> is_word c \<or> c = CHR ''.''"

definition metric_at :: "string \<Rightarrow> (string \<times> string) option" where
  "metric_at s =
     (let n = takeWhile name_char s in
      if n = [] then None
      else case after_ws (dropWhile name_char s) of
          None \<Rightarrow> None
        | Some t \<Rightarrow> map_option (\<lambda>(d, rest). (n, d)) (match_digits t))"

text \<open>
  \<^verbatim>\<open>(?s)== begin metrics ==\s*(.+)\s== end metrics ==\<close>: the group is as long as possible, and
  the blanks before it as many as possible.
\<close>

definition ends_dump :: "string \<Rightarrow> bool" where
  "ends_dump s \<longleftrightarrow> (case s of c # t \<Rightarrow> is_ws c \<and> HasPrefix t ''== end metrics =='' | [] \<Rightarrow> False)"

fun longest_dump :: "nat \<Rightarrow> string \<Rightarrow> string option" where
  "longest_dump 0 t = None"
| "longest_dump (Suc n) t =
     (if ends_dump (drop (Suc n) t) then Some (take (Suc n) t) else longest_dump n t)"

fun dump_behind :: "nat \<Rightarrow> string \<Rightarrow> string option" where
  "dump_behind k t =
     (case longest_dump (length t - k) (drop k t) of
        Some d \<Rightarrow> Some d
      | None \<Rightarrow> (case k of 0 \<Rightarrow> None | Suc j \<Rightarrow> dump_behind j t))"

declare dump_behind.simps [simp del]

definition dump_at :: "string \<Rightarrow> string option" where
  "dump_at s =
     (case after_lit ''== begin metrics =='' s of
        None \<Rightarrow> None
      | Some t \<Rightarrow> dump_behind (length (takeWhile is_ws t)) t)"

section \<open>The program\<close>

datatype stat = Timing string int | Gauge string int

fun metric_lines :: "string list \<Rightarrow> (string \<times> int) list \<Rightarrow> string + (string \<times> int) list" where
  "metric_lines [] metrics = Inr metrics"
| "metric_lines (l # ls) metrics =
     (case leftmost metric_at l of
        None \<Rightarrow> Inl (''failed to parse metric name and value: line='' @ l)
      | Some (name, d) \<Rightarrow>
          (case Atoi d of
             (v, Some e) \<Rightarrow> Inl (''failed to parse metric value: name='' @ name @ '' value='' @ d)
           | (v, None) \<Rightarrow> metric_lines ls (AList.update name v metrics)))"

text \<open>
  What is sent once the client is up, and the message the program ends with, if any; \<open>elapsed\<close>
  is the time the export took. \<open>order\<close> is the walk over the map of metrics.
\<close>

definition metrics_main ::
    "(string \<Rightarrow> string + int) \<Rightarrow> ((string \<times> int) list \<Rightarrow> (string \<times> int) list) \<Rightarrow> int \<Rightarrow> string
     \<Rightarrow> string option \<times> stat list" where
  "metrics_main parseDuration order elapsed metricsFile =
     (case leftmost duration_at metricsFile of
        None \<Rightarrow> (Some ''failed to read time to index line from stdin'', [])
      | Some d \<Rightarrow>
          (case parseDuration d of
             Inl err \<Rightarrow> (Some (''failed to parse indexing time '' @ err), [])
           | Inr ms \<Rightarrow>
               (case leftmost dump_at metricsFile of
                  None \<Rightarrow> (Some ''failed to parse metrics dump from indexer output'', [Timing ''index.timeToIndex'' ms])
                | Some dump \<Rightarrow>
                    (case metric_lines (split_on NL dump) [] of
                       Inl msg \<Rightarrow> (Some msg, [Timing ''index.timeToIndex'' ms])
                     | Inr metrics \<Rightarrow>
                         (None, Timing ''index.timeToIndex'' ms # map (\<lambda>(n, v). Gauge n v) (order metrics) @
                            [Timing ''export.duration'' elapsed])))))"

text \<open>
  \<^verbatim>\<open>init\<close> and \<^verbatim>\<open>main\<close>. A client that cannot be made and a file that cannot be read end in a
  panic; the tags are never looked at.
\<close>

datatype metrics_end = Refused string | Panicked string | Ended "string option" "stat list"

definition metrics_run ::
    "(string \<Rightarrow> string \<Rightarrow> string option) \<Rightarrow> (string \<Rightarrow> string + string) \<Rightarrow> (string \<Rightarrow> string + int)
     \<Rightarrow> ((string \<times> int) list \<Rightarrow> (string \<times> int) list) \<Rightarrow> int \<Rightarrow> metrics_flags \<Rightarrow> metrics_end" where
  "metrics_run statsd_New read_file parseDuration order elapsed fl =
     (case metrics_checks fl of
        Some msg \<Rightarrow> Refused msg
      | None \<Rightarrow>
          (case statsd_New (mf_statsd_address fl) (mf_statsd_prefix fl) of
             Some err \<Rightarrow> Panicked err
           | None \<Rightarrow>
               (case read_file (mf_metrics_out fl) of
                  Inl err \<Rightarrow> Panicked err
                | Inr contents \<Rightarrow>
                    (case metrics_main parseDuration order elapsed contents of (msg, sent) \<Rightarrow> Ended msg sent))))"

section \<open>The file of the indexer\<close>

text \<open>The lines the indexer writes, with a name and a count each.\<close>

definition metric_printed :: "string \<times> nat \<Rightarrow> string" where
  "metric_printed = (\<lambda>(name, v). name @ CHR '' '' # string_of_nat v)"

definition metrics_printed :: "string \<Rightarrow> (string \<times> nat) list \<Rightarrow> string" where
  "metrics_printed d ms =
     ''repository indexed in '' @ d @ [NL] @ ''== begin metrics =='' @ [NL] @
     concat (map (\<lambda>m. metric_printed m @ [NL]) ms) @ ''== end metrics =='' @ [NL]"

definition fine_metric :: "string \<times> nat \<Rightarrow> bool" where
  "fine_metric m \<longleftrightarrow> fst m \<noteq> [] \<and> list_all name_char (fst m) \<and> snd m < 2 ^ 63"

lemma leftmost_here: "f s = Some x \<Longrightarrow> leftmost f s = Some x"
  by (subst leftmost.simps) simp

lemma leftmost_skip: "list_all (\<lambda>c. \<forall>t. f (c # t) = None) p \<Longrightarrow> leftmost f (p @ s) = leftmost f s"
proof (induction p)
  case (Cons c p)
  then show ?case by (subst leftmost.simps) simp
qed simp

lemma dump_needs_equals: "c \<noteq> CHR ''='' \<Longrightarrow> dump_at (c # t) = None"
  by (simp add: dump_at_def after_lit_def HasPrefix_def)

lemma longest_dump_at:
  assumes "ends_dump (drop m u)" "\<And>n. m < n \<Longrightarrow> \<not> ends_dump (drop n u)"
  shows "0 < m \<Longrightarrow> m \<le> n \<Longrightarrow> longest_dump n u = Some (take m u)"
proof (induction n)
  case (Suc n)
  then show ?case using assms by (cases "m = Suc n") auto
qed simp

text \<open>Nothing behind the line that ends the dump looks like its end.\<close>

lemma no_later_end: "\<not> ends_dump (drop n (''== end metrics =='' @ [NL]))"
proof -
  have "\<forall>n\<in>set [0..<20]. \<not> ends_dump (drop n (''== end metrics =='' @ [NL]))" by code_simp
  then show ?thesis by (cases "n < 20") (auto simp: ends_dump_def)
qed

lemma dump_printed:
  assumes "body \<noteq> []" "\<not> is_ws (hd body)"
  shows "dump_at (''== begin metrics =='' @ NL # body @ NL # ''== end metrics =='' @ [NL]) = Some body"
proof -
  let ?fin = "''== end metrics =='' @ [NL]"
  let ?u = "body @ NL # ?fin"
  have ws: "is_ws NL" by (simp add: is_ws_def)
  obtain c b where body: "body = c # b" using assms(1) by (cases body) auto
  have k: "length (takeWhile is_ws (NL # ?u)) = 1" using assms(2) ws by (simp add: body)
  have "\<not> ends_dump (drop n ?u)" if "length body < n" for n
  proof -
    have "drop n ?u = drop (n - length body - 1) ?fin" using that by (cases "n - length body") auto
    then show ?thesis using no_later_end by simp
  qed
  moreover have "ends_dump (drop (length body) ?u)" using ws by (simp add: ends_dump_def HasPrefix_def)
  ultimately have "longest_dump (length ?u) ?u = Some (take (length body) ?u)"
    by (intro longest_dump_at) (simp_all add: body)
  then have "dump_behind 1 (NL # ?u) = Some body" by (subst dump_behind.simps) simp
  then show ?thesis unfolding dump_at_def after_lit_append option.case k .
qed

lemma metric_printed_at:
  assumes "fine_metric m"
  shows "leftmost metric_at (metric_printed m) = Some (fst m, string_of_nat (snd m))"
proof (rule leftmost_here)
  obtain name v where m: "m = (name, v)" by (cases m)
  have name: "name \<noteq> []" "\<forall>c\<in>set name. name_char c" using assms by (auto simp: m fine_metric_def list_all_iff)
  have blank: "\<not> name_char CHR '' ''" by (simp add: name_char_def is_word_def is_digit_def)
  have "takeWhile name_char (name @ CHR '' '' # string_of_nat v) = name"
    "dropWhile name_char (name @ CHR '' '' # string_of_nat v) = CHR '' '' # string_of_nat v"
    using name(2) blank by simp_all
  then show "metric_at (metric_printed m) = Some (fst m, string_of_nat (snd m))"
    using name(1) match_digits_nat[of "[]" v] by (simp add: m metric_printed_def metric_at_def)
qed

lemma update_new: "k \<notin> fst ` set al \<Longrightarrow> AList.update k v al = al @ [(k, v)]"
  by (induction al) auto

lemma metric_lines_printed:
  "list_all fine_metric ms \<Longrightarrow> distinct (map fst ms) \<Longrightarrow> fst ` set acc \<inter> fst ` set ms = {} \<Longrightarrow>
    metric_lines (map metric_printed ms) acc = Inr (acc @ map (\<lambda>(n, v). (n, int v)) ms)"
proof (induction ms arbitrary: acc)
  case (Cons m ms)
  obtain name v where m: "m = (name, v)" by (cases m)
  have "leftmost metric_at (metric_printed m) = Some (name, string_of_nat v)" "v < 2 ^ 63"
    using metric_printed_at[of m] Cons.prems(1) by (simp_all add: m fine_metric_def)
  moreover have "AList.update name (int v) acc = acc @ [(name, int v)]"
    using Cons.prems(3) by (intro update_new) (auto simp: m)
  ultimately show ?case
    using Cons.IH[of "acc @ [(name, int v)]"] Cons.prems by (simp add: m Atoi_string_of_nat image_iff)
qed simp



end
