(* ===== verification/LgClient.thy ===== *)
theory LgClient
  imports SearchPages
begin

text \<open>
  \<^verbatim>\<open>cmd/lg\<close>: the command line client of the search, which asks \<^verbatim>\<open>/api/v1/search/\<close> and prints
  what comes back; and \<^verbatim>\<open>cmd/livegrep-reload\<close>, which tells one backend to reload. What the
  other side of the query does, \<^verbatim>\<open>url.ParseQuery\<close>, stands here too, so that both can be put
  together.
\<close>

section \<open>Queries in a URL\<close>

fun QueryUnescape :: "string \<Rightarrow> string option" where
  "QueryUnescape [] = Some []"
| "QueryUnescape (c # s) =
     (if c = CHR ''%'' then
        (case s of
           h # l # t \<Rightarrow>
             if is_hex_any h \<and> is_hex_any l
             then map_option ((#) (char_of (16 * unhex h + unhex l))) (QueryUnescape t) else None
         | _ \<Rightarrow> None)
      else map_option ((#) (if c = CHR ''+'' then CHR '' '' else c)) (QueryUnescape s))"

text \<open>A pair that cannot be read is left out.\<close>

definition query_pair :: "string \<Rightarrow> (string \<times> string) option" where
  "query_pair piece =
     (if CHR '';'' \<in> set piece \<or> piece = [] then None
      else let (k, v) = (case Cut CHR ''='' piece of None \<Rightarrow> (piece, []) | Some kv \<Rightarrow> kv) in
        (case (QueryUnescape k, QueryUnescape v) of (Some k', Some v') \<Rightarrow> Some (k', v') | _ \<Rightarrow> None))"

definition values_Add :: "url_Values \<Rightarrow> string \<times> string \<Rightarrow> url_Values" where
  "values_Add vs kv = AList.update (fst kv) ((case map_of vs (fst kv) of None \<Rightarrow> [] | Some xs \<Rightarrow> xs) @ [snd kv]) vs"

definition url_Query :: "string \<Rightarrow> url_Values" where
  "url_Query raw = foldl values_Add [] (List.map_filter query_pair (split_on CHR ''&'' raw))"

lemma unhex_upper: "d < 16 \<Longrightarrow> is_hex_any (upper_hex d) \<and> unhex (upper_hex d) = d"
  by (simp add: is_hex_any_def is_hex_def is_digit_def unhex_def upper_hex_def)

lemma byte_div: "byte c div 16 < 16"
  by (intro less_mult_imp_div_less) simp

lemma escaped_byte:
  "QueryUnescape (CHR ''%'' # upper_hex (byte c div 16) # upper_hex (byte c mod 16) # t) =
    map_option ((#) c) (QueryUnescape t)"
proof -
  have "byte c div 16 < 16" by (rule byte_div)
  moreover have "16 * (byte c div 16) + byte c mod 16 = byte c" by simp
  ultimately show ?thesis using unhex_upper[of "byte c div 16"] unhex_upper[of "byte c mod 16"] by simp
qed

lemma QueryUnescape_escaped: "QueryUnescape (QueryEscape s @ t) = map_option ((@) s) (QueryUnescape t)"
proof (induction s)
  case Nil
  show ?case by (simp add: QueryEscape_def option.map_ident)
next
  case (Cons c s)
  have "\<not> (is_letter CHR ''%'' \<or> is_digit CHR ''%'' \<or> is_letter CHR ''+'' \<or> is_digit CHR ''+'')"
    by (simp add: is_letter_def is_digit_def)
  then show ?case
    using Cons escaped_byte[of c "QueryEscape s @ t"]
    by (auto simp: QueryEscape_def option.map_comp comp_def)
qed

text \<open>What is escaped has none of the characters that separate.\<close>

definition separates :: "char \<Rightarrow> bool" where
  "separates c \<longleftrightarrow> c = CHR ''&'' \<or> c = CHR '';'' \<or> c = CHR ''=''"

lemma plain_no_separator: "is_letter c \<or> is_digit c \<or> c \<in> set ''-_.~'' \<Longrightarrow> \<not> separates c"
  by (auto simp: separates_def is_letter_def is_digit_def)

lemma hex_no_separator: "d < 16 \<Longrightarrow> \<not> separates (upper_hex d)"
  using unhex_upper[of d] by (auto simp: separates_def is_hex_any_def is_hex_def is_digit_def)

lemma QueryEscape_clean: "list_all (\<lambda>c. \<not> separates c) (QueryEscape s)"
proof (induction s)
  case (Cons c s)
  have "\<not> separates CHR ''+''" "\<not> separates CHR ''%''" by (simp_all add: separates_def)
  then show ?case
    using Cons plain_no_separator[of c] hex_no_separator[OF byte_div[of c]] hex_no_separator[of "byte c mod 16"]
    by (simp add: QueryEscape_def del: set_simps)
qed (simp add: QueryEscape_def)

lemma escaped_no_separator: "separates c \<Longrightarrow> c \<notin> set (QueryEscape s)"
  using QueryEscape_clean[of s] by (auto simp: list_all_iff)

lemma url_Query_one:
  assumes "k \<noteq> []"
  shows "url_Query (values_Encode [(k, [v])]) = [(k, [v])]"
proof -
  let ?raw = "QueryEscape k @ CHR ''='' # QueryEscape v"
  have "QueryEscape k \<noteq> []" using assms by (cases k) (simp_all add: QueryEscape_def)
  moreover have "CHR ''='' \<notin> set (QueryEscape k)" "CHR ''&'' \<notin> set ?raw" "CHR '';'' \<notin> set ?raw"
    using escaped_no_separator by (auto simp: separates_def)
  ultimately have "query_pair ?raw = Some (k, v)" "split_on CHR ''&'' ?raw = [?raw]"
    using QueryUnescape_escaped[of k "[]"] QueryUnescape_escaped[of v "[]"]
    by (simp_all add: query_pair_def Cut_append split_on_no_sep)
  then show ?thesis
    by (simp add: url_Query_def values_Encode_def sort_less_def List.map_filter_def values_Add_def)
qed

section \<open>The client\<close>

record lg_flags =
  lg_server :: string
  lg_unix_socket :: string
  lg_show_version :: bool
  lg_args :: "string list"

text \<open>
  The server, as \<^verbatim>\<open>url.Parse\<close> reads it from the flag, or a host for HTTP where there is no
  colon in it. Path and query are replaced, and \<^verbatim>\<open>String\<close> puts them between what is printed
  before and after them; of an opaque URL, such as \<^verbatim>\<open>host:80\<close>, the path is not printed.
\<close>

datatype base = Rooted string string | Opaque string string

definition lg_base :: "(string \<Rightarrow> string + base) \<Rightarrow> string \<Rightarrow> string + base" where
  "lg_base parse_url srv =
     (if Contains srv '':'' then
        (case parse_url srv of
           Inl err \<Rightarrow> Inl (''Parsing server '' @ srv @ '': '' @ err)
         | Inr base \<Rightarrow> Inr base)
      else Inr (Rooted (''http://'' @ srv) []))"

definition lg_raw_query :: "string list \<Rightarrow> string" where
  "lg_raw_query args = values_Encode [(''q'', [join '' '' args])]"

definition lg_url :: "base \<Rightarrow> string list \<Rightarrow> string" where
  "lg_url base args =
     (case base of
        Rooted before after \<Rightarrow> before @ ''/api/v1/search/?'' @ lg_raw_query args @ after
      | Opaque before after \<Rightarrow> before @ ''?'' @ lg_raw_query args @ after)"

text \<open>One line for each result.\<close>

definition lg_line :: "bool \<Rightarrow> Result \<Rightarrow> string" where
  "lg_line showVersion r =
     (if r_Tree r \<noteq> [] then r_Tree r @ '':'' else []) @
     (if showVersion \<and> r_Version r \<noteq> [] then r_Version r @ '':'' else []) @
     r_Path r @ '':'' @ string_of_int (r_LineNumber r) @ '': '' @ r_Line r @ [NL]"

text \<open>An answer: its status, and its body as far as it can be decoded.\<close>

record lg_answer =
  la_status :: nat
  la_error :: "string + string \<times> string"
  la_reply :: "string + ReplySearch"

definition lg_output :: "bool \<Rightarrow> lg_answer \<Rightarrow> string + string" where
  "lg_output showVersion a =
     (if la_status a \<noteq> 200 then
        (case la_error a of
           Inl e \<Rightarrow> Inl (''Error reading reply (status='' @ string_of_nat (la_status a) @ ''): '' @ e @ [NL])
         | Inr (code, message) \<Rightarrow> Inl (''Error: '' @ code @ '': '' @ message @ [NL]))
      else case la_reply a of
          Inl e \<Rightarrow> Inl (''Error reading reply (status='' @ string_of_nat (la_status a) @ ''): '' @ e @ [NL])
        | Inr reply \<Rightarrow> Inr (concat (map (lg_line showVersion) (rs_Results reply))))"

text \<open>What is printed on the error or the normal output; the exit status is 1 or 0.\<close>

definition lg_main ::
    "string \<Rightarrow> (string \<Rightarrow> string + base) \<Rightarrow> (string \<Rightarrow> string \<Rightarrow> string + lg_answer) \<Rightarrow> lg_flags \<Rightarrow> string + string" where
  "lg_main usage parse_url get fl =
     (if lg_args fl = [] then Inl usage
      else case lg_base parse_url (lg_server fl) of
          Inl msg \<Rightarrow> Inl (msg @ [NL])
        | Inr base \<Rightarrow>
            (let url = lg_url base (lg_args fl) in
             case get (lg_unix_socket fl) url of
               Inl err \<Rightarrow> Inl (''Requesting '' @ url @ '': '' @ err @ [NL])
             | Inr answer \<Rightarrow> lg_output (lg_show_version fl) answer))"

section \<open>Telling a backend to reload\<close>

definition reloadBackend :: "(string \<Rightarrow> string option) \<Rightarrow> (string \<Rightarrow> string option) \<Rightarrow> string \<Rightarrow> string option" where
  "reloadBackend dial reload addr = (case dial addr of Some err \<Rightarrow> Some err | None \<Rightarrow> reload addr)"

definition reload_main :: "(string \<Rightarrow> string option) \<Rightarrow> (string \<Rightarrow> string option) \<Rightarrow> string list \<Rightarrow> string option" where
  "reload_main dial reload args =
     (case args of
        [addr] \<Rightarrow> map_option (\<lambda>err. ''reload: '' @ err) (reloadBackend dial reload addr)
      | _ \<Rightarrow> Some ''You must provide a HOST:PORT to reload'')"

section \<open>From the command line to the engine\<close>

text \<open>
  C25. What is written behind \<^verbatim>\<open>lg\<close> is what the server searches for: whatever characters the
  words have, \<^verbatim>\<open>ParseQuery\<close> gets them as they are, with a blank between them, and there is no
  other parameter. Where the server answers with results, each of them is a line of the output.
\<close>

theorem lg_asks_for_words:
  assumes "lg_args fl \<noteq> []" "lg_base parse_url (lg_server fl) = Inr (Rooted before after)"
  shows "\<exists>raw. url_Query raw = [(''q'', [join '' '' (lg_args fl)])] \<and>
    extractQuery (map_of (url_Query raw)) = bind_res (ParseQuery (join '' '' (lg_args fl)) True) (\<lambda>q. Inr (q, True)) \<and>
    (\<forall>e reply. get (lg_unix_socket fl) (before @ ''/api/v1/search/?'' @ raw @ after) =
        Inr \<lparr>la_status = 200, la_error = e, la_reply = Inr reply\<rparr> \<longrightarrow>
      lg_main usage parse_url get fl = Inr (concat (map (lg_line (lg_show_version fl)) (rs_Results reply))))"
proof -
  have raw: "url_Query (lg_raw_query (lg_args fl)) = [(''q'', [join '' '' (lg_args fl)])]"
    unfolding lg_raw_query_def by (rule url_Query_one) simp
  moreover have "extractQuery (map_of [(''q'', [join '' '' (lg_args fl)])]) =
      bind_res (ParseQuery (join '' '' (lg_args fl)) True) (\<lambda>q. Inr (q, True))"
    by (simp add: extractQuery_def is_regex_def set_pattern_def set_fold_case_def go_index_def res_simps)
  ultimately show ?thesis
    using assms by (intro exI[of _ "lg_raw_query (lg_args fl)"]) (auto simp: lg_main_def lg_url_def lg_output_def)
qed

lemma lg_asks_for_words_witness:
  "\<forall>get reply. \<exists>raw. url_Query raw = [(''q'', [''a&b =%+''])] \<and>
    (get [] (''http://h/api/v1/search/?'' @ raw) = Inr \<lparr>la_status = 200, la_error = Inl [], la_reply = Inr reply\<rparr> \<longrightarrow>
      lg_main [] (\<lambda>_. Inl []) get \<lparr>lg_server = ''h'', lg_unix_socket = [], lg_show_version = False, lg_args = [''a&b'', ''=%+'']\<rparr> =
        Inr (concat (map (lg_line False) (rs_Results reply))))"
proof (intro allI)
  let ?fl = "\<lparr>lg_server = ''h'', lg_unix_socket = [], lg_show_version = False, lg_args = [''a&b'', ''=%+'']\<rparr>"
  fix get :: "string \<Rightarrow> string \<Rightarrow> string + lg_answer" and reply
  have base: "lg_base (\<lambda>_. Inl []) (lg_server ?fl) = Inr (Rooted ''http://h'' [])"
    by (simp add: lg_base_def Contains_def)
  show "\<exists>raw. url_Query raw = [(''q'', [''a&b =%+''])] \<and>
    (get [] (''http://h/api/v1/search/?'' @ raw) = Inr \<lparr>la_status = 200, la_error = Inl [], la_reply = Inr reply\<rparr> \<longrightarrow>
      lg_main [] (\<lambda>_. Inl []) get ?fl = Inr (concat (map (lg_line False) (rs_Results reply))))"
    using lg_asks_for_words[OF _ base, of get "[]"] by auto
qed

end
