(* ===== verification/Spec2Isabelle.thy ===== *)
theory Spec2Isabelle
  imports CompositeQuery ServerStart GithubReindex MetricsExporter LgClient
begin

text \<open>
  A verification of the Go programs of livegrep: the code search front end (\<^verbatim>\<open>src/server\<close>) with
  its browser of git repositories (\<^verbatim>\<open>src/server/fileviewer\<close>), and the commands under
  \<^verbatim>\<open>src/cmd\<close> that start it, feed it and ask it.

  \<^bold>\<open>The program.\<close> \<^verbatim>\<open>cmd/livegrep\<close> builds a configuration and starts the server of
  \<^verbatim>\<open>server/server.go\<close>, behind the middleware. A request is routed to a handler. A search reaches
  \<^verbatim>\<open>ServeAPISearch\<close> or \<^verbatim>\<open>ServerSideAPISearchV2\<close> (\<^verbatim>\<open>api.go\<close>): its text is parsed by
  \<^verbatim>\<open>ParseQuery\<close> (\<^verbatim>\<open>query.go\<close>) into a query for the C++ engine, which is asked over gRPC through
  one of the backends that \<^verbatim>\<open>backend.go\<close> opens and polls; the matches are grouped by file, their
  lines merged and sorted, and sent back as JSON or as a page. A request for a file, a directory, a
  log, a blame, a diff or a commit runs git and parses what it prints
  (\<^verbatim>\<open>fileviewer/fileview.go\<close>). What is searched comes from \<^verbatim>\<open>cmd/livegrep-github-reindex\<close>, which
  lists repositories on GitHub, writes a configuration and runs \<^verbatim>\<open>cmd/livegrep-fetch-reindex\<close>,
  which brings the mirrors up to date, builds the index, puts it in place, tells a backend to
  reload it, and runs \<^verbatim>\<open>cmd/livegrep-metrics-exporter\<close>. \<^verbatim>\<open>cmd/lg\<close> and \<^verbatim>\<open>cmd/lgiap\<close> are clients.

  \<^bold>\<open>How it is modelled.\<close> Every Go function is a HOL function of the same name where Isabelle
  allows it. A struct is a record or a datatype, a Go string or byte slice is a list of
  characters, a map is a partial function or an association list, and an integer whose width
  matters is a word. A function that can fail returns a \<open>res\<close> of GoPrelude: a value, an error
  value, or a run-time panic, so that an index out of range, a nil pointer and an explicit panic
  are all results one can reason about. \<^verbatim>\<open>sort.Slice\<close> is any rearrangement followed by a stable
  sort, which is all its contract says, and the order in which a Go map is visited is a
  parameter. Goroutines that work together are a step relation, one step for each communication,
  so that a theorem on reachable states is one on every schedule. git, the gRPC, HTTP and GitHub
  clients, files and the clock are parameters too: a function from arguments to what the command
  prints, or the answer of a call.

  \<^bold>\<open>The theories.\<close>
  \<^item> GoPrelude, GoStrings, GoNumbers, GoText, GoPaths, GoRegexp, GoUrl and GoFlags hold what the
    program uses of Go and its library: results, slices and their bounds, sorting, splitting and
    joining, \<^verbatim>\<open>strconv\<close>, UTF-8 and \<^verbatim>\<open>TrimSpace\<close>, \<^verbatim>\<open>path\<close>, the line scanner, pieces of regular
    expressions, \<^verbatim>\<open>net/url\<close>, and \<^verbatim>\<open>flag\<close>. GoPrelude has two locales that the components share:
    \<open>less_order\<close>, what a comparison must satisfy for a sort to mean anything, and
    \<open>record_stream\<close>, a parser that takes one record at a time off its input. GoChannels has a
    third, \<open>step_system\<close>: an invariant of the steps, and a measure that bounds every run.
  \<^item> Config is \<^verbatim>\<open>config/config.go\<close>.
  \<^item> QueryParser is \<^verbatim>\<open>query.go\<close>: the loop over the pieces of the text (\<open>piece_round\<close>,
    \<open>parse_loop\<close>), one definition for each branch, and the query built from the operators
    (\<open>query_of_ops\<close>). Written queries are read back to their fields, a text without a colon is
    searched for as it is, a literal search has no active metacharacter, and whatever is accepted
    has a consistent shape.
  \<^item> Backends is \<^verbatim>\<open>backend.go\<close>: opening a chain of backends, a round of polling
    (\<open>poll_step\<close>), the index information and the status. Availability is an invariant of
    every sequence of rounds.
  \<^item> SearchApi and SearchPages are \<^verbatim>\<open>api.go\<close>: the engine's query, the search with its backup,
    the grouping of matches (\<open>group_results\<close>), both forms of reply, the next page, and the
    status of every answer. Grouping is shown to refine a specification that says for each file
    what its count and its lines are, and not to depend on the order of maps or sorts.
  \<^item> GitFiles and FileView are the links, the listings and the page of a file or directory;
    GitRefs the branches and tags; DirTree the tree of a repository, shown to refine the forest
    that git lists; GitLog the log and its pages; GitBlame blame; GitShow one commit, read by a
    scanner whose result does not depend on the pieces in which the output arrives; UnifiedDiff
    the parser of diffs and the split view. Most parsers are proved against a printer: what git
    prints for a structure is read back to that structure.
  \<^item> Templates is \<^verbatim>\<open>templates/templates.go\<close>: the tree beside a page, lines with their matches
    marked, highlighting, and the hashes of assets.
  \<^item> RepoRoutes, HttpServer, FileHandlers and ServerRoutes are \<^verbatim>\<open>server.go\<close>: the maps of
    repositories and the paths of URLs, the response and the pages, every handler, and the table
    of routes (\<open>routes\<close>, \<open>serve\<close>). One theorem is about all handlers at once: git runs in no
    other directory than that of the repository which the request names.
  \<^item> ServerStart is \<^verbatim>\<open>New\<close>, the reloading of templates, \<^verbatim>\<open>server/middleware\<close>, and
    \<^verbatim>\<open>cmd/livegrep\<close>: what a server that runs holds, when it panics, what is in front of it.
  \<^item> CheckoutPool and FetchReindex are \<^verbatim>\<open>cmd/livegrep-fetch-reindex\<close>: the pool of workers
    (\<open>pool_step\<close>), shown to return unless more repositories fail than there are workers; git with
    its attempts, one mirror (\<open>checkoutOne\<close>), and the order of fetching, indexing and reloading.
  \<^item> GithubLoad and GithubReindex are \<^verbatim>\<open>cmd/livegrep-github-reindex\<close>: the calls for the pages
    of a list (\<open>pages_step\<close>) and the pool of jobs (\<open>load_step\<close>), both shown to return the whole
    under every schedule; the filters, the sort and the configuration, which does not depend on
    the schedule; and the command line for the next program, read back with that program's flags.
  \<^item> MetricsExporter is \<^verbatim>\<open>cmd/livegrep-metrics-exporter\<close>; LgClient is \<^verbatim>\<open>cmd/lg\<close>, put together
    with the reading of its query by the server, and \<^verbatim>\<open>cmd/livegrep-reload\<close>; CompositeQuery is
    \<^verbatim>\<open>cmd/lgiap\<close>: composite queries, the removal of doubles, and the stored credentials.

  \<^bold>\<open>Loops and fuel.\<close> Loops over a list are structural recursion, and the others carry a measure:
    the bytes or lines left to read, the distance of two indices, the pieces of output still to
    come. The loop of blame can run forever, so it is a \<open>partial_function\<close> in the option
    monad and not returning is \<open>None\<close>: one theorem shows when it returns, another when it
    does not. The two loops of Templates that follow pointers, from a tree node to its children
    and from a kind of token to its parent, are of that form too. A run of goroutines ends because every step takes a measure
    down. No fuel is used.

  \<^bold>\<open>What hypotheses stand for.\<close> A hypothesis on what git, GitHub or the indexer prints is its
  documented format; \<open>rearranges\<close> is the contract of \<^verbatim>\<open>sort.Slice\<close>; \<open>same_git\<close> says that two
  machines look alike from one directory. Each theorem with a hypothesis is followed by a witness
  that applies it to a concrete input.

  \<^bold>\<open>Not modelled.\<close> The C++ engine and the web front end are other languages and are reached by gRPC
  and HTTP only. Of third-party packages what the code uses is a parameter: the choice of a route
  and \<^verbatim>\<open>pat.Tail\<close>, the lexers of chroma, the client of GitHub, StatsD, the validation of
  tokens. So are the decoding of JSON, \<^verbatim>\<open>time.ParseDuration\<close>, which computes with floating point
  numbers, and what \<^verbatim>\<open>html/template\<close> makes of a page: a page is the name of its template and the
  data it is given. Logging, request ids, StatsD counters and the printing of style sheets have no
  part in any reply. Test files are not modelled.
\<close>

end
